(* ===== verification/Prelude.thy ===== *)
theory Prelude
  imports Main "HOL-Library.Word"
begin

text \<open>
  Shared vocabulary of the development: the machine types of the 32-bit little-endian ARM
  target, the flat byte-addressed memory the C pointers range over, byte sequences and
  NUL-terminated strings stored in it, and the generic lemmas on lists, functions and words
  that the component theories use.

  A C pointer is a \<open>32 word\<close>; pointer arithmetic wraps as it does on the hardware.  The boot
  loader runs without memory protection, so every address can be read and written and the
  memory is a total function.  A loop whose end depends on the data it reads (a NUL byte, a
  null link) is written with \<open>partial_function (option)\<close> where it may run forever: \<open>None\<close> is
  "does not return".
\<close>

unbundle bit_operations_syntax

section \<open>Machine types\<close>

type_synonym u8 = "8 word"
type_synonym u16 = "16 word"
type_synonym u32 = "32 word"
type_synonym u64 = "64 word"

type_synonym addr = u32
type_synonym mem = "addr \<Rightarrow> u8"

named_theorems word_facts \<open>arithmetic facts on fixed-width words shared by the components\<close>
named_theorems mem_simps \<open>simplification rules for byte sequences in memory\<close>

section \<open>Generic facts\<close>

lemma funpow_commute: "f ((f ^^ n) x) = (f ^^ n) (f x)"
  by (induction n) simp_all

lemma nth_tabulate: "xs = map f [0..<n] \<Longrightarrow> i < n \<Longrightarrow> xs ! i = f i"
  by simp

lemma unat_less_256 [word_facts, simp]: "unat (x :: u8) < 256"
  using unsigned_less [of x, where 'a = nat] by simp

lemma and_ff: "x AND 0xff = take_bit 8 (x :: 'a :: len word)"
  by (simp add: take_bit_eq_mask mask_eq_exp_minus_1)

lemma xor_cancel_right [word_facts]: "a XOR c = b XOR c \<longleftrightarrow> a = (b :: 'a :: len word)"
  by (metis xor.assoc xor.right_neutral xor_self_eq)

lemma xor_cancel_left [word_facts]: "c XOR a = c XOR b \<longleftrightarrow> a = (b :: 'a :: len word)"
  using xor_cancel_right [of a c b] by (simp add: xor.commute)

lemma ucast_u8_u16_inj [word_facts]: "(ucast (a :: u8) :: u16) = ucast b \<longleftrightarrow> a = b"
proof
  assume h: "(ucast a :: u16) = ucast b"
  show "a = b"
  proof (rule bit_word_eqI)
    fix n assume "n < LENGTH(8)"
    then show "bit a n = bit b n"
      using arg_cong [OF h, of "\<lambda>x. bit x n"] by (simp add: bit_simps)
  qed
qed simp

lemma unat_diff_Suc:
  "x \<noteq> p \<Longrightarrow> unat (x - p) = Suc (unat (x - (p + 1)))" for x p :: u32
  using unat_minus_one [of "x - p"] unat_gt_0 [of "x - p"] by (simp add: algebra_simps)

lemma mod_wrap_cases:
  "(a + j) mod (M :: nat) = n \<Longrightarrow> a < M \<Longrightarrow> j < M \<Longrightarrow> a + j = n \<or> a + j = n + M"
  by (cases "a + j < M") (auto simp: le_mod_geq)

lemma word_add_of_nat_eq:
  assumes h: "s + of_nat n = d + of_nat j" and n: "n < 2 ^ 32" and j: "j < 2 ^ 32"
  shows "unat (d - s :: u32) + j = n \<or> unat (d - s) + j = n + 2 ^ 32"
proof -
  from h have "(d - s) + of_nat j = of_nat n"  by (simp add: algebra_simps)
  then have "unat ((d - s) + of_nat j) = n" using n by (simp add: unat_of_nat)
  then have "(unat (d - s) + j) mod 2 ^ 32 = n" using j by (simp add: unat_word_ariths unat_of_nat)
  moreover have "unat (d - s) < 2 ^ 32" using unsigned_less [of "d - s", where 'a = nat] by simp
  ultimately show ?thesis using j by (rule mod_wrap_cases)
qed

lemma sint_of_nat_small: "n < 2 ^ 31 \<Longrightarrow> sint (of_nat n :: u32) = int n"
  by (simp add: signed_of_nat signed_take_bit_int_eq_self)

lemma sint_small: "unat x < 2 ^ 31 \<Longrightarrow> sint (x :: u32) = int (unat x)"
  using sint_of_nat_small [of "unat x"] by simp

lemma nat_sint_small: "unat x < 2 ^ 31 \<Longrightarrow> nat (sint (x :: u32)) = unat x"
  using sint_of_nat_small [of "unat x"] by simp

section \<open>Byte sequences in memory\<close>

fun mem_bytes :: "mem \<Rightarrow> addr \<Rightarrow> nat \<Rightarrow> u8 list" where
  "mem_bytes m p 0 = []"
| "mem_bytes m p (Suc n) = m p # mem_bytes m (p + 1) n"

lemma length_mem_bytes [simp, mem_simps]: "length (mem_bytes m p n) = n"
  by (induction n arbitrary: p) simp_all

lemma nth_mem_bytes [mem_simps]: "i < n \<Longrightarrow> mem_bytes m p n ! i = m (p + of_nat i)"
proof (induction n arbitrary: p i)
  case (Suc n)
  then show ?case by (cases i) (simp_all add: algebra_simps)
qed simp

lemma mem_bytes_2: "mem_bytes m p 2 = [m p, m (p + 1)]"
  by (simp add: numeral_2_eq_2)

lemma mem_bytes_append:
  "mem_bytes m p (a + b) = mem_bytes m p a @ mem_bytes m (p + of_nat a) b"
  by (induction a arbitrary: p) (simp_all add: algebra_simps)

lemma mem_bytes_cong:
  "(\<And>i. i < n \<Longrightarrow> m (p + of_nat i) = m' (q + of_nat i)) \<Longrightarrow> mem_bytes m p n = mem_bytes m' q n"
  by (rule nth_equalityI) (simp_all add: nth_mem_bytes)

lemma mem_bytes_eq_iff:
  "mem_bytes m p n = mem_bytes m' q n \<longleftrightarrow> (\<forall>i<n. m (p + of_nat i) = m' (q + of_nat i))"
  by (auto simp: list_eq_iff_nth_eq nth_mem_bytes)

text \<open>\<open>stores m p xs\<close>: the bytes \<open>xs\<close> lie in memory from address \<open>p\<close> on.\<close>

definition stores :: "mem \<Rightarrow> addr \<Rightarrow> u8 list \<Rightarrow> bool" where
  "stores m p xs \<longleftrightarrow> mem_bytes m p (length xs) = xs"

lemma stores_Nil [simp]: "stores m p []"
  by (simp add: stores_def)

lemma stores_Cons [simp]: "stores m p (x # xs) \<longleftrightarrow> m p = x \<and> stores m (p + 1) xs"
  by (simp add: stores_def)

lemma stores_append:
  "stores m p (xs @ ys) \<longleftrightarrow> stores m p xs \<and> stores m (p + of_nat (length xs)) ys"
  by (induction xs arbitrary: p) (simp_all add: algebra_simps)

lemma word_of_nat_eq_iff_less:
  "i < 2 ^ LENGTH('a) \<Longrightarrow> j < 2 ^ LENGTH('a) \<Longrightarrow>
   (of_nat i :: 'a :: len word) = of_nat j \<longleftrightarrow> i = j"
  by (metis mod_less unat_of_nat)

lemma mem_bytes_upd:
  assumes "i < n" and "n \<le> 2 ^ 32"
  shows "mem_bytes (m(p + of_nat i := b)) p n = (mem_bytes m p n)[i := b]"
proof (rule nth_equalityI)
  fix j assume "j < length (mem_bytes (m(p + of_nat i := b)) p n)"
  then have j: "j < n" by simp
  then have "(of_nat j :: u32) = of_nat i \<longleftrightarrow> j = i"
    using assms by (intro word_of_nat_eq_iff_less) simp_all
  with j show "mem_bytes (m(p + of_nat i := b)) p n ! j = (mem_bytes m p n)[i := b] ! j"
    by (simp add: nth_mem_bytes nth_list_update)
qed simp

lemma mem_bytes_unat_add:
  assumes "unat a + unat b < 2 ^ 32"
  shows "mem_bytes m p (unat (a + b)) = mem_bytes m p (unat a) @ mem_bytes m (p + a) (unat (b :: u32))"
  using assms mem_bytes_append [of m p "unat a" "unat b"] unat_add_lem [of a b] by simp

text \<open>Little-endian readers, as an unaligned load of the target gives them.\<close>

definition mem_le16 :: "mem \<Rightarrow> addr \<Rightarrow> u16" where
  "mem_le16 m p = ucast (m p) OR push_bit 8 (ucast (m (p + 1)))"

definition mem_le32 :: "mem \<Rightarrow> addr \<Rightarrow> u32" where
  "mem_le32 m p = ucast (m p) OR push_bit 8 (ucast (m (p + 1)))
     OR push_bit 16 (ucast (m (p + 2))) OR push_bit 24 (ucast (m (p + 3)))"

section \<open>NUL-terminated strings\<close>

text \<open>\<open>cstr m p s\<close>: the bytes \<open>s\<close>, none of them 0, lie at \<open>p\<close> and a 0 follows them.\<close>

fun cstr :: "mem \<Rightarrow> addr \<Rightarrow> u8 list \<Rightarrow> bool" where
  "cstr m p [] \<longleftrightarrow> m p = 0"
| "cstr m p (c # s) \<longleftrightarrow> m p = c \<and> c \<noteq> 0 \<and> cstr m (p + 1) s"

lemma cstr_stores: "cstr m p s \<longleftrightarrow> stores m p (s @ [0]) \<and> 0 \<notin> set s"
  by (induction s arbitrary: p) auto

lemma cstr_mem_bytes: "cstr m p s \<Longrightarrow> mem_bytes m p (length s) = s"
  by (induction s arbitrary: p) simp_all

lemma cstr_nth:
  "cstr m p s \<Longrightarrow> i \<le> length s \<Longrightarrow> m (p + of_nat i) = (if i < length s then s ! i else 0)"
proof (induction s arbitrary: p i)
  case (Cons c s)
  then show ?case by (cases i) (auto simp: add.assoc [symmetric])
qed simp

lemma cstr_end: "cstr m p s \<Longrightarrow> m (p + of_nat (length s)) = 0"
  using cstr_nth [of m p s "length s"] by simp

lemma cstr_unique: "cstr m p s \<Longrightarrow> cstr m p t \<Longrightarrow> s = t"
proof (induction s arbitrary: p t)
  case Nil
  then show ?case by (cases t) auto
next
  case (Cons c s)
  then show ?case by (cases t) auto
qed

lemma cstr_drop: "cstr m p s \<Longrightarrow> i \<le> length s \<Longrightarrow> cstr m (p + of_nat i) (drop i s)"
proof (induction s arbitrary: p i)
  case (Cons c s)
  then show ?case by (cases i) (auto simp: add.assoc [symmetric])
qed simp

lemma cstr_cong:
  "cstr m p s \<Longrightarrow> (\<And>i. i \<le> length s \<Longrightarrow> m' (p + of_nat i) = m (p + of_nat i)) \<Longrightarrow> cstr m' p s"
proof (induction s arbitrary: p)
  case Nil
  then show ?case using Nil.prems(2) [of 0] by simp
next
  case (Cons c s)
  have "m' ((p + 1) + of_nat i) = m ((p + 1) + of_nat i)" if "i \<le> length s" for i
    using Cons.prems(2) [of "Suc i"] that by (simp add: add.assoc)
  with Cons show ?case using Cons.prems(2) [of 0] by simp
qed

lemma cstr_move:
  "cstr m p s \<Longrightarrow> (\<And>i. i \<le> length s \<Longrightarrow> m' (q + of_nat i) = m (p + of_nat i)) \<Longrightarrow> cstr m' q s"
proof (induction s arbitrary: p q)
  case Nil
  then show ?case using Nil.prems(2) [of 0] by simp
next
  case (Cons c s)
  have "m' ((q + 1) + of_nat i) = m ((p + 1) + of_nat i)" if "i \<le> length s" for i
    using Cons.prems(2) [of "Suc i"] that by (simp add: add.assoc)
  then have "cstr m' (q + 1) s" using Cons.IH [of "p + 1" "q + 1"] Cons.prems(1) by simp
  then show ?case using Cons.prems(1) Cons.prems(2) [of 0] by simp
qed

text \<open>A block of bytes known by value is copied into memory.\<close>

fun put_bytes :: "mem \<Rightarrow> addr \<Rightarrow> u8 list \<Rightarrow> mem" where
  "put_bytes m p [] = m"
| "put_bytes m p (x # xs) = put_bytes (m(p := x)) (p + 1) xs"

text \<open>Little-endian fields of a byte list.\<close>

definition le32_at :: "u8 list \<Rightarrow> nat \<Rightarrow> u32" where
  "le32_at e i = ucast (e ! i) OR push_bit 8 (ucast (e ! (i + 1))) OR push_bit 16 (ucast (e ! (i + 2)))
     OR push_bit 24 (ucast (e ! (i + 3)))"

definition le16_at :: "u8 list \<Rightarrow> nat \<Rightarrow> u16" where
  "le16_at e i = ucast (e ! i) OR push_bit 8 (ucast (e ! (i + 1)))"

end
