(* ===== verification/Crc16.thy ===== *)
theory Crc16
  imports Prelude
begin

text \<open>
  The CRC-16 of \<open>src/src/sys/sys_crc16.c\<close> (RFC 1662 frame check sequence): the 256-entry
  table, the byte loop \<open>sys_crc16\<close>, the check \<open>sys_check_crc16\<close> and the generator
  \<open>sys_gen_crc16\<close>.  The lemmas relate the table to the polynomial division bit by bit, show
  that the generator and the check agree, and that damage to a single byte is detected.
\<close>

section \<open>Model\<close>

definition INITFCS16 :: u16 where "INITFCS16 = 0xffff"
definition GOODFCS16 :: u16 where "GOODFCS16 = 0xf0b8"

definition crc16_tbl :: "u16 list" where
  "crc16_tbl = [
    0x0000, 0x1189, 0x2312, 0x329b, 0x4624, 0x57ad, 0x6536, 0x74bf,
    0x8c48, 0x9dc1, 0xaf5a, 0xbed3, 0xca6c, 0xdbe5, 0xe97e, 0xf8f7,
    0x1081, 0x0108, 0x3393, 0x221a, 0x56a5, 0x472c, 0x75b7, 0x643e,
    0x9cc9, 0x8d40, 0xbfdb, 0xae52, 0xdaed, 0xcb64, 0xf9ff, 0xe876,
    0x2102, 0x308b, 0x0210, 0x1399, 0x6726, 0x76af, 0x4434, 0x55bd,
    0xad4a, 0xbcc3, 0x8e58, 0x9fd1, 0xeb6e, 0xfae7, 0xc87c, 0xd9f5,
    0x3183, 0x200a, 0x1291, 0x0318, 0x77a7, 0x662e, 0x54b5, 0x453c,
    0xbdcb, 0xac42, 0x9ed9, 0x8f50, 0xfbef, 0xea66, 0xd8fd, 0xc974,
    0x4204, 0x538d, 0x6116, 0x709f, 0x0420, 0x15a9, 0x2732, 0x36bb,
    0xce4c, 0xdfc5, 0xed5e, 0xfcd7, 0x8868, 0x99e1, 0xab7a, 0xbaf3,
    0x5285, 0x430c, 0x7197, 0x601e, 0x14a1, 0x0528, 0x37b3, 0x263a,
    0xdecd, 0xcf44, 0xfddf, 0xec56, 0x98e9, 0x8960, 0xbbfb, 0xaa72,
    0x6306, 0x728f, 0x4014, 0x519d, 0x2522, 0x34ab, 0x0630, 0x17b9,
    0xef4e, 0xfec7, 0xcc5c, 0xddd5, 0xa96a, 0xb8e3, 0x8a78, 0x9bf1,
    0x7387, 0x620e, 0x5095, 0x411c, 0x35a3, 0x242a, 0x16b1, 0x0738,
    0xffcf, 0xee46, 0xdcdd, 0xcd54, 0xb9eb, 0xa862, 0x9af9, 0x8b70,
    0x8408, 0x9581, 0xa71a, 0xb693, 0xc22c, 0xd3a5, 0xe13e, 0xf0b7,
    0x0840, 0x19c9, 0x2b52, 0x3adb, 0x4e64, 0x5fed, 0x6d76, 0x7cff,
    0x9489, 0x8500, 0xb79b, 0xa612, 0xd2ad, 0xc324, 0xf1bf, 0xe036,
    0x18c1, 0x0948, 0x3bd3, 0x2a5a, 0x5ee5, 0x4f6c, 0x7df7, 0x6c7e,
    0xa50a, 0xb483, 0x8618, 0x9791, 0xe32e, 0xf2a7, 0xc03c, 0xd1b5,
    0x2942, 0x38cb, 0x0a50, 0x1bd9, 0x6f66, 0x7eef, 0x4c74, 0x5dfd,
    0xb58b, 0xa402, 0x9699, 0x8710, 0xf3af, 0xe226, 0xd0bd, 0xc134,
    0x39c3, 0x284a, 0x1ad1, 0x0b58, 0x7fe7, 0x6e6e, 0x5cf5, 0x4d7c,
    0xc60c, 0xd785, 0xe51e, 0xf497, 0x8028, 0x91a1, 0xa33a, 0xb2b3,
    0x4a44, 0x5bcd, 0x6956, 0x78df, 0x0c60, 0x1de9, 0x2f72, 0x3efb,
    0xd68d, 0xc704, 0xf59f, 0xe416, 0x90a9, 0x8120, 0xb3bb, 0xa232,
    0x5ac5, 0x4b4c, 0x79d7, 0x685e, 0x1ce1, 0x0d68, 0x3ff3, 0x2e7a,
    0xe70e, 0xf687, 0xc41c, 0xd595, 0xa12a, 0xb0a3, 0x8238, 0x93b1,
    0x6b46, 0x7acf, 0x4854, 0x59dd, 0x2d62, 0x3ceb, 0x0e70, 0x1ff9,
    0xf78f, 0xe606, 0xd49d, 0xc514, 0xb1ab, 0xa022, 0x92b9, 0x8330,
    0x7bc7, 0x6a4e, 0x58d5, 0x495c, 0x3de3, 0x2c6a, 0x1ef1, 0x0f78
  ]"

fun sys_crc16_loop :: "mem \<Rightarrow> u16 \<Rightarrow> addr \<Rightarrow> nat \<Rightarrow> u16" where
  "sys_crc16_loop m crc datap 0 = crc"
| "sys_crc16_loop m crc datap (Suc len) =
     sys_crc16_loop m
       (drop_bit 8 crc XOR crc16_tbl ! unat ((crc XOR ucast (m datap)) AND 0xff))
       (datap + 1) len"

definition sys_crc16 :: "mem \<Rightarrow> u16 \<Rightarrow> addr \<Rightarrow> u32 \<Rightarrow> u16" where
  "sys_crc16 m crc datap len = sys_crc16_loop m crc datap (unat len)"

definition sys_check_crc16 :: "mem \<Rightarrow> addr \<Rightarrow> u32 \<Rightarrow> u32" where
  "sys_check_crc16 m datap len =
     (let crc = sys_crc16 m INITFCS16 datap len in if crc = GOODFCS16 then 0 else 1)"

text \<open>
  \<open>sys_gen_crc16\<close> is the generator of \<open>tools/sl_imghdr/sl_crc16.c\<close>.  The copy of it in
  \<open>src/src/sys/sys_crc16.c\<close> calls \<open>crc16_calculate\<close>, a function no file of the repository
  defines; that copy is \<open>sys_gen_crc16_boot\<close>, with the missing function as an argument.
\<close>

definition sys_gen_crc16 :: "mem \<Rightarrow> addr \<Rightarrow> u32 \<Rightarrow> u16" where
  "sys_gen_crc16 m datap len = (let crc = sys_crc16 m INITFCS16 datap len in crc XOR 0xffff)"

definition sys_gen_crc16_boot :: "(u16 \<Rightarrow> addr \<Rightarrow> u32 \<Rightarrow> u16) \<Rightarrow> addr \<Rightarrow> u32 \<Rightarrow> u16" where
  "sys_gen_crc16_boot crc16_calculate datap len =
     (let crc = crc16_calculate INITFCS16 datap len in crc XOR 0xffff)"

section \<open>The contract of a byte-wise CRC\<close>

text \<open>
  A CRC routine folds a step over the bytes of the message.  Where the step loses nothing of
  the register and nothing of the byte, two messages that differ in one byte have different
  checksums, whatever the initial register is.
\<close>

locale byte_crc =
  fixes step :: "'c \<Rightarrow> u8 \<Rightarrow> 'c"
  assumes step_inj_crc: "step c b = step c' b \<Longrightarrow> c = c'"
    and step_inj_byte: "step c b = step c b' \<Longrightarrow> b = b'"
begin

lemma foldl_inj: "foldl step c xs = foldl step c' xs \<Longrightarrow> c = c'"
  by (induction xs arbitrary: c c') (auto dest: step_inj_crc)

lemma foldl_one_byte:
  assumes "b \<noteq> b'"
  shows "foldl step c (xs @ b # ys) \<noteq> foldl step c (xs @ b' # ys)"
  using assms by (auto dest: foldl_inj step_inj_byte)

lemma foldl_list_update:
  assumes "i < length xs" and "xs ! i \<noteq> b"
  shows "foldl step c (xs[i := b]) \<noteq> foldl step c xs"
proof -
  have "xs = take i xs @ xs ! i # drop (Suc i) xs" and
    "xs[i := b] = take i xs @ b # drop (Suc i) xs"
    using assms(1) by (simp_all add: id_take_nth_drop [symmetric] upd_conv_take_nth_drop)
  then show ?thesis using foldl_one_byte [OF assms(2)] by metis
qed

end

section \<open>The reference: division by the polynomial, bit by bit\<close>

definition crc16_bit :: "u16 \<Rightarrow> u16" where
  "crc16_bit c = (if bit c 0 then drop_bit 1 c XOR 0x8408 else drop_bit 1 c)"

definition crc16_byte :: "u16 \<Rightarrow> u8 \<Rightarrow> u16" where
  "crc16_byte crc b = (crc16_bit ^^ 8) (crc XOR ucast b)"

lemmas crc16_bit_eval =
  crc16_bit_def [of "numeral k" for k] crc16_bit_def [of 0] crc16_bit_def [of 1]

lemma funpow_8: "(f ^^ 8) x = f (f (f (f (f (f (f (f x)))))))"
  by (simp add: eval_nat_numeral)

lemma upt_0_256: "[0..<256] = 0 # 1 # [2..<256]"
  by (simp add: upt_rec)

lemma crc16_tbl_eq: "crc16_tbl = map (\<lambda>i. (crc16_bit ^^ 8) (of_nat i)) [0..<256]"
  by (simp add: crc16_tbl_def funpow_8 upt_0_256 upt_rec_numeral crc16_bit_eval)

lemma crc16_tbl_nth: "i < 256 \<Longrightarrow> crc16_tbl ! i = (crc16_bit ^^ 8) (of_nat i)"
  by (simp add: crc16_tbl_eq)

lemma crc16_bit_xor: "crc16_bit (a XOR b) = crc16_bit a XOR crc16_bit b"
  by (auto simp: crc16_bit_def bit_simps bit_eq_iff)

lemma crc16_bit_pow_xor: "(crc16_bit ^^ n) (a XOR b) = (crc16_bit ^^ n) a XOR (crc16_bit ^^ n) b"
  by (induction n) (simp_all add: crc16_bit_xor)

lemma crc16_bit_shift: "(\<forall>i<n. \<not> bit a i) \<Longrightarrow> (crc16_bit ^^ n) a = drop_bit n a"
proof (induction n)
  case (Suc n)
  then have "(crc16_bit ^^ n) a = drop_bit n a" by simp
  moreover have "\<not> bit (drop_bit n a) 0" using Suc.prems by (simp add: bit_simps)
  ultimately show ?case by (simp add: crc16_bit_def [of "drop_bit n a"])
qed simp

lemma split_u16: "(c :: u16) = push_bit 8 (drop_bit 8 c) XOR take_bit 8 c"
  by (rule bit_eqI) (auto simp: bit_simps)

lemma drop_8_xor_byte: "drop_bit 8 (a XOR ucast (b :: u8)) = (drop_bit 8 a :: u16)"
  by (rule bit_eqI) (auto simp: bit_simps dest: bit_imp_le_length)

lemma crc16_step_eq:
  "drop_bit 8 crc XOR crc16_tbl ! unat ((crc XOR ucast b) AND 0xff) = crc16_byte crc b"
proof -
  let ?x = "crc XOR ucast b"
  have lt: "unat (take_bit 8 ?x) < 256"
    by (simp only: unsigned_take_bit_eq) (use take_bit_nat_less_exp [of 8 "unat ?x"] in simp)
  have "crc16_byte crc b =
      (crc16_bit ^^ 8) (push_bit 8 (drop_bit 8 ?x)) XOR (crc16_bit ^^ 8) (take_bit 8 ?x)"
    unfolding crc16_byte_def by (subst split_u16) (rule crc16_bit_pow_xor)
  also have "(crc16_bit ^^ 8) (push_bit 8 (drop_bit 8 ?x)) = drop_bit 8 (push_bit 8 (drop_bit 8 ?x))"
    by (rule crc16_bit_shift) (simp add: bit_simps)
  also have "\<dots> = drop_bit 8 crc"
    by (rule bit_eqI) (auto simp: bit_simps dest: bit_imp_le_length)
  finally show ?thesis
    unfolding and_ff crc16_tbl_nth [OF lt] by (simp only: of_nat_unat ucast_id)
qed

lemma sys_crc16_loop_foldl: "sys_crc16_loop m crc p n = foldl crc16_byte crc (mem_bytes m p n)"
  by (induction n arbitrary: crc p) (simp_all add: crc16_step_eq)

lemma crc16_bit_inj: "crc16_bit a = crc16_bit b \<Longrightarrow> a = b"
proof (rule bit_word_eqI)
  fix n assume h: "crc16_bit a = crc16_bit b" and n: "n < LENGTH(16)"
  have msb: "bit (crc16_bit c) 15 = bit c 0" for c :: u16
    by (auto simp: crc16_bit_def bit_simps dest: bit_imp_le_length)
  have low: "bit a 0 = bit b 0"
    using arg_cong [OF h, of "\<lambda>x. bit x 15"] by (simp add: msb)
  then have d: "drop_bit 1 a = drop_bit 1 b"
    using h by (simp add: crc16_bit_def xor_cancel_right split: if_splits)
  have "bit a (Suc k) = bit b (Suc k)" for k
    using arg_cong [OF d, of "\<lambda>x. bit x k"] by (simp add: bit_drop_bit_eq)
  then show "bit a n = bit b n"
    using low by (cases n) simp_all
qed

lemma crc16_bit_pow_inj: "(crc16_bit ^^ n) a = (crc16_bit ^^ n) b \<Longrightarrow> a = b"
  by (induction n) (auto dest: crc16_bit_inj)

interpretation fcs: byte_crc crc16_byte
proof unfold_locales
  fix c c' b b'
  show "crc16_byte c b = crc16_byte c' b \<Longrightarrow> c = c'"
    unfolding crc16_byte_def by (drule crc16_bit_pow_inj) (simp add: word_facts)
  show "crc16_byte c b = crc16_byte c b' \<Longrightarrow> b = b'"
    unfolding crc16_byte_def by (drule crc16_bit_pow_inj) (simp add: word_facts)
qed

lemma funpow_16: "(f ^^ 16) x = (f ^^ 8) ((f ^^ 8) x)"
  by (simp add: funpow_8 eval_nat_numeral)

lemma crc16_two_bytes:
  "crc16_byte (crc16_byte c b0) b1 = (crc16_bit ^^ 16) (c XOR (ucast b0 OR push_bit 8 (ucast b1)))"
proof -
  have d: "ucast b0 OR push_bit 8 (ucast b1) = ucast b0 XOR (push_bit 8 (ucast b1) :: u16)"
    by (rule bit_eqI) (auto simp: bit_simps dest: bit_imp_le_length)
  have "(crc16_bit ^^ 8) (push_bit 8 (ucast b1)) = drop_bit 8 (push_bit 8 (ucast b1 :: u16))"
    by (rule crc16_bit_shift) (simp add: bit_simps)
  also have "\<dots> = ucast b1"
    by (rule bit_eqI) (auto simp: bit_simps dest: bit_imp_le_length)
  finally have s: "ucast b1 = (crc16_bit ^^ 8) (push_bit 8 (ucast b1))" by simp
  have "crc16_byte (crc16_byte c b0) b1 =
      (crc16_bit ^^ 8) ((crc16_bit ^^ 8) (c XOR ucast b0) XOR (crc16_bit ^^ 8) (push_bit 8 (ucast b1)))"
    unfolding crc16_byte_def by (subst s) (rule refl)
  also have "\<dots> = (crc16_bit ^^ 16) ((c XOR ucast b0) XOR push_bit 8 (ucast b1))"
    by (simp only: crc16_bit_pow_xor [symmetric] funpow_16)
  finally show ?thesis by (simp add: d xor.assoc)
qed

lemma crc16_bit_pow_ffff: "(crc16_bit ^^ 16) 0xffff = GOODFCS16"
  by (simp add: GOODFCS16_def crc16_bit_eval funpow_16 funpow_8)

section \<open>Properties\<close>

text \<open>C6. The table-driven loop of \<open>sys_crc16\<close> computes the RFC 1662 checksum: for every memory,
  initial register, start address and length it equals the bit-by-bit division of the bytes by
  the reflected polynomial \<open>x^16 + x^12 + x^5 + 1\<close>.\<close>

theorem sys_crc16_bitwise:
  "sys_crc16 m crc datap len = foldl crc16_byte crc (mem_bytes m datap (unat len))"
  by (simp add: sys_crc16_def sys_crc16_loop_foldl)

text \<open>Checksumming a file chunk by chunk, as the image builder does, gives the checksum of
  the whole: the register after the first chunk is the initial register of the second.\<close>

lemma sys_crc16_chunks:
  assumes "unat a + unat b < 2 ^ 32"
  shows "sys_crc16 m crc datap (a + b) = sys_crc16 m (sys_crc16 m crc datap a) (datap + a) b"
  by (simp add: sys_crc16_def sys_crc16_loop_foldl mem_bytes_unat_add [OF assms])

lemma sys_crc16_chunks_example:
  "sys_crc16 (\<lambda>a. ucast a) 0xffff 0x100 (5 + 3) =
   sys_crc16 (\<lambda>a. ucast a) (sys_crc16 (\<lambda>a. ucast a) 0xffff 0x100 5) (0x100 + 5) 3"
  by (rule sys_crc16_chunks) simp

text \<open>C30. \<open>sys_check_crc16\<close> accepts a message followed by a two-byte little-endian trailer exactly
  when the trailer is what \<open>sys_gen_crc16\<close> computes for the message.\<close>

theorem sys_check_crc16_iff_gen:
  assumes "unat len + 2 < 2 ^ 32"
  shows "sys_check_crc16 m datap (len + 2) = 0 \<longleftrightarrow>
         mem_le16 m (datap + len) = sys_gen_crc16 m datap len"
proof -
  let ?c = "sys_crc16 m INITFCS16 datap len"
  have "sys_crc16 m INITFCS16 datap (len + 2) = sys_crc16 m ?c (datap + len) 2"
    using assms by (simp add: sys_crc16_def sys_crc16_loop_foldl mem_bytes_unat_add)
  also have "\<dots> = (crc16_bit ^^ 16) (?c XOR mem_le16 m (datap + len))"
    by (simp add: sys_crc16_def sys_crc16_loop_foldl mem_bytes_2 crc16_two_bytes mem_le16_def)
  finally have "sys_check_crc16 m datap (len + 2) = 0 \<longleftrightarrow>
      (crc16_bit ^^ 16) (?c XOR mem_le16 m (datap + len)) = (crc16_bit ^^ 16) 0xffff"
    by (simp add: sys_check_crc16_def crc16_bit_pow_ffff)
  also have "\<dots> \<longleftrightarrow> ?c XOR mem_le16 m (datap + len) = ?c XOR (?c XOR 0xffff)"
    by (auto dest: crc16_bit_pow_inj simp: xor.assoc [symmetric])
  finally show ?thesis by (simp only: sys_gen_crc16_def Let_def xor_cancel_left)
qed

theorem sys_check_crc16_iff_gen_witness:
  "sys_check_crc16 (\<lambda>a. ucast a) 0x100 (3 + 2) = 0 \<longleftrightarrow>
   mem_le16 (\<lambda>a. ucast a) (0x100 + 3) = sys_gen_crc16 (\<lambda>a. ucast a) 0x100 3"
  by (rule sys_check_crc16_iff_gen) simp

text \<open>C31. Damage to one byte of a message always changes its checksum.\<close>

theorem sys_crc16_detects_byte_error:
  assumes "i < unat len" and "b \<noteq> m (datap + of_nat i)"
  shows "sys_crc16 (m(datap + of_nat i := b)) crc datap len \<noteq> sys_crc16 m crc datap len"
proof -
  have "unat len \<le> 2 ^ 32" using unsigned_less [of len, where 'a = nat] by simp
  then show ?thesis
    using assms fcs.foldl_list_update [of i "mem_bytes m datap (unat len)" b crc]
    by (simp add: sys_crc16_def sys_crc16_loop_foldl mem_bytes_upd nth_mem_bytes)
qed

theorem sys_crc16_detects_byte_error_witness:
  "sys_crc16 ((\<lambda>_. 0)(0x100 + of_nat 2 := 7)) 0 0x100 4 \<noteq> sys_crc16 (\<lambda>_. 0) 0 0x100 4"
  by (rule sys_crc16_detects_byte_error) simp_all

end
