(* ===== verification/SysString.thy ===== *)
theory SysString
  imports Prelude
begin

text \<open>
  The byte and string routines of \<open>src/src/sys/sys_string.c\<close> (with \<open>toupper\<close>, \<open>isdigit\<close> and
  \<open>ishex\<close> of \<open>src/inc/api.h\<close>), over the flat memory: \<open>memset\<close>, \<open>memcpy\<close>, the comparisons, the
  searches, \<open>strcpy\<close> and the number and address parsers.  A loop that runs to a NUL byte is an
  \<open>option\<close>: \<open>None\<close> when memory holds no such byte.  The lemmas state each routine's result on
  NUL-terminated strings (\<open>cstr\<close>), so a caller never unfolds a loop.
\<close>

section \<open>Model\<close>

subsection \<open>Characters (inc/api.h)\<close>

definition sys_toupper :: "u8 \<Rightarrow> u8" where
  "sys_toupper data = (if data \<ge> 0x61 \<and> data \<le> 0x7a then data - 0x20 else data)"

definition is_digit :: "u8 \<Rightarrow> bool" where
  "is_digit c \<longleftrightarrow> c \<ge> 0x30 \<and> c \<le> 0x39"

definition is_hex :: "u8 \<Rightarrow> bool" where
  "is_hex c \<longleftrightarrow> (c \<ge> 0x41 \<and> c \<le> 0x46) \<or> (c \<ge> 0x61 \<and> c \<le> 0x66)"

subsection \<open>Blocks of bytes\<close>

text \<open>\<open>while (size--)\<close> with an \<open>int\<close> size runs \<open>unat size\<close> times: once per unit for a size that
  is not negative, and round the whole 32-bit range for a negative one.\<close>

fun sys_memset_loop :: "mem \<Rightarrow> addr \<Rightarrow> u8 \<Rightarrow> nat \<Rightarrow> mem" where
  "sys_memset_loop m pByte data 0 = m"
| "sys_memset_loop m pByte data (Suc n) = sys_memset_loop (m(pByte := data)) (pByte + 1) data n"

definition sys_memset :: "mem \<Rightarrow> addr \<Rightarrow> u32 \<Rightarrow> u32 \<Rightarrow> mem" where
  "sys_memset m datap data sz = sys_memset_loop m datap (ucast data) (unat sz)"

fun memcpy_loop :: "mem \<Rightarrow> addr \<Rightarrow> addr \<Rightarrow> nat \<Rightarrow> mem" where
  "memcpy_loop m pDest pSrce 0 = m"
| "memcpy_loop m pDest pSrce (Suc n) =
     memcpy_loop (m(pDest := m pSrce)) (pDest + 1) (pSrce + 1) n"

text \<open>\<open>flash_read_buf\<close> drives the NAND controller; the copy routine only relies on the memory it
  leaves and on whether it reports an error.\<close>

type_synonym flash_reader = "mem \<Rightarrow> addr \<Rightarrow> addr \<Rightarrow> u32 \<Rightarrow> mem \<times> bool"

definition nand_read :: "flash_reader \<Rightarrow> mem \<Rightarrow> addr \<Rightarrow> addr \<Rightarrow> u32 \<Rightarrow> mem \<times> int" where
  "nand_read flash_read_buf m dst src count =
     (let (m', err) = flash_read_buf m src dst count in (m', if err then -1 else 0))"

definition BOARD_FLASH_BASE_ADDR :: addr where "BOARD_FLASH_BASE_ADDR = 0x30000000"

definition sys_memcpy ::
  "flash_reader \<Rightarrow> u32 \<Rightarrow> bool \<Rightarrow> mem \<Rightarrow> addr \<Rightarrow> addr \<Rightarrow> u32 \<Rightarrow> mem" where
  "sys_memcpy flash_read_buf flash_ctrl nand_present m dest srce sz =
     (let value = flash_ctrl AND 0x1f00 in
      if value AND 0x1000 = 0x1000 then
        (if srce \<ge> BOARD_FLASH_BASE_ADDR \<and> srce < 0x40000000 \<and> nand_present
         then fst (nand_read flash_read_buf m dest srce sz)
         else memcpy_loop m dest srce (unat sz))
      else memcpy_loop m dest srce (unat sz))"

fun memcmp_loop :: "mem \<Rightarrow> addr \<Rightarrow> addr \<Rightarrow> nat \<Rightarrow> int" where
  "memcmp_loop m pDest pSrce 0 = 0"
| "memcmp_loop m pDest pSrce (Suc n) =
     (if m pDest \<noteq> m pSrce then 1 else memcmp_loop m (pDest + 1) (pSrce + 1) n)"

definition sys_memcmp :: "mem \<Rightarrow> addr \<Rightarrow> addr \<Rightarrow> u32 \<Rightarrow> int" where
  "sys_memcmp m dest srce sz = memcmp_loop m dest srce (unat sz)"

fun memicmp_loop :: "mem \<Rightarrow> addr \<Rightarrow> addr \<Rightarrow> nat \<Rightarrow> int" where
  "memicmp_loop m pDest pSrce 0 = 0"
| "memicmp_loop m pDest pSrce (Suc n) =
     (if sys_toupper (m pDest) \<noteq> sys_toupper (m pSrce) then 1
      else memicmp_loop m (pDest + 1) (pSrce + 1) n)"

definition sys_memicmp :: "mem \<Rightarrow> addr \<Rightarrow> addr \<Rightarrow> u32 \<Rightarrow> int" where
  "sys_memicmp m dest srce sz = memicmp_loop m dest srce (unat sz)"

fun strncmp_loop :: "mem \<Rightarrow> addr \<Rightarrow> addr \<Rightarrow> nat \<Rightarrow> int" where
  "strncmp_loop m pDest pSrce 0 = 0"
| "strncmp_loop m pDest pSrce (Suc n) =
     (if m pDest \<noteq> m pSrce then 1 else strncmp_loop m (pDest + 1) (pSrce + 1) n)"

definition sys_strncmp :: "mem \<Rightarrow> addr \<Rightarrow> addr \<Rightarrow> u32 \<Rightarrow> int" where
  "sys_strncmp m dest srce len = strncmp_loop m dest srce (unat len)"

subsection \<open>NUL-terminated strings\<close>

partial_function (option) strlen_loop :: "mem \<Rightarrow> addr \<Rightarrow> u32 \<Rightarrow> u32 option" where
  "strlen_loop m pSrce len =
     (if m pSrce \<noteq> 0 then strlen_loop m (pSrce + 1) (len + 1) else Some len)"

definition sys_strlen :: "mem \<Rightarrow> addr \<Rightarrow> u32 option" where
  "sys_strlen m srce = strlen_loop m srce 0"

partial_function (option) sys_strcpy :: "mem \<Rightarrow> addr \<Rightarrow> addr \<Rightarrow> mem option" where
  "sys_strcpy m pDest pSrce =
     (if m pSrce \<noteq> 0 then sys_strcpy (m(pDest := m pSrce)) (pDest + 1) (pSrce + 1)
      else Some (m(pDest := 0)))"

partial_function (option) sys_strcmp :: "mem \<Rightarrow> addr \<Rightarrow> addr \<Rightarrow> int option" where
  "sys_strcmp m pDest pSrce =
     (if m pSrce \<noteq> 0 \<and> m pDest \<noteq> 0 then
        (if m pDest \<noteq> m pSrce then Some 1 else sys_strcmp m (pDest + 1) (pSrce + 1))
      else if m pSrce \<noteq> 0 \<or> m pDest \<noteq> 0 then Some 1 else Some 0)"

partial_function (option) sys_strncasecmp :: "mem \<Rightarrow> addr \<Rightarrow> addr \<Rightarrow> int option" where
  "sys_strncasecmp m pDest pSrce =
     (if m pSrce \<noteq> 0 \<and> m pDest \<noteq> 0 then
        (if sys_toupper (m pDest) \<noteq> sys_toupper (m pSrce) then Some 1
         else sys_strncasecmp m (pDest + 1) (pSrce + 1))
      else if m pSrce \<noteq> 0 \<or> m pDest \<noteq> 0 then Some 1 else Some 0)"

text \<open>A search returns 0, the null pointer, when it finds nothing.\<close>

partial_function (option) sys_strchr :: "mem \<Rightarrow> addr \<Rightarrow> u8 \<Rightarrow> addr option" where
  "sys_strchr m s c =
     (if m s \<noteq> c then (if m s = 0 then Some 0 else sys_strchr m (s + 1) c) else Some s)"

partial_function (option) strrchr_loop :: "mem \<Rightarrow> addr \<Rightarrow> u8 \<Rightarrow> addr \<Rightarrow> addr option" where
  "strrchr_loop m s c p =
     (if m p = c then Some p
      else if p - 1 \<ge> s then strrchr_loop m s c (p - 1) else Some 0)"

definition sys_strrchr :: "mem \<Rightarrow> addr \<Rightarrow> u8 \<Rightarrow> addr option" where
  "sys_strrchr m s c =
     (case sys_strlen m s of None \<Rightarrow> None | Some n \<Rightarrow> strrchr_loop m s c (s + n))"

partial_function (option) strstr_loop ::
  "mem \<Rightarrow> addr \<Rightarrow> addr \<Rightarrow> u32 \<Rightarrow> u32 \<Rightarrow> addr option" where
  "strstr_loop m s1 s2 l1 l2 =
     (if sint l1 \<ge> sint l2 then
        (if sys_memcmp m s1 s2 l2 = 0 then Some s1
         else strstr_loop m (s1 + 1) s2 (l1 - 1) l2)
      else Some 0)"

definition sys_strstr :: "mem \<Rightarrow> addr \<Rightarrow> addr \<Rightarrow> addr option" where
  "sys_strstr m s1 s2 =
     (case sys_strlen m s2 of None \<Rightarrow> None
      | Some l2 \<Rightarrow>
          if l2 = 0 then Some s1
          else (case sys_strlen m s1 of None \<Rightarrow> None
                | Some l1 \<Rightarrow> strstr_loop m s1 s2 l1 l2))"

subsection \<open>Parsers\<close>

definition char2hex :: "u8 \<Rightarrow> u32" where
  "char2hex c =
     (if c \<ge> 0x30 \<and> c \<le> 0x39 then ucast c - 0x30
      else if c \<ge> 0x61 \<and> c \<le> 0x66 then ucast c - 0x61 + 10
      else if c \<ge> 0x41 \<and> c \<le> 0x46 then ucast c - 0x41 + 10
      else 0xffffffff)"

definition char2decimal :: "u8 \<Rightarrow> u32" where
  "char2decimal c = (if c \<ge> 0x30 \<and> c \<le> 0x39 then ucast c - 0x30 else 0xffffffff)"

text \<open>The digit loops return the address of the first character that is no digit as well: the
  caller \<open>str2ip\<close> goes on from there.\<close>

partial_function (option) str2hex_loop :: "mem \<Rightarrow> addr \<Rightarrow> u32 \<Rightarrow> (u32 \<times> addr) option" where
  "str2hex_loop m cp result =
     (let value = char2hex (m cp) in
      if value \<noteq> 0xffffffff then str2hex_loop m (cp + 1) (result * 16 + value)
      else Some (result, cp))"

partial_function (option) str2decimal_loop :: "mem \<Rightarrow> addr \<Rightarrow> u32 \<Rightarrow> (u32 \<times> addr) option" where
  "str2decimal_loop m cp result =
     (let value = char2decimal (m cp) in
      if value \<noteq> 0xffffffff then str2decimal_loop m (cp + 1) (result * 10 + value)
      else Some (result, cp))"

definition has_0x :: "mem \<Rightarrow> addr \<Rightarrow> bool" where
  "has_0x m cp \<longleftrightarrow> m cp = 0x30 \<and> sys_toupper (m (cp + 1)) = 0x58"

definition str2hex :: "mem \<Rightarrow> addr \<Rightarrow> u32 option" where
  "str2hex m cp = map_option fst (str2hex_loop m (if has_0x m cp then cp + 2 else cp) 0)"

definition str2decimal :: "mem \<Rightarrow> addr \<Rightarrow> u32 option" where
  "str2decimal m cp = map_option fst (str2decimal_loop m cp 0)"

text \<open>The check loop of \<open>str2value\<close>: \<open>Some None\<close> is the early \<open>return 0\<close> on a character that is
  neither a hexadecimal letter nor a digit, \<open>Some (Some b)\<close> the value of \<open>is_hex\<close> at the end.\<close>

partial_function (option) str2value_check :: "mem \<Rightarrow> addr \<Rightarrow> bool \<Rightarrow> bool option option" where
  "str2value_check m cp hex =
     (if m cp \<noteq> 0 \<and> m cp \<noteq> 0x20 \<and> m cp \<noteq> 0x3a \<and> m cp \<noteq> 0x2c \<and> m cp \<noteq> 0x2e then
        (if is_hex (m cp) then str2value_check m (cp + 1) True
         else if \<not> is_digit (m cp) then Some None
         else str2value_check m (cp + 1) hex)
      else Some (Some hex))"

definition str2value :: "mem \<Rightarrow> addr \<Rightarrow> u32 option" where
  "str2value m strp =
     (let hex = has_0x m strp; strp = (if hex then strp + 2 else strp) in
      case str2value_check m strp hex of
        None \<Rightarrow> None
      | Some None \<Rightarrow> Some 0
      | Some (Some hex) \<Rightarrow> if hex then str2hex m strp else str2decimal m strp)"

definition IPIV :: "u32 \<Rightarrow> u32 \<Rightarrow> u32 \<Rightarrow> u32 \<Rightarrow> u32" where
  "IPIV a b c d = push_bit 24 a + push_bit 16 b + push_bit 8 c + d"

definition IP1 :: "u32 \<Rightarrow> u32" where "IP1 a = drop_bit 24 a AND 0xff"
definition IP2 :: "u32 \<Rightarrow> u32" where "IP2 a = drop_bit 16 a AND 0xff"
definition IP3 :: "u32 \<Rightarrow> u32" where "IP3 a = drop_bit 8 a AND 0xff"
definition IP4 :: "u32 \<Rightarrow> u32" where "IP4 a = a AND 0xff"

text \<open>The loop over the four fields of \<open>str2ip\<close>; \<open>Some None\<close> is its \<open>return 0\<close>.\<close>

fun str2ip_loop :: "mem \<Rightarrow> addr \<Rightarrow> nat \<Rightarrow> u32 list \<Rightarrow> u32 list option option" where
  "str2ip_loop m cp 0 ip = Some (Some ip)"
| "str2ip_loop m cp (Suc k) ip =
     (case str2decimal_loop m cp 0 of
        None \<Rightarrow> None
      | Some (value, cp') \<Rightarrow>
          if k > 0 \<and> m cp' \<noteq> 0x2e then Some None
          else str2ip_loop m (cp' + 1) k (ip @ [value]))"

definition str2ip :: "mem \<Rightarrow> addr \<Rightarrow> u32 option" where
  "str2ip m cp =
     (case str2ip_loop m cp 4 [] of
        None \<Rightarrow> None
      | Some None \<Rightarrow> Some 0
      | Some (Some ip) \<Rightarrow> Some (IPIV (ip ! 0) (ip ! 1) (ip ! 2) (ip ! 3)))"

section \<open>Blocks of bytes\<close>

lemma sys_memset_loop_apply:
  "n \<le> 2 ^ 32 \<Longrightarrow> sys_memset_loop m p d n x = (if unat (x - p) < n then d else m x)"
proof (induction n arbitrary: m p)
  case (Suc n)
  then show ?case by (cases "x = p") (simp_all add: unat_diff_Suc)
qed simp

lemma memcpy_loop_snoc:
  "memcpy_loop m d s (Suc n) =
     (let m' = memcpy_loop m d s n in m'(d + of_nat n := m' (s + of_nat n)))"
proof (induction n arbitrary: m d s)
  case (Suc n)
  show ?case
    by (subst memcpy_loop.simps(2), subst Suc.IH, simp add: Let_def add.assoc)
qed simp

lemma memcpy_loop_block:
  "n \<le> 2 ^ 32 \<Longrightarrow>
   (\<forall>i<n. memcpy_loop m d s n (d + of_nat i) = m (s + of_nat (i mod unat (d - s)))) \<and>
   (\<forall>x. (\<forall>i<n. x \<noteq> d + of_nat i) \<longrightarrow> memcpy_loop m d s n x = m x)"
proof (induction n)
  case (Suc n)
  let ?k = "unat (d - s)" and ?m' = "memcpy_loop m d s n"
  from Suc have ih: "\<And>i. i < n \<Longrightarrow> ?m' (d + of_nat i) = m (s + of_nat (i mod ?k))"
    and out: "\<And>x. (\<forall>i<n. x \<noteq> d + of_nat i) \<Longrightarrow> ?m' x = m x" by auto
  have n: "n < 2 ^ 32" using Suc.prems by simp
  have last: "?m' (s + of_nat n) = m (s + of_nat (n mod ?k))"
  proof (cases "0 < ?k \<and> ?k \<le> n")
    case True
    have "s + of_nat n = d + of_nat (n - ?k)"
      using True by (simp add: of_nat_diff)
    then have "?m' (s + of_nat n) = ?m' (d + of_nat (n - ?k))" by (rule arg_cong)
    also have "\<dots> = m (s + of_nat ((n - ?k) mod ?k))"
      by (rule ih) (use True in simp)
    also have "(n - ?k) mod ?k = n mod ?k" using True by (simp add: le_mod_geq)
    finally show ?thesis .
  next
    case False
    have "s + of_nat n \<noteq> d + of_nat j" if "j < n" for j
    proof
      assume "s + of_nat n = d + of_nat j"
      then have "?k + j = n \<or> ?k + j = n + 2 ^ 32"
        using that n by (intro word_add_of_nat_eq) simp_all
      moreover have "?k < 2 ^ 32" using unsigned_less [of "d - s", where 'a = nat] by simp
      ultimately show False using that False by auto
    qed
    then have "?m' (s + of_nat n) = m (s + of_nat n)" by (intro out) blast
    then show ?thesis using False by (cases "?k = 0") (simp_all add: mod_less)
  qed
  have ne: "d + of_nat i \<noteq> d + (of_nat n :: u32)" if "i < n" for i
    using that n by (simp add: word_of_nat_eq_iff_less)
  show ?case
    using last ih out ne unfolding memcpy_loop_snoc Let_def
    by (auto simp: less_Suc_eq)
qed simp

lemma unat_add_bound_iff: "(\<exists>i<n. x = d + of_nat i) \<longleftrightarrow> unat (x - d) < n" if "n \<le> 2 ^ 32" for x d :: u32
proof
  assume "\<exists>i<n. x = d + of_nat i"
  then obtain i where "i < n" "x = d + of_nat i" by blast
  with that show "unat (x - d) < n" by (simp add: unat_of_nat)
next
  assume "unat (x - d) < n"
  then show "\<exists>i<n. x = d + of_nat i" by (intro exI [of _ "unat (x - d)"]) simp
qed

lemma memcpy_loop_apply:
  "n \<le> 2 ^ 32 \<Longrightarrow>
   memcpy_loop m d s n x =
     (if unat (x - d) < n then m (s + of_nat (unat (x - d) mod unat (d - s))) else m x)"
  using memcpy_loop_block [of n m d s] unat_add_bound_iff [of n x d]
  by (metis add_diff_cancel_left' diff_add_cancel add.commute of_nat_unat ucast_id)

lemma memcmp_loop_eq_0: "memcmp_loop m d s n = 0 \<longleftrightarrow> mem_bytes m d n = mem_bytes m s n"
  by (induction n arbitrary: d s) simp_all

lemma memcmp_loop_range: "memcmp_loop m d s n \<in> {0, 1}"
  by (induction n arbitrary: d s) simp_all

lemma memicmp_loop_eq_0:
  "memicmp_loop m d s n = 0 \<longleftrightarrow> map sys_toupper (mem_bytes m d n) = map sys_toupper (mem_bytes m s n)"
  by (induction n arbitrary: d s) simp_all

lemma strncmp_loop_eq_0: "strncmp_loop m d s n = 0 \<longleftrightarrow> mem_bytes m d n = mem_bytes m s n"
  by (induction n arbitrary: d s) simp_all

section \<open>Strings\<close>

lemma strlen_loop_cstr: "cstr m p s \<Longrightarrow> strlen_loop m p len = Some (len + of_nat (length s))"
  by (induction s arbitrary: p len) (simp_all add: strlen_loop.simps algebra_simps)

lemma sys_strlen_cstr: "cstr m p s \<Longrightarrow> sys_strlen m p = Some (of_nat (length s))"
  by (simp add: sys_strlen_def strlen_loop_cstr)

lemma strlen_loop_SomeD: "strlen_loop m p len = Some r \<Longrightarrow> \<exists>s. cstr m p s"
proof (rule strlen_loop.raw_induct [where P = "\<lambda>m p len r. \<exists>s. cstr m p s"])
  fix f m p len r
  assume ih: "\<And>m p len r. f m p len = Some r \<Longrightarrow> \<exists>s. cstr m p s"
    and eq: "(if m p \<noteq> 0 then f m (p + 1) (len + 1) else Some len) = Some r"
  show "\<exists>s. cstr m p s"
  proof (cases "m p = 0")
    case True
    then have "cstr m p []" by simp
    then show ?thesis by blast
  next
    case False
    with eq have "f m (p + 1) (len + 1) = Some r" by simp
    then obtain s where "cstr m (p + 1) s" using ih by blast
    with False have "cstr m p (m p # s)" by simp
    then show ?thesis by blast
  qed
qed

lemma sys_strcmp_cstr:
  "cstr m p s \<Longrightarrow> cstr m q t \<Longrightarrow> sys_strcmp m p q = Some (if s = t then 0 else 1)"
proof (induction s arbitrary: p q t)
  case Nil
  then show ?case by (cases t) (auto simp: sys_strcmp.simps)
next
  case (Cons c s)
  then show ?case by (cases t) (auto simp: sys_strcmp.simps)
qed

lemma sys_strncasecmp_cstr:
  "cstr m p s \<Longrightarrow> cstr m q t \<Longrightarrow>
   sys_strncasecmp m p q = Some (if map sys_toupper s = map sys_toupper t then 0 else 1)"
proof (induction s arbitrary: p q t)
  case Nil
  then show ?case by (cases t) (auto simp: sys_strncasecmp.simps)
next
  case (Cons c s)
  then show ?case by (cases t) (auto simp: sys_strncasecmp.simps)
qed

lemma sys_strchr_cstr:
  "cstr m p s \<Longrightarrow>
   sys_strchr m p c = Some (if c = 0 \<or> c \<in> set s then p + of_nat (length (takeWhile (\<lambda>x. x \<noteq> c) s)) else 0)"
proof (induction s arbitrary: p)
  case Nil
  then show ?case by (subst sys_strchr.simps) (auto)
next
  case (Cons x s)
  then show ?case by (subst sys_strchr.simps) (auto simp: add.assoc)
qed

lemma sys_strcpy_cstr:
  "cstr m p s \<Longrightarrow> d = p \<or> length s < unat (d - p) \<Longrightarrow> length s < 2 ^ 32 \<Longrightarrow>
   sys_strcpy m d p = Some (memcpy_loop m d p (Suc (length s)))"
proof (induction s arbitrary: m p d)
  case Nil
  then show ?case by (simp add: sys_strcpy.simps fun_upd_def)
next
  case (Cons c s)
  let ?m = "m(d := m p)"
  have "cstr ?m (p + 1) s"
  proof (cases "d = p")
    case True
    then have "?m = m" by auto
    then show ?thesis using Cons.prems by simp
  next
    case False
    have ne: "d \<noteq> (p + 1) + of_nat i" if "i \<le> length s" for i
    proof
      assume "d = (p + 1) + of_nat i"
      then have "d - p = of_nat (Suc i)" by simp
      then have "unat (d - p) = Suc i" using that Cons.prems(3) by (simp add: unat_of_nat del: of_nat_Suc)
      then show False using Cons.prems(2) False that by simp
    qed
    have "cstr m (p + 1) s" using Cons.prems(1) by simp
    then show ?thesis
    proof (rule cstr_cong)
      fix i assume "i \<le> length s"
      from ne [OF this] show "?m (p + 1 + of_nat i) = m (p + 1 + of_nat i)" by (metis fun_upd_other)
    qed
  qed
  moreover have "d + 1 = p + 1 \<or> length s < unat (d + 1 - (p + 1))"
    using Cons.prems(2) by auto
  ultimately have "sys_strcpy ?m (d + 1) (p + 1) =
      Some (memcpy_loop ?m (d + 1) (p + 1) (Suc (length s)))"
    by (rule Cons.IH) (use Cons.prems(3) in simp)
  then show ?case using Cons.prems(1) by (subst sys_strcpy.simps) simp
qed

lemma sys_strlen_iff: "sys_strlen m p = Some n \<longleftrightarrow> (\<exists>s. cstr m p s \<and> n = of_nat (length s))"
proof
  assume h: "sys_strlen m p = Some n"
  then obtain s where "cstr m p s" unfolding sys_strlen_def using strlen_loop_SomeD by blast
  with h show "\<exists>s. cstr m p s \<and> n = of_nat (length s)" using sys_strlen_cstr by force
qed (auto simp: sys_strlen_cstr)

text \<open>The backward scan of \<open>strrchr\<close> stops before the start of the string, provided that the
  string neither starts at address 0 nor runs over the end of the address space.\<close>

lemma strrchr_loop_rev:
  assumes "unat s + n < 2 ^ 32" and "s \<noteq> 0"
  shows "strrchr_loop m s c (s + of_nat n) =
    Some (if \<exists>i\<le>n. m (s + of_nat i) = c then s + of_nat (GREATEST i. i \<le> n \<and> m (s + of_nat i) = c) else 0)"
  using assms
proof (induction n)
  case 0
  have "\<not> s \<le> s - 1" using 0 unat_minus_one [of s] unat_gt_0 [of s] by (simp add: word_le_nat_alt)
  moreover have "(GREATEST i. i \<le> 0 \<and> m (s + of_nat i) = c) = 0" if "m s = c"
    using that by (intro Greatest_equality) auto
  ultimately show ?case by (subst strrchr_loop.simps) auto
next
  case (Suc n)
  show ?case
  proof (cases "m (s + of_nat (Suc n)) = c")
    case True
    then have "(GREATEST i. i \<le> Suc n \<and> m (s + of_nat i) = c) = Suc n"
      by (intro Greatest_equality) auto
    with True show ?thesis by (subst strrchr_loop.simps) auto
  next
    case False
    have "s \<le> s + of_nat n"
      using Suc.prems by (simp add: word_le_nat_alt unat_word_ariths unat_of_nat)
    moreover have eq: "i \<le> Suc n \<and> m (s + of_nat i) = c \<longleftrightarrow> i \<le> n \<and> m (s + of_nat i) = c" for i
      using False by (auto simp: le_Suc_eq)
    ultimately show ?thesis
      using False Suc by (subst strrchr_loop.simps) (simp only: eq, simp)
  qed
qed

lemma unat_ucast_u8_u32 [word_facts]: "unat (ucast (c :: u8) :: u32) = unat c"
proof -
  have "unat c < 2 ^ 32" using unat_less_256 [of c] by (rule less_trans) simp
  then show ?thesis by (simp add: unsigned_ucast_eq take_bit_nat_eq_self_iff)
qed

lemma unat_char2decimal: "is_digit c \<Longrightarrow> unat (char2decimal c) = unat c - 48 \<and> unat c \<in> {48..57}"
proof -
  assume h: "is_digit c"
  then have b: "48 \<le> unat c" "unat c \<le> 57" by (simp_all add: is_digit_def word_le_nat_alt)
  then have "unat (ucast c - 0x30 :: u32) = unat c - 48"
    by (subst unat_sub) (simp_all add: word_le_nat_alt unat_ucast_u8_u32)
  with h b show ?thesis by (simp add: char2decimal_def is_digit_def)
qed

lemma char2decimal_end [simp]: "char2decimal c = 0xffffffff \<longleftrightarrow> \<not> is_digit c"
proof (cases "is_digit c")
  case True
  from unat_char2decimal [OF this] have "unat (char2decimal c) \<le> 9" by auto
  with True show ?thesis by auto
next
  case False
  then show ?thesis by (auto simp: char2decimal_def is_digit_def)
qed

text \<open>Both digit loops have one shape: convert, stop at the first character that converts to
  \<open>0xffffffff\<close>, otherwise accumulate to the loop's base.\<close>

locale digit_loop =
  fixes conv :: "u8 \<Rightarrow> u32" and base :: u32
    and loop :: "mem \<Rightarrow> addr \<Rightarrow> u32 \<Rightarrow> (u32 \<times> addr) option"
  assumes loop_step: "loop m cp r =
    (if conv (m cp) \<noteq> 0xffffffff then loop m (cp + 1) (r * base + conv (m cp)) else Some (r, cp))"
begin

lemma loop_digits:
  "stores m p ds \<Longrightarrow> \<forall>d\<in>set ds. conv d \<noteq> 0xffffffff \<Longrightarrow>
   conv (m (p + of_nat (length ds))) = 0xffffffff \<Longrightarrow>
   loop m p r = Some (foldl (\<lambda>v d. v * base + conv d) r ds, p + of_nat (length ds))"
proof (induction ds arbitrary: p r)
  case Nil
  then show ?case by (subst loop_step) simp
next
  case (Cons d ds)
  then show ?case by (subst loop_step) (simp add: add.assoc)
qed

end

interpretation decimal: digit_loop char2decimal 10 str2decimal_loop
  by unfold_locales (rule trans [OF str2decimal_loop.simps], simp add: Let_def)

interpretation hexadecimal: digit_loop char2hex 16 str2hex_loop
  by unfold_locales (rule trans [OF str2hex_loop.simps], simp add: Let_def)

text \<open>The value the decimal loop accumulates, on 32 bits.\<close>

definition dec_value :: "u8 list \<Rightarrow> u32" where
  "dec_value = foldl (\<lambda>v d. v * 10 + char2decimal d) 0"

definition hex_value :: "u8 list \<Rightarrow> u32" where
  "hex_value = foldl (\<lambda>v d. v * 16 + char2hex d) 0"

lemma str2decimal_loop_digits:
  "stores m p ds \<Longrightarrow> \<forall>d\<in>set ds. is_digit d \<Longrightarrow> \<not> is_digit (m (p + of_nat (length ds))) \<Longrightarrow>
   str2decimal_loop m p 0 = Some (dec_value ds, p + of_nat (length ds))"
  unfolding dec_value_def by (rule decimal.loop_digits) simp_all

lemma str2ip_loop_field:
  assumes "stores m p (ds @ [c])" and "\<forall>d\<in>set ds. is_digit d" and "\<not> is_digit c"
    and "k > 0 \<longrightarrow> c = 0x2e"
  shows "str2ip_loop m p (Suc k) ip = str2ip_loop m (p + of_nat (length ds) + 1) k (ip @ [dec_value ds])"
proof -
  have "str2decimal_loop m p 0 = Some (dec_value ds, p + of_nat (length ds))"
    using assms(1-3) by (intro str2decimal_loop_digits) (simp_all add: stores_append)
  then show ?thesis using assms(1,4) by (auto simp: stores_append)
qed

lemma str2ip_dotted:
  assumes "stores m p (d1 @ [0x2e] @ d2 @ [0x2e] @ d3 @ [0x2e] @ d4 @ [e])"
    and "\<forall>d\<in>set d1 \<union> set d2 \<union> set d3 \<union> set d4. is_digit d" and "\<not> is_digit e"
  shows "str2ip m p = Some (IPIV (dec_value d1) (dec_value d2) (dec_value d3) (dec_value d4))"
proof -
  have dot: "\<not> is_digit 0x2e" by (simp add: is_digit_def)
  let ?p2 = "p + of_nat (length d1) + 1"
  let ?p3 = "?p2 + of_nat (length d2) + 1"
  let ?p4 = "?p3 + of_nat (length d3) + 1"
  have s: "stores m p (d1 @ [0x2e])" "stores m ?p2 (d2 @ [0x2e])"
      "stores m ?p3 (d3 @ [0x2e])" "stores m ?p4 (d4 @ [e])"
    using assms(1) by (simp_all add: stores_append add.assoc add.commute add.left_commute)
  have "str2ip_loop m p (Suc 3) [] = str2ip_loop m ?p2 (Suc 2) [dec_value d1]"
    using assms(2) dot by (subst str2ip_loop_field [OF s(1)]) (simp_all add: numeral_3_eq_3)
  also have "\<dots> = str2ip_loop m ?p3 (Suc 1) [dec_value d1, dec_value d2]"
    using assms(2) dot by (subst str2ip_loop_field [OF s(2)]) (simp_all add: numeral_2_eq_2)
  also have "\<dots> = str2ip_loop m ?p4 (Suc 0) [dec_value d1, dec_value d2, dec_value d3]"
    using assms(2) dot by (subst str2ip_loop_field [OF s(3)]) simp_all
  also have "\<dots> = Some (Some [dec_value d1, dec_value d2, dec_value d3, dec_value d4])"
    using assms(2,3) by (subst str2ip_loop_field [OF s(4)]) simp_all
  finally show ?thesis by (simp add: str2ip_def eval_nat_numeral)
qed

lemma IPIV_parts: "IPIV (IP1 a) (IP2 a) (IP3 a) (IP4 a) = a"
proof -
  have "IPIV (IP1 a) (IP2 a) (IP3 a) (IP4 a) =
      ((push_bit 24 (IP1 a) OR push_bit 16 (IP2 a)) OR push_bit 8 (IP3 a)) OR IP4 a"
    unfolding IPIV_def
    by (subst disjunctive_add; (subst disjunctive_add)?; (subst disjunctive_add)?)
       (auto simp: IP1_def IP2_def IP3_def IP4_def and_ff bit_simps)
  also have "\<dots> = a"
  proof (rule bit_word_eqI)
    fix n :: nat assume "n < LENGTH(32)"
    then consider "n < 8" | "8 \<le> n \<and> n < 16" | "16 \<le> n \<and> n < 24" | "24 \<le> n \<and> n < 32"
      by fastforce
    then show "bit (((push_bit 24 (IP1 a) OR push_bit 16 (IP2 a)) OR push_bit 8 (IP3 a)) OR IP4 a) n =
        bit a n"
      by cases (auto simp: IP1_def IP2_def IP3_def IP4_def and_ff bit_simps)
  qed
  finally show ?thesis .
qed

text \<open>The reference for \<open>strstr\<close>: the first position of \<open>b\<close> in \<open>a\<close>.\<close>

fun first_occ :: "'a list \<Rightarrow> 'a list \<Rightarrow> nat option" where
  "first_occ b [] = (if b = [] then Some 0 else None)"
| "first_occ b (x # a) =
     (if take (length b) (x # a) = b then Some 0 else map_option Suc (first_occ b a))"

lemma first_occ_Some:
  "first_occ b a = Some i \<Longrightarrow>
   take (length b) (drop i a) = b \<and> (\<forall>j<i. take (length b) (drop j a) \<noteq> b)"
proof (induction a arbitrary: i)
  case (Cons x a)
  show ?case
  proof (cases "take (length b) (x # a) = b")
    case False
    then obtain k where "first_occ b a = Some k" "i = Suc k" using Cons.prems by (auto split: if_splits)
    moreover have "take (length b) (drop j (x # a)) \<noteq> b" if "j < Suc k" for j
      using that False Cons.IH [OF \<open>first_occ b a = Some k\<close>] by (cases j) auto
    ultimately show ?thesis using Cons.IH by auto
  qed (use Cons.prems in simp)
qed (simp split: if_splits)

lemma first_occ_None: "first_occ b a = None \<Longrightarrow> take (length b) (drop i a) \<noteq> b"
proof (induction a arbitrary: i)
  case (Cons x a)
  then show ?case by (cases i) (auto split: if_splits)
qed (auto split: if_splits)

lemma first_occ_short: "length a < length b \<Longrightarrow> first_occ b a = None"
  by (induction a) auto

lemma memcmp_loop_strings:
  assumes "cstr m p a" and "cstr m q b" and "length b \<le> length a"
  shows "memcmp_loop m p q (length b) = 0 \<longleftrightarrow> take (length b) a = b"
proof -
  have "mem_bytes m p (length b) = take (length b) a"
    using assms(1,3) by (intro nth_equalityI) (simp_all add: nth_mem_bytes cstr_nth)
  with assms(2) show ?thesis by (simp add: memcmp_loop_eq_0 cstr_mem_bytes)
qed

lemma strstr_loop_cstr:
  "cstr m p a \<Longrightarrow> cstr m q b \<Longrightarrow> b \<noteq> [] \<Longrightarrow> length a < 2 ^ 31 \<Longrightarrow> length b < 2 ^ 31 \<Longrightarrow>
   strstr_loop m p q (of_nat (length a)) (of_nat (length b)) =
     Some (case first_occ b a of None \<Rightarrow> 0 | Some i \<Rightarrow> p + of_nat i)"
proof (induction a arbitrary: p)
  case Nil
  then show ?case
    by (subst strstr_loop.simps) (simp add: sint_of_nat_small sint_of_nat_small [of 0, simplified])
next
  case (Cons c a)
  have ub: "unat (of_nat (length b) :: u32) = length b" using Cons.prems(5) by (simp add: unat_of_nat)
  show ?case
  proof (cases "length b \<le> length (c # a)")
    case False
    then show ?thesis using Cons.prems(4,5)
      by (subst strstr_loop.simps)
        (simp add: sint_of_nat_small first_occ_short del: of_nat_Suc first_occ.simps)
  next
    case True
    have cmp: "sys_memcmp m p q (of_nat (length b)) = 0 \<longleftrightarrow> take (length b) (c # a) = b"
      using memcmp_loop_strings [OF Cons.prems(1,2) True] by (simp add: sys_memcmp_def ub)
    have "strstr_loop m (p + 1) q (of_nat (length a)) (of_nat (length b)) =
        Some (case first_occ b a of None \<Rightarrow> 0 | Some i \<Rightarrow> p + 1 + of_nat i)"
      using Cons.prems by (intro Cons.IH) simp_all
    moreover have "(of_nat (length (c # a)) - 1 :: u32) = of_nat (length a)" by simp
    moreover have "sint (of_nat (length (c # a)) :: u32) \<ge> sint (of_nat (length b) :: u32)"
      using True Cons.prems(4,5) by (simp add: sint_of_nat_small del: of_nat_Suc)
    ultimately show ?thesis
      using cmp by (subst strstr_loop.simps, auto simp del: of_nat_Suc split: option.split) simp
  qed
qed

section \<open>Properties\<close>

text \<open>\<open>sys_memcpy\<close> outside the NAND window copies forward, byte by byte, and touches nothing
  but the destination.  Byte \<open>i\<close> of the result is byte \<open>i\<close> of the source, unless the destination
  starts \<open>k\<close> bytes into the source block: then the first \<open>k\<close> source bytes repeat.\<close>

lemma sys_memcpy_spec:
  assumes "flash_ctrl AND 0x1000 = 0 \<or> srce < BOARD_FLASH_BASE_ADDR \<or> 0x40000000 \<le> srce \<or> \<not> nand_present"
  shows "sys_memcpy rd flash_ctrl nand_present m dest srce sz x =
    (if unat (x - dest) < unat sz
     then m (srce + of_nat (unat (x - dest) mod unat (dest - srce))) else m x)"
proof -
  have "(flash_ctrl AND 0x1f00) AND 0x1000 = flash_ctrl AND 0x1000"
    by (simp add: and.assoc)
  then have "sys_memcpy rd flash_ctrl nand_present m dest srce sz = memcpy_loop m dest srce (unat sz)"
    using assms by (auto simp: sys_memcpy_def Let_def)
  moreover have "unat sz \<le> 2 ^ 32" using unsigned_less [of sz, where 'a = nat] by simp
  ultimately show ?thesis by (simp only: memcpy_loop_apply)
qed

lemma sys_memcpy_spec_example:
  "sys_memcpy (\<lambda>m _ _ _. (m, True)) 0 True (\<lambda>a. ucast a) 0x102 0x100 6 0x105 = 0x01"
  by (subst sys_memcpy_spec) simp_all

text \<open>\<open>sys_strlen\<close> returns exactly when a NUL-terminated string lies at the address, and then
  its length; \<open>sys_strcmp\<close> and \<open>sys_strncasecmp\<close> return 0 on two strings exactly when they are
  equal, respectively equal up to letter case, and 1 otherwise.\<close>

lemma string_compare_spec:
  "(sys_strlen m p = Some n \<longleftrightarrow> (\<exists>s. cstr m p s \<and> n = of_nat (length s))) \<and>
   (cstr m p s \<and> cstr m q t \<longrightarrow>
      sys_strcmp m p q = Some (if s = t then 0 else 1) \<and>
      sys_strncasecmp m p q = Some (if map sys_toupper s = map sys_toupper t then 0 else 1))"
  by (auto simp: sys_strlen_iff sys_strcmp_cstr sys_strncasecmp_cstr)

lemma string_compare_spec_example:
  "let m = (\<lambda>_. 0)(0x10 := 0x61, 0x11 := 0x62, 0x20 := 0x41, 0x21 := 0x62) in
   sys_strlen m 0x10 = Some 2 \<and> sys_strcmp m 0x10 0x20 = Some 1 \<and> sys_strncasecmp m 0x10 0x20 = Some 0"
proof -
  let ?m = "(\<lambda>_. 0)(0x10 := 0x61, 0x11 := 0x62, 0x20 := 0x41, 0x21 := 0x62) :: mem"
  have c: "cstr ?m 0x10 [0x61, 0x62]" "cstr ?m 0x20 [0x41, 0x62]" by simp_all
  from c(1) have "\<exists>s. cstr ?m 0x10 s \<and> 2 = of_nat (length s)"
    by (intro exI [of _ "[0x61, 0x62]"]) simp
  then show ?thesis
    using c string_compare_spec [where m = ?m and p = "0x10" and n = "2" and s = "[0x61, 0x62]"
        and q = "0x20" and t = "[0x41, 0x62]"]
    by (simp add: sys_toupper_def Let_def)
qed

text \<open>\<open>sys_strcpy\<close> copies a string with its terminator when the destination is not inside the
  source string: afterwards the string lies at the destination and every other byte is as before.\<close>

lemma sys_strcpy_spec:
  assumes "cstr m srce s" and "length s < 2 ^ 32" and "dest = srce \<or> length s < unat (dest - srce)"
  shows "\<exists>m'. sys_strcpy m dest srce = Some m' \<and> cstr m' dest s \<and>
              (\<forall>x. length s < unat (x - dest) \<longrightarrow> m' x = m x)"
proof (intro exI conjI allI impI)
  let ?m = "memcpy_loop m dest srce (Suc (length s))"
  show "sys_strcpy m dest srce = Some ?m" by (rule sys_strcpy_cstr) fact+
  have app: "?m (dest + of_nat i) = m (srce + of_nat i)" if "i \<le> length s" for i
  proof -
    have "i mod unat (dest - srce) = i" using that assms(3) by (cases "dest = srce") simp_all
    then show ?thesis
      using that assms(2) conjunct1 [OF memcpy_loop_block [of "Suc (length s)" m dest srce]]
      by (metis less_Suc_eq_le Suc_leI)
  qed
  show "cstr ?m dest s"
    using assms(1) app by (rule cstr_move)
  fix x assume "length s < unat (x - dest)"
  then show "?m x = m x" using assms(2) by (subst memcpy_loop_apply) simp_all
qed

lemma sys_strcpy_spec_example:
  "\<exists>m'. sys_strcpy ((\<lambda>_. 7)(0x10 := 0x61, 0x11 := 0)) 0x20 0x10 = Some m' \<and> cstr m' 0x20 [0x61] \<and>
        (\<forall>x. length [0x61::u8] < unat (x - 0x20) \<longrightarrow> m' x = ((\<lambda>_. 7)(0x10 := 0x61, 0x11 := 0)) x)"
  by (rule sys_strcpy_spec) simp_all

text \<open>C33. \<open>sys_strstr\<close> returns the address of the first occurrence of the second string in the
  first, the null pointer when there is none, and the first string for an empty pattern.\<close>

theorem sys_strstr_spec:
  assumes "cstr m s1 a" and "cstr m s2 b" and "length a < 2 ^ 31" and "length b < 2 ^ 31"
  shows "sys_strstr m s1 s2 =
    Some (if b = [] then s1 else case first_occ b a of None \<Rightarrow> 0 | Some i \<Rightarrow> s1 + of_nat i)"
proof (cases "b = []")
  case True
  then show ?thesis using assms(2) sys_strlen_cstr [OF assms(2)] by (simp add: sys_strstr_def)
next
  case False
  then have "(of_nat (length b) :: u32) \<noteq> 0"
    using word_of_nat_eq_iff_less [of "length b" 0, where 'a = 32] assms(4) by simp
  then show ?thesis
    using False strstr_loop_cstr [OF assms(1,2) False assms(3,4)]
    by (simp add: sys_strstr_def sys_strlen_cstr [OF assms(1)] sys_strlen_cstr [OF assms(2)])
qed

theorem sys_strstr_spec_witness:
  "sys_strstr ((\<lambda>_. 0)(0x10 := 1, 0x11 := 2, 0x12 := 3, 0x20 := 2, 0x21 := 3)) 0x10 0x20 = Some 0x11"
  by (subst sys_strstr_spec [where a = "[1, 2, 3]" and b = "[2, 3]"]) simp_all

text \<open>\<open>sys_strncmp\<close> is not the C library's \<open>strncmp\<close>: it does not stop at the terminator, so two
  equal strings compare different when the bytes after their terminators differ.\<close>

lemma sys_strncmp_spec:
  "sys_strncmp m p q n = 0 \<longleftrightarrow> mem_bytes m p (unat n) = mem_bytes m q (unat n)"
  by (simp add: sys_strncmp_def strncmp_loop_eq_0)

lemma unat_4_Suc: "unat (4 :: u32) = Suc (Suc (Suc (Suc 0)))"
  by simp

lemma sys_strncmp_past_end:
  "\<exists>m p q s. cstr m p s \<and> cstr m q s \<and> sys_strncmp m p q 4 = 1"
proof (intro exI conjI)
  let ?m = "(\<lambda>_. 0)(0x10 := 0x61, 0x20 := 0x61, 0x12 := 1) :: mem"
  show "cstr ?m 0x10 [0x61]" "cstr ?m 0x20 [0x61]" by simp_all
  show "sys_strncmp ?m 0x10 0x20 4 = 1"
    unfolding sys_strncmp_def unat_4_Suc by simp
qed

end
