(* ===== verification/SysPrintf.thy ===== *)
theory SysPrintf
  imports SysString
begin

text \<open>
  Formatted output, \<open>src/src/sys/sys_printf.c\<close>: the number writer \<open>sys_write_long_num\<close>, the digit
  conversion \<open>_cvt\<close>, the formatter \<open>sys_vprintf\<close> and \<open>sys_sprintf\<close>.  The model returns the
  sequence of calls to \<open>printf_putc\<close> and \<open>uart_puts\<close>; \<open>sprint_put\<close> is what \<open>printf_putc\<close> does
  with a byte in buffer mode.  \<open>None\<close> marks the executions C leaves undefined: reading the format
  behind its terminator, taking an argument that was not passed, writing behind a local buffer.

  A format string is the list of its bytes with the terminating 0.  The target has 32-bit
  \<open>int\<close> and \<open>long\<close> and 64-bit \<open>long long\<close>.
\<close>

section \<open>Model\<close>

datatype put = Putc u8 | UartPuts "u8 list"

text \<open>A variadic argument as the caller passed it; a string argument with its address.\<close>

datatype arg = ArgInt u32 | ArgLongLong u64 | ArgStr addr "u8 list"

definition digits_upper :: "u8 list" where
  "digits_upper = [0x30, 0x31, 0x32, 0x33, 0x34, 0x35, 0x36, 0x37, 0x38, 0x39, 0x41, 0x42, 0x43, 0x44, 0x45, 0x46]"

definition digits_lower :: "u8 list" where
  "digits_lower = [0x30, 0x31, 0x32, 0x33, 0x34, 0x35, 0x36, 0x37, 0x38, 0x39, 0x61, 0x62, 0x63, 0x64, 0x65, 0x66]"

text \<open>The digits of a number to a base, least significant first; \<open>while (n != 0)\<close>.\<close>

fun rev_digits :: "nat \<Rightarrow> nat \<Rightarrow> nat list" where
  "rev_digits base n = (if n = 0 \<or> base < 2 then [] else (n mod base) # rev_digits base (n div base))"

declare rev_digits.simps [simp del]

text \<open>\<open>printf_putc\<close> in buffer mode: a backspace takes the last byte back.\<close>

definition sprint_put :: "u8 list \<Rightarrow> u8 \<Rightarrow> u8 list option" where
  "sprint_put b data =
     (if data = 0x08 then (if b = [] then None else Some (butlast b)) else Some (b @ [data]))"

text \<open>\<open>sys_write_long_num\<close> on the 32-byte local buffer.  The buffer index \<open>bpos\<close> is a position;
  a width of 32 or more would leave the buffer.\<close>

definition sys_write_long_num ::
  "u64 \<Rightarrow> u8 \<Rightarrow> u8 \<Rightarrow> bool \<Rightarrow> u8 \<Rightarrow> u8 list option" where
  "sys_write_long_num n base sign pfzero width =
     (if unat base < 2 \<and> n \<noteq> 0 then None
      else if \<exists>d\<in>set (rev_digits (unat base) (unat n)). d > 16 then None else
      let bufinit = (if pfzero then 0x30 else 0x20);
          buf0 = replicate 32 bufinit;
          ds = (if n = 0 then [0x30]
                else map (\<lambda>d. (digits_upper @ [0]) ! d) (rev_digits (unat base) (unat n)));
          buf1 = ds @ drop (length ds) buf0;
          bpos = max (length ds) (unat width)
      in if length ds > 32 \<or> bpos > 32 \<or> (bpos = 32 \<and> sign = 0x2d \<and> buf1 ! (bpos - 1) \<noteq> bufinit) then None
         else if sign = 0x2d then
           (let bpos' = (if buf1 ! (bpos - 1) = bufinit then bpos - 1 else bpos)
            in Some (rev (take (bpos' + 1) (buf1[bpos' := sign]))))
         else Some (rev (take bpos buf1)))"

definition sys_write_num :: "u32 \<Rightarrow> u8 \<Rightarrow> u8 \<Rightarrow> bool \<Rightarrow> u8 \<Rightarrow> u8 list option" where
  "sys_write_num n base sign pfzero width = sys_write_long_num (ucast n) base sign pfzero width"

definition sys_write_hex :: "u32 \<Rightarrow> u8 list option" where
  "sys_write_hex n = sys_write_num n 16 0x2b False 0"

definition sys_write_dec :: "u32 \<Rightarrow> u8 list option" where
  "sys_write_dec n =
     (if n <s 0 then sys_write_num (- n) 10 0x2d False 0 else sys_write_num n 10 0x2b False 0)"

text \<open>\<open>sys_check_string\<close>: a null pointer or a string of more than 257 bytes is refused.\<close>

definition sys_check_string :: "addr \<Rightarrow> u8 list \<Rightarrow> bool" where
  "sys_check_string str s \<longleftrightarrow> str \<noteq> 0 \<and> \<not> (\<exists>i\<in>set [0..<length s]. i > 256)"

text \<open>\<open>_cvt\<close>: the text it leaves in the buffer before the NUL.\<close>

definition cvt :: "u64 \<Rightarrow> nat \<Rightarrow> u8 list \<Rightarrow> u8 list" where
  "cvt val radix digits =
     (if val = 0 then [0x30]
      else map (\<lambda>d. digits ! (d mod 16)) (rev (rev_digits radix (unat val))))"

text \<open>The directive after a percent sign: flags, width, precision, size, conversion.\<close>

record directive =
  conv_char :: u8
  left_prec :: int
  zero_fill :: bool
  pad_on_right :: bool
  islonglong :: bool

fun scan_digits :: "int \<Rightarrow> u8 \<Rightarrow> u8 list \<Rightarrow> (int \<times> u8 \<times> u8 list) option" where
  "scan_digits n c [] = (if is_digit c then None else Some (n, c, []))"
| "scan_digits n c (c' # fmt) =
     (if is_digit c then scan_digits (n * 10 + (uint c - 0x30)) c' fmt else Some (n, c, c' # fmt))"

definition next_char :: "u8 list \<Rightarrow> (u8 \<times> u8 list) option" where
  "next_char fmt = (case fmt of [] \<Rightarrow> None | c # f \<Rightarrow> Some (c, f))"

definition scan_directive :: "u8 list \<Rightarrow> (directive \<times> u8 list) option" where
  "scan_directive fmt =
     Option.bind (next_char fmt) (\<lambda>(c, fmt).
     Option.bind (if c = 0x2d then next_char fmt else Some (c, fmt)) (\<lambda>(c1, fmt).
     Option.bind (if c1 = 0x30 then next_char fmt else Some (c1, fmt)) (\<lambda>(c2, fmt).
     Option.bind (scan_digits 0 c2 fmt) (\<lambda>(lp, c3, fmt).
     Option.bind (if c3 = 0x2e then Option.bind (next_char fmt) (\<lambda>(c, fmt).
               Option.bind (scan_digits 0 c fmt) (\<lambda>(rp, c, fmt). Some (c, fmt)))
             else Some (c3, fmt)) (\<lambda>(c4, fmt).
     Option.bind (if c4 = 0x6c then next_char fmt else Some (c4, fmt)) (\<lambda>(c5, fmt).
     Option.bind (if c4 = 0x6c \<and> c5 = 0x6c then next_char fmt else Some (c5, fmt)) (\<lambda>(c6, fmt).
       Some (\<lparr>conv_char = c6, left_prec = lp, zero_fill = (c1 = 0x30 \<or> c3 = 0x2e),
              pad_on_right = (c = 0x2d), islonglong = (c4 = 0x6c \<and> c5 = 0x6c)\<rparr>, fmt))))))))"

text \<open>The numeric directives take their argument before the output; \<open>d\<close> splits off the sign, all
  others keep the low 32 bits, for \<open>long long\<close> arguments as well.\<close>

definition is_numeric :: "u8 \<Rightarrow> bool" where
  "is_numeric c \<longleftrightarrow> c \<in> set [0x70, 0x64, 0x44, 0x78, 0x58, 0x75, 0x55, 0x62, 0x42]"

definition is_decimal :: "u8 \<Rightarrow> bool" where
  "is_decimal c \<longleftrightarrow> c = 0x64 \<or> c = 0x44"

fun va_arg_num :: "bool \<Rightarrow> arg list \<Rightarrow> (u64 \<times> arg list) option" where
  "va_arg_num True (ArgLongLong v # args) = Some (v, args)"
| "va_arg_num False (ArgInt v # args) = Some (scast v, args)"
| "va_arg_num False (ArgStr a s # args) = Some (scast a, args)"
| "va_arg_num _ _ = None"

definition fetch_value :: "directive \<Rightarrow> arg list \<Rightarrow> (u64 \<times> u8 \<times> arg list) option" where
  "fetch_value dir args =
     (if is_numeric (conv_char dir) then
        Option.bind (va_arg_num (islonglong dir) args) (\<lambda>(val, args).
          if is_decimal (conv_char dir) then
            Some (if val <s 0 then (- val, 0x2d, args) else (val, 0, args))
          else Some (val AND 0xffffffff, 0, args))
      else Some (0, 0, args))"

text \<open>What the conversion leaves for the common output part: the bytes put out already and how
  many of them are counted, \<open>length\<close>, the text \<open>cp\<close> points to, the local buffer, the possibly
  changed width and fill, the remaining arguments.  \<open>Inl\<close> is the \<open>continue\<close> of \<open>%c\<close>.\<close>

record converted =
  pre :: "put list"
  pre_count :: int
  text_len :: int
  text_of :: "u8 list"
  cbuf :: "u8 list"
  width :: int
  zfill :: bool
  rest_args :: "arg list"

definition null_text :: "u8 list" where
  "null_text = [0x3c, 0x6e, 0x75, 0x6c, 0x6c, 0x3e]"

definition not_a_string :: "u8 list" where
  "not_a_string = map (\<lambda>c. of_char c) ''<Not a string: 0x''"

definition convert ::
  "directive \<Rightarrow> u64 \<Rightarrow> arg list \<Rightarrow> int \<Rightarrow> u8 list \<Rightarrow> ((put list \<times> arg list) + converted) option" where
  "convert dir val args len buf =
     (let c = conv_char dir; lp = left_prec dir; zf = zero_fill dir in
      if c \<in> set [0x70, 0x64, 0x44, 0x75, 0x55, 0x78, 0x58] then
        (let t = (if c \<in> set [0x64, 0x44, 0x75, 0x55] then cvt val 10 digits_lower
                  else if c = 0x58 then cvt val 16 digits_upper else cvt val 16 digits_lower)
         in Some (Inr \<lparr>pre = (if c = 0x70 then [Putc 0x30, Putc 0x78] else []), pre_count = 0,
                       text_len = int (length t), text_of = t,
                       cbuf = t @ [0] @ drop (length t + 1) buf,
                       width = (if c = 0x70 then 8 else lp), zfill = (zf \<or> c = 0x70),
                       rest_args = args\<rparr>))
      else if c = 0x73 \<or> c = 0x53 then
        (case args of
           ArgStr a s # args \<Rightarrow>
             (if a = 0 then
                Some (Inr \<lparr>pre = [], pre_count = 0, text_len = 6, text_of = null_text, cbuf = buf,
                           width = lp, zfill = zf, rest_args = args\<rparr>)
              else if \<not> sys_check_string a s then
                Option.bind (sys_write_hex a) (\<lambda>h.
                  Some (Inr \<lparr>pre = UartPuts not_a_string # map Putc h, pre_count = 0, text_len = 1,
                             text_of = [0x3e], cbuf = buf, width = lp, zfill = zf, rest_args = args\<rparr>))
              else Some (Inr \<lparr>pre = [], pre_count = 0, text_len = int (length s), text_of = s,
                              cbuf = buf, width = lp, zfill = zf, rest_args = args\<rparr>))
         | _ \<Rightarrow> None)
      else if c = 0x63 \<or> c = 0x43 then
        (case args of ArgInt w # args \<Rightarrow> Some (Inl ([Putc (ucast w)], args)) | _ \<Rightarrow> None)
      else if c = 0x62 \<or> c = 0x42 then
        (let l = (if lp = 0 then (if islonglong dir then 64 else 32) else lp) in
         if l > 64 then None
         else (let bits = map (\<lambda>i. if bit val i then 0x31 else 0x2e) [0..<nat (l - 1)];
                   buf' = bits @ drop (length bits) buf
               in Some (Inr \<lparr>pre = [], pre_count = 0, text_len = l, text_of = take (nat l) buf',
                             cbuf = buf', width = lp, zfill = zf, rest_args = args\<rparr>)))
      else if c = 0x25 then
        Some (Inr \<lparr>pre = [Putc 0x25], pre_count = 0, text_len = len, text_of = [], cbuf = buf,
                   width = lp, zfill = zf, rest_args = args\<rparr>)
      else Some (Inr \<lparr>pre = [Putc 0x25, Putc c], pre_count = 2, text_len = len, text_of = [],
                      cbuf = buf, width = lp, zfill = zf, rest_args = args\<rparr>))"

definition crlf :: "u8 \<Rightarrow> u8 list" where
  "crlf c = (if c = 0x0a then [0x0d, c] else [c])"

text \<open>The common output part: padding, sign, text.\<close>

definition emit :: "directive \<Rightarrow> u8 \<Rightarrow> converted \<Rightarrow> u8 list" where
  "emit dir sign r =
     (let pad = nat (width r - text_len r - (if sign \<noteq> 0 then 1 else 0));
          fill = (if zfill r then 0x30 else 0x20)
      in (if zfill r \<and> sign \<noteq> 0 then [sign] else [])
         @ (if pad_on_right dir then [] else replicate pad fill)
         @ (if \<not> zfill r \<and> sign \<noteq> 0 then [sign] else [])
         @ concat (map crlf (text_of r))
         @ (if pad_on_right dir then replicate pad 0x20 else []))"

lemma scan_digits_length:
  "scan_digits n c fmt = Some (k, c', fmt') \<Longrightarrow> length fmt' \<le> length fmt"
  by (induction n c fmt rule: scan_digits.induct) (auto split: if_splits)

lemma next_char_length: "next_char fmt = Some (c, fmt') \<Longrightarrow> length fmt = Suc (length fmt')"
  by (cases fmt) (auto simp: next_char_def)

lemma bind_pairE:
  assumes "Option.bind x (\<lambda>(a, b). g a b) = Some r"
  obtains a b where "x = Some (a, b)" and "g a b = Some r"
  using assms by (cases x) auto

lemma bind_tripleE:
  assumes "Option.bind x (\<lambda>(a, b, c). g a b c) = Some r"
  obtains a b c where "x = Some (a, b, c)" and "g a b c = Some r"
  using assms by (cases x) auto

lemma opt_next_length:
  "(if b then next_char fmt else Some (c, fmt)) = Some (c', fmt') \<Longrightarrow> length fmt' \<le> length fmt"
  by (auto dest: next_char_length split: if_splits)

lemma precision_length:
  "(if b then Option.bind (next_char fmt) (\<lambda>(c, fmt).
       Option.bind (scan_digits 0 c fmt) (\<lambda>(rp, c, fmt). Some (c, fmt))) else Some (c, fmt))
     = Some (c', fmt') \<Longrightarrow> length fmt' \<le> length fmt"
  by (fastforce simp: bind_eq_Some_conv dest: next_char_length scan_digits_length split: if_splits)

lemma scan_directive_length:
  assumes "scan_directive fmt = Some (dir, fmt')"
  shows "length fmt' < length fmt"
proof -
  obtain c f0 c1 f1 c2 f2 lp c3 f3 c4 f4 c5 f5 c6 where
    n: "next_char fmt = Some (c, f0)"
    and a: "(if c = 0x2d then next_char f0 else Some (c, f0)) = Some (c1, f1)"
    and b: "(if c1 = 0x30 then next_char f1 else Some (c1, f1)) = Some (c2, f2)"
    and d: "scan_digits 0 c2 f2 = Some (lp, c3, f3)"
    and e: "(if c3 = 0x2e then Option.bind (next_char f3) (\<lambda>(c, fmt).
               Option.bind (scan_digits 0 c fmt) (\<lambda>(rp, c, fmt). Some (c, fmt)))
             else Some (c3, f3)) = Some (c4, f4)"
    and f: "(if c4 = 0x6c then next_char f4 else Some (c4, f4)) = Some (c5, f5)"
    and g: "(if c4 = 0x6c \<and> c5 = 0x6c then next_char f5 else Some (c5, f5)) = Some (c6, fmt')"
    using assms unfolding scan_directive_def by (elim bind_pairE bind_tripleE) simp
  from next_char_length [OF n] opt_next_length [OF a] opt_next_length [OF b] scan_digits_length [OF d]
    precision_length [OF e] opt_next_length [OF f] opt_next_length [OF g]
  show ?thesis by simp
qed

text \<open>The main loop over the format; \<open>len\<close> and \<open>buf\<close> are the locals that live across directives.\<close>

function vprintf_loop ::
  "u8 list \<Rightarrow> arg list \<Rightarrow> int \<Rightarrow> u8 list \<Rightarrow> (put list \<times> int) option" where
  "vprintf_loop [] args len buf = None"
| "vprintf_loop (c # fmt) args len buf =
     (if c = 0 then Some ([], 0)
      else if c = 0x25 then
        (case scan_directive fmt of None \<Rightarrow> None
         | Some (dir, fmt') \<Rightarrow>
             (case fetch_value dir args of None \<Rightarrow> None
              | Some (val, sign, args') \<Rightarrow>
                  (case convert dir val args' len buf of None \<Rightarrow> None
                   | Some (Inl (out, args'')) \<Rightarrow>
                       map_option (\<lambda>(ps, res). (out @ ps, res + 1)) (vprintf_loop fmt' args'' len buf)
                   | Some (Inr r) \<Rightarrow>
                       map_option
                         (\<lambda>(ps, res). (pre r @ map Putc (emit dir sign r) @ ps,
                                       res + pre_count r + int (length (emit dir sign r))))
                         (vprintf_loop fmt' (rest_args r)
                            (if text_len r > 0 then -1 else text_len r - 1) (cbuf r)))))
      else map_option (\<lambda>(ps, res). (map Putc (crlf c) @ ps, res + int (length (crlf c))))
             (vprintf_loop fmt args len buf))"
  by pat_completeness auto
termination
  by (relation "measure (\<lambda>(fmt, _, _, _). length fmt)") (auto dest: scan_directive_length)

declare vprintf_loop.simps [simp del]

text \<open>\<open>sys_vprintf\<close> starts with \<open>length = 0\<close> and an uninitialised 64-byte buffer.\<close>

definition sys_vprintf :: "u8 list \<Rightarrow> addr \<Rightarrow> u8 list \<Rightarrow> arg list \<Rightarrow> (put list \<times> int) option" where
  "sys_vprintf buf0 fmt_addr fmt args =
     (if sys_check_string fmt_addr fmt
      then vprintf_loop (fmt @ [0]) args 0 buf0
      else Some ([UartPuts (map of_char ''<Bad format string>'' @ [0x0a])], 0))"

fun sprint_run :: "put list \<Rightarrow> u8 list \<Rightarrow> u8 list option" where
  "sprint_run [] b = Some b"
| "sprint_run (Putc c # ps) b = (case sprint_put b c of None \<Rightarrow> None | Some b' \<Rightarrow> sprint_run ps b')"
| "sprint_run (UartPuts _ # ps) b = sprint_run ps b"

text \<open>\<open>sys_sprintf\<close>: the bytes it leaves in the buffer (a 0 follows them) and its result, the
  \<open>strlen\<close> of the buffer.  \<open>printf_putc\<close> is what writes the terminator: when it is never called,
  the old contents \<open>old\<close> of the buffer stay, and their length is the result.\<close>

definition sys_sprintf :: "u8 list \<Rightarrow> u8 list \<Rightarrow> addr \<Rightarrow> u8 list \<Rightarrow> arg list \<Rightarrow> (u8 list \<times> int) option" where
  "sys_sprintf old buf0 fmt_addr fmt args =
     (case sys_vprintf buf0 fmt_addr fmt args of None \<Rightarrow> None
      | Some (ps, _) \<Rightarrow>
          if \<exists>c. Putc c \<in> set ps
          then map_option (\<lambda>b. (b, int (length (takeWhile (\<lambda>c. c \<noteq> 0) b)))) (sprint_run ps [])
          else Some (old, int (length old)))"

section \<open>Digits\<close>

lemma rev_digits_0 [simp]: "rev_digits b 0 = []"
  by (simp add: rev_digits.simps)

lemma rev_digits_step: "0 < n \<Longrightarrow> 2 \<le> b \<Longrightarrow> rev_digits b n = (n mod b) # rev_digits b (n div b)"
  by (subst rev_digits.simps) simp

lemma rev_digits_value: "2 \<le> b \<Longrightarrow> foldr (\<lambda>d v. v * b + d) (rev_digits b n) 0 = n"
proof (induction b n rule: rev_digits.induct)
  case (1 b n)
  show ?case
  proof (cases "n = 0")
    case False
    then show ?thesis using 1 by (simp add: rev_digits_step)
  qed simp
qed

lemma rev_digits_less: "d \<in> set (rev_digits b n) \<Longrightarrow> d < b"
proof (induction b n rule: rev_digits.induct)
  case (1 b n)
  then show ?case by (auto simp: rev_digits.simps [of b n] split: if_splits)
qed

lemma foldl_digits_word:
  assumes "\<forall>d\<in>set ds. conv (f d) = of_nat d"
  shows "foldl (\<lambda>v x. v * of_nat b + conv x) (of_nat v :: 'a :: len word) (map f ds) =
         of_nat (foldl (\<lambda>v d. v * b + d) v ds)"
  using assms
proof (induction ds arbitrary: v)
  case (Cons d ds)
  have "of_nat v * of_nat b + of_nat d = (of_nat (v * b + d) :: 'a word)" by simp
  with Cons show ?case by (simp del: of_nat_add of_nat_mult)
qed simp

lemma decimal_digit:
  assumes "d < 10"
  shows "char2decimal (digits_lower ! d) = of_nat d" and "is_digit (digits_lower ! d)"
proof -
  have "d \<in> set [0, 1, 2, 3, 4, 5, 6, 7, 8, 9]" using assms by simp arith
  then show "char2decimal (digits_lower ! d) = of_nat d" "is_digit (digits_lower ! d)"
    by (auto simp: char2decimal_def is_digit_def digits_lower_def)
qed

lemma upt_0_16: "[0..<16] = [0, 1, 2, 3, 4, 5, 6, 7, 8, 9, 10, 11, 12, 13, 14, 15]"
  by (simp add: upt_rec)

lemma hex_tables:
  "map char2hex digits_lower = map of_nat [0..<16]"
  "map char2hex digits_upper = map of_nat [0..<16]"
  by (simp_all add: upt_0_16 digits_lower_def digits_upper_def char2hex_def)

lemma hex_digit:
  assumes "d < 16" and "ds = digits_lower \<or> ds = digits_upper"
  shows "char2hex (ds ! d) = of_nat d"
proof -
  have "length ds = 16" using assms(2) by (auto simp: digits_lower_def digits_upper_def)
  moreover have "map char2hex ds ! d = map of_nat [0..<16] ! d"
    using assms(2) hex_tables by metis
  ultimately show ?thesis using assms(1) by simp
qed

lemma char2hex_end: "d < 16 \<Longrightarrow> (of_nat d :: u32) \<noteq> 0xffffffff"
proof
  assume d: "d < 16" and "(of_nat d :: u32) = 0xffffffff"
  then have "unat (of_nat d :: u32) = unat (0xffffffff :: u32)" by (rule_tac arg_cong)
  with d show False by (simp add: unat_of_nat)
qed

definition dec_text :: "nat \<Rightarrow> u8 list" where
  "dec_text n = (if n = 0 then [0x30] else map (\<lambda>d. digits_lower ! d) (rev (rev_digits 10 n)))"

lemma dec_text_digits: "\<forall>c\<in>set (dec_text n). is_digit c"
  using decimal_digit(2) rev_digits_less [of _ 10 n]
  by (auto simp: dec_text_def is_digit_def)

lemma foldl_rev_digits: "2 \<le> b \<Longrightarrow> foldl (\<lambda>v d. v * b + d) 0 (rev (rev_digits b n)) = n"
  using rev_digits_value [of b n] by (simp add: foldl_conv_foldr)

lemma dec_value_text: "dec_value (dec_text n) = of_nat n"
proof (cases "n = 0")
  case True
  then show ?thesis by (simp add: dec_text_def dec_value_def char2decimal_def)
next
  case False
  have "dec_value (dec_text n) =
      foldl (\<lambda>v x. v * of_nat 10 + char2decimal x) (of_nat 0) (map (\<lambda>d. digits_lower ! d) (rev (rev_digits 10 n)))"
    using False by (simp add: dec_value_def dec_text_def)
  also have "\<dots> = of_nat (foldl (\<lambda>v d. v * 10 + d) 0 (rev (rev_digits 10 n)))"
    by (rule foldl_digits_word) (auto dest: rev_digits_less simp: decimal_digit)
  finally show ?thesis by (simp add: foldl_rev_digits)
qed

lemma cvt_decimal: "cvt val 10 digits_lower = dec_text (unat val)"
proof -
  have "map (\<lambda>d. digits_lower ! (d mod 16)) (rev_digits 10 (unat val)) =
      map (\<lambda>d. digits_lower ! d) (rev_digits 10 (unat val))"
    by (rule map_cong [OF refl]) (use rev_digits_less in fastforce)
  then show ?thesis by (simp add: cvt_def dec_text_def rev_map [symmetric] unat_eq_0)
qed

section \<open>Formatting\<close>

lemma scan_directive_plain:
  assumes "c \<notin> {0x2d, 0x30, 0x2e, 0x6c}" and "\<not> is_digit c"
  shows "scan_directive (c # fmt) =
    Some (\<lparr>conv_char = c, left_prec = 0, zero_fill = False, pad_on_right = False, islonglong = False\<rparr>, fmt)"
proof -
  have "scan_digits 0 c fmt = Some (0, c, fmt)" using assms(2) by (cases fmt) simp_all
  then show ?thesis using assms(1) by (simp add: scan_directive_def next_char_def)
qed

lemma vprintf_plain:
  "c \<noteq> 0 \<Longrightarrow> c \<noteq> 0x25 \<Longrightarrow> c \<noteq> 0x0a \<Longrightarrow>
   vprintf_loop (c # fmt) args len buf =
     map_option (\<lambda>(ps, res). (Putc c # ps, res + 1)) (vprintf_loop fmt args len buf)"
  by (subst vprintf_loop.simps) (simp add: crlf_def)

lemma vprintf_end: "vprintf_loop (0 # fmt) args len buf = Some ([], 0)"
  by (subst vprintf_loop.simps) simp

lemma crlf_digits: "\<forall>c\<in>set s. is_digit c \<Longrightarrow> concat (map crlf s) = s"
  by (induction s) (auto simp: crlf_def is_digit_def)

lemma rev_digits_nonempty: "0 < n \<Longrightarrow> 2 \<le> b \<Longrightarrow> rev_digits b n \<noteq> []"
  by (simp add: rev_digits_step)

lemma dec_text_nonempty: "dec_text n \<noteq> []"
  using rev_digits_nonempty [of n 10] by (auto simp: dec_text_def)

lemma sint_u64_of_nat: "n < 2 ^ 63 \<Longrightarrow> sint (of_nat n :: u64) = int n"
  by (simp add: signed_of_nat signed_take_bit_int_eq_self)

lemma unat_scast_nonneg:
  assumes "unat (v :: u32) < 2 ^ 31"
  shows "unat (scast v :: u64) = unat v" and "\<not> (scast v :: u64) <s 0"
proof -
  have s: "sint v = int (unat v)"
    using sint_of_nat_small [OF assms] by simp
  then have "(scast v :: u64) = of_int (int (unat v))" by (simp add: scast_eq)
  then have e: "(scast v :: u64) = of_nat (unat v)" by simp
  have l: "unat v < 2 ^ 63" using assms by simp
  then show "unat (scast v :: u64) = unat v" unfolding e by (subst unat_of_nat) simp
  have "sint (of_nat (unat v) :: u64) = int (unat v)"
    using l by (rule sint_u64_of_nat)
  then show "\<not> (scast v :: u64) <s 0" unfolding e by (simp only: word_sless_alt) simp
qed

lemma vprintf_d:
  assumes "unat v < 2 ^ 31"
  shows "vprintf_loop (0x25 # 0x64 # fmt) (ArgInt v # args) len buf =
    map_option (\<lambda>(ps, res). (map Putc (dec_text (unat v)) @ ps, res + int (length (dec_text (unat v)))))
      (vprintf_loop fmt args (-1) (dec_text (unat v) @ [0] @ drop (length (dec_text (unat v)) + 1) buf))"
  using unat_scast_nonneg [OF assms] crlf_digits [OF dec_text_digits [of "unat v"]]
  by (subst vprintf_loop.simps)
    (simp add: scan_directive_plain is_digit_def fetch_value_def is_numeric_def is_decimal_def
      convert_def cvt_decimal emit_def Let_def dec_text_nonempty)

lemma sprint_run_puts: "0x08 \<notin> set s \<Longrightarrow> sprint_run (map Putc s) b = Some (b @ s)"
  by (induction s arbitrary: b) (auto simp: sprint_put_def)

text \<open>The format \<open>"%d.%d.%d.%d"\<close> of an address, and the text it gives.\<close>

definition ip_fmt :: "u8 list" where
  "ip_fmt = [0x25, 0x64, 0x2e, 0x25, 0x64, 0x2e, 0x25, 0x64, 0x2e, 0x25, 0x64]"

definition ip_text :: "u32 \<Rightarrow> u8 list" where
  "ip_text ip = dec_text (unat (IP1 ip)) @ [0x2e] @ dec_text (unat (IP2 ip)) @ [0x2e] @
     dec_text (unat (IP3 ip)) @ [0x2e] @ dec_text (unat (IP4 ip))"

lemma unat_IP_less: "unat (IP1 a) < 256" "unat (IP2 a) < 256" "unat (IP3 a) < 256" "unat (IP4 a) < 256"
proof -
  have "unat (take_bit 8 x) < 256" for x :: u32
    using take_bit_nat_less_exp [of 8 "unat x"] by (simp add: unsigned_take_bit_eq)
  then show "unat (IP1 a) < 256" "unat (IP2 a) < 256" "unat (IP3 a) < 256" "unat (IP4 a) < 256"
    by (simp_all only: IP1_def IP2_def IP3_def IP4_def and_ff)
qed

lemma ip_text_chars: "c \<in> set (ip_text ip) \<Longrightarrow> is_digit c \<or> c = 0x2e"
  using dec_text_digits by (auto simp: ip_text_def)

lemma vprintf_ip:
  "vprintf_loop (ip_fmt @ [0]) [ArgInt (IP1 ip), ArgInt (IP2 ip), ArgInt (IP3 ip), ArgInt (IP4 ip)] len buf =
   Some (map Putc (ip_text ip), int (length (ip_text ip)))"
proof -
  have "unat (IP1 ip) < 2 ^ 31" "unat (IP2 ip) < 2 ^ 31" "unat (IP3 ip) < 2 ^ 31" "unat (IP4 ip) < 2 ^ 31"
    using unat_IP_less [of ip] by (simp_all add: less_trans)
  then show ?thesis
    by (simp add: ip_fmt_def vprintf_d vprintf_plain ip_text_def vprintf_end)
qed

lemma sprintf_puts:
  assumes "fmt_addr \<noteq> 0" and "length fmt \<le> 257"
    and "vprintf_loop (fmt @ [0]) args 0 buf0 = Some (map Putc t, n)"
    and "t \<noteq> []" and "0x08 \<notin> set t" and "0 \<notin> set t"
  shows "sys_sprintf old buf0 fmt_addr fmt args = Some (t, int (length t))"
proof -
  have "sys_check_string fmt_addr fmt" using assms(1,2) by (simp add: sys_check_string_def)
  moreover have "\<exists>c. Putc c \<in> set (map Putc t)" using assms(4) by (cases t) auto
  moreover have L: "takeWhile (\<lambda>c. c \<noteq> 0) t = t" using assms(6) by (auto simp: takeWhile_eq_all_conv)
  ultimately show ?thesis using assms(3,5) by (simp add: sys_sprintf_def sys_vprintf_def sprint_run_puts L)
qed

lemma sys_sprintf_ip:
  assumes "fmt_addr \<noteq> 0"
  shows "sys_sprintf old buf0 fmt_addr ip_fmt [ArgInt (IP1 ip), ArgInt (IP2 ip), ArgInt (IP3 ip), ArgInt (IP4 ip)]
    = Some (ip_text ip, int (length (ip_text ip)))"
proof (rule sprintf_puts [OF assms])
  show "vprintf_loop (ip_fmt @ [0]) [ArgInt (IP1 ip), ArgInt (IP2 ip), ArgInt (IP3 ip), ArgInt (IP4 ip)] 0 buf0 =
      Some (map Putc (ip_text ip), int (length (ip_text ip)))" by (rule vprintf_ip)
  show "8 \<notin> set (ip_text ip)" "0 \<notin> set (ip_text ip)"
    using ip_text_chars [of 8 ip] ip_text_chars [of 0 ip] by (auto simp: is_digit_def)
qed (simp_all add: ip_fmt_def ip_text_def)

lemma str2ip_text: "cstr m p (ip_text ip) \<Longrightarrow> str2ip m p = Some ip"
proof -
  assume "cstr m p (ip_text ip)"
  then have "stores m p (ip_text ip @ [0])" by (simp add: cstr_stores)
  then have "str2ip m p = Some (IPIV (dec_value (dec_text (unat (IP1 ip)))) (dec_value (dec_text (unat (IP2 ip))))
      (dec_value (dec_text (unat (IP3 ip)))) (dec_value (dec_text (unat (IP4 ip)))))"
    using dec_text_digits by (intro str2ip_dotted) (auto simp: ip_text_def is_digit_def)
  then show "str2ip m p = Some ip" by (simp add: dec_value_text IPIV_parts)
qed

text \<open>Hexadecimal output.\<close>

definition hex_text :: "nat \<Rightarrow> u8 list" where
  "hex_text n = (if n = 0 then [0x30] else map (\<lambda>d. digits_lower ! d) (rev (rev_digits 16 n)))"

lemma cvt_hex: "cvt val 16 digits_lower = hex_text (unat val)"
proof -
  have "map (\<lambda>d. digits_lower ! (d mod 16)) (rev_digits 16 (unat val)) =
      map (\<lambda>d. digits_lower ! d) (rev_digits 16 (unat val))"
    by (rule map_cong [OF refl]) (use rev_digits_less in fastforce)
  then show ?thesis by (simp add: cvt_def hex_text_def rev_map [symmetric] unat_eq_0)
qed

lemma hex_text_nonempty: "hex_text n \<noteq> []"
  using rev_digits_nonempty [of n 16] by (auto simp: hex_text_def)

lemma hex_text_chars:
  assumes "c \<in> set (hex_text n)"
  shows "char2hex c \<noteq> 0xffffffff" and "sys_toupper c \<noteq> 0x58" and "c \<noteq> 0" and "c \<noteq> 8" and "c \<noteq> 0x0a"
proof -
  obtain d where d: "d < 16" "c = digits_lower ! d"
  proof (cases "n = 0")
    case True
    then show ?thesis using assms that [of 0] by (simp add: hex_text_def digits_lower_def)
  next
    case False
    then show ?thesis using assms that rev_digits_less [of _ 16 n] by (auto simp: hex_text_def)
  qed
  then show "char2hex c \<noteq> 0xffffffff" using hex_digit char2hex_end by metis
  have "c \<in> set digits_lower" using d nth_mem [of d digits_lower] by (simp add: digits_lower_def del: nth_mem)
  then show "sys_toupper c \<noteq> 0x58" "c \<noteq> 0" "c \<noteq> 8" "c \<noteq> 0x0a"
    by (auto simp: digits_lower_def sys_toupper_def)
qed

lemma hex_value_text: "hex_value (hex_text n) = of_nat n"
proof (cases "n = 0")
  case True
  then show ?thesis by (simp add: hex_text_def hex_value_def char2hex_def)
next
  case False
  have "hex_value (hex_text n) =
      foldl (\<lambda>v x. v * of_nat 16 + char2hex x) (of_nat 0) (map (\<lambda>d. digits_lower ! d) (rev (rev_digits 16 n)))"
    using False by (simp add: hex_value_def hex_text_def)
  also have "\<dots> = of_nat (foldl (\<lambda>v d. v * 16 + d) 0 (rev (rev_digits 16 n)))"
    by (rule foldl_digits_word) (auto dest: rev_digits_less simp: hex_digit)
  finally show ?thesis by (simp add: foldl_rev_digits)
qed

lemma str2hex_text:
  assumes "cstr m p (hex_text n)"
  shows "str2hex m p = Some (of_nat n)"
proof -
  have "\<not> has_0x m p"
  proof
    assume h: "has_0x m p"
    obtain c t where ct: "hex_text n = c # t" using hex_text_nonempty by (cases "hex_text n") auto
    show False
    proof (cases t)
      case Nil
      then show False using h ct assms by (simp add: has_0x_def sys_toupper_def)
    next
      case (Cons c' t')
      then show False using h ct assms hex_text_chars(2) [of c' n] by (auto simp: has_0x_def)
    qed
  qed
  moreover have "str2hex_loop m p 0 = Some (hex_value (hex_text n), p + of_nat (length (hex_text n)))"
    unfolding hex_value_def using assms hex_text_chars(1) cstr_end [OF assms]
    by (intro hexadecimal.loop_digits) (auto simp: cstr_stores stores_append char2hex_def)
  ultimately show ?thesis by (simp add: str2hex_def hex_value_text)
qed

lemma concat_crlf: "0x0a \<notin> set s \<Longrightarrow> concat (map crlf s) = s"
  by (induction s) (auto simp: crlf_def)

lemma unat_low32: "unat ((scast (v :: u32) :: u64) AND 0xffffffff) = unat v"
proof -
  have "(scast v :: u64) AND 0xffffffff = take_bit 32 (scast v)"
    by (simp add: take_bit_eq_mask mask_eq_exp_minus_1)
  also have "\<dots> = ucast v"
  proof (rule bit_word_eqI)
    fix n assume "n < LENGTH(64)"
    show "bit (take_bit 32 (scast v :: u64)) n = bit (ucast v :: u64) n"
    proof (cases "n < 32")
      case True
      then have "min 31 n = n" by simp
      with True show ?thesis by (auto simp: bit_simps)
    qed (auto simp: bit_simps dest: bit_imp_le_length)
  qed
  finally show ?thesis
    using unsigned_less [of v, where 'a = nat] by (simp add: unsigned_ucast_eq take_bit_nat_eq_self)
qed

lemma crlf_hex_text: "concat (map crlf (hex_text n)) = hex_text n"
  using hex_text_chars(5) [of "0x0a" n] by (intro concat_crlf) auto

lemma vprintf_x:
  "vprintf_loop [0x25, 0x78, 0] [ArgInt v] len buf =
    Some (map Putc (hex_text (unat v)), int (length (hex_text (unat v))))"
  by (subst vprintf_loop.simps)
    (simp add: scan_directive_plain is_digit_def fetch_value_def is_numeric_def is_decimal_def
      convert_def cvt_hex emit_def Let_def hex_text_nonempty vprintf_end
      crlf_hex_text unat_low32)

lemma dec_text_chars: "c \<in> set (dec_text n) \<Longrightarrow> c \<notin> {0, 8, 0x0a, 0x2d}"
  using dec_text_digits [of n] by (auto simp: is_digit_def)

lemma unat_uminus_scast:
  assumes "v <s (0 :: u32)"
  shows "(scast v :: u64) <s 0" and "unat (- (scast v :: u64)) = nat (- sint v)"
proof -
  have s: "sint v < 0" using assms by (simp add: word_sless_alt)
  have l: "- (2 ^ 31) \<le> sint v" using sint_greater_eq [of v] by simp
  have e: "(scast v :: u64) = of_int (sint v)" by (rule scast_eq)
  have r: "sint (of_int n :: u64) = n" if "- (2 ^ 31) \<le> n" "n < 0" for n
    using that by (simp add: signed_of_int signed_take_bit_int_eq_self)
  from r [OF l s]
  show "(scast v :: u64) <s 0" using s unfolding e by (simp only: word_sless_alt) simp
  have "- (scast v :: u64) = of_nat (nat (- sint v))" using s unfolding e by simp
  moreover have "nat (- sint v) < 2 ^ 64" using s l by simp
  ultimately show "unat (- (scast v :: u64)) = nat (- sint v)" by (simp add: unat_of_nat)
qed

definition int_text :: "int \<Rightarrow> u8 list" where
  "int_text n = (if n < 0 then [0x2d] else []) @ dec_text (nat (abs n))"

lemma nat_sint_nonneg:
  assumes n: "0 \<le> sint (v :: u32)"
  shows "nat (sint v) = unat v" and "unat v < 2 ^ 31"
proof -
  have "uint v = take_bit 32 (sint v)" using uint_sint [of v] by simp
  also have "\<dots> = sint v" using sint_less [of v] n by (intro take_bit_int_eq_self) simp_all
  finally have "uint v = sint v" .
  then show "nat (sint v) = unat v" and "unat v < 2 ^ 31" using sint_less [of v] by (simp_all add: unat_eq_nat_uint)
qed

lemma vprintf_int:
  "vprintf_loop [0x25, 0x64, 0] [ArgInt v] len buf =
    Some (map Putc (int_text (sint v)), int (length (int_text (sint v))))"
proof (cases "v <s 0")
  case True
  then have "sint v < 0" by (simp add: word_sless_alt)
  with unat_uminus_scast [OF True] crlf_digits [OF dec_text_digits] show ?thesis
    by (subst vprintf_loop.simps)
      (simp add: scan_directive_plain is_digit_def fetch_value_def is_numeric_def is_decimal_def
        convert_def cvt_decimal emit_def Let_def dec_text_nonempty vprintf_end
        int_text_def)
next
  case False
  then have n: "0 \<le> sint v" by (simp add: word_sless_alt)
  then have "unat v < 2 ^ 31" and "nat (sint v) = unat v" using nat_sint_nonneg by simp_all
  with n show ?thesis using vprintf_d [of v "[0]" "[]" len buf]
    by (simp add: int_text_def vprintf_end unsigned_eq_0_iff)
qed

section \<open>Properties\<close>

text \<open>C24. Printing and parsing numbers.  \<open>sprintf\<close> with \<open>"%d"\<close> leaves the decimal text of every
  32-bit integer, signed, and returns its length; \<open>"%x"\<close> leaves hexadecimal text that \<open>str2hex\<close>
  reads back to the same value, and \<open>str2decimal\<close> reads the decimal text of a non-negative integer
  back, wherever the text is stored.\<close>

theorem printf_parse_numbers:
  assumes "fmt_addr \<noteq> 0"
  shows "sys_sprintf old buf0 fmt_addr [0x25, 0x64] [ArgInt v] =
      Some (int_text (sint v), int (length (int_text (sint v)))) \<and>
    (\<exists>t. sys_sprintf old buf0 fmt_addr [0x25, 0x78] [ArgInt v] = Some (t, int (length t)) \<and>
         (\<forall>m p. cstr m p t \<longrightarrow> str2hex m p = Some v)) \<and>
    (\<forall>m p. 0 \<le> sint v \<longrightarrow> cstr m p (int_text (sint v)) \<longrightarrow> str2decimal m p = Some v)"
proof (intro conjI allI impI exI)
  show "sys_sprintf old buf0 fmt_addr [0x25, 0x64] [ArgInt v] =
      Some (int_text (sint v), int (length (int_text (sint v))))"
    using dec_text_chars [of 8] dec_text_chars [of 0] dec_text_nonempty vprintf_int
    by (intro sprintf_puts [OF assms]) (auto simp: int_text_def)
  show "sys_sprintf old buf0 fmt_addr [0x25, 0x78] [ArgInt v] =
      Some (hex_text (unat v), int (length (hex_text (unat v))))"
    using hex_text_chars(3,4) hex_text_nonempty vprintf_x
    by (intro sprintf_puts [OF assms]) auto
  show "str2hex m p = Some v" if "cstr m p (hex_text (unat v))" for m p
    using str2hex_text [OF that] by simp
  show "str2decimal m p = Some v" if n: "0 \<le> sint v" and c: "cstr m p (int_text (sint v))" for m p
  proof -
    have "cstr m p (dec_text (unat v))" using c n nat_sint_nonneg [OF n] by (simp add: int_text_def)
    then have "str2decimal_loop m p 0 = Some (dec_value (dec_text (unat v)), p + of_nat (length (dec_text (unat v))))"
      using dec_text_digits cstr_end
      by (intro str2decimal_loop_digits) (auto simp: cstr_stores stores_append is_digit_def)
    then show ?thesis by (simp add: str2decimal_def dec_value_text)
  qed
qed

theorem printf_parse_numbers_witness:
  "sys_sprintf [] [] 0x100 [0x25, 0x64] [ArgInt (- 42)] = Some ([0x2d, 0x34, 0x32], 3)"
  using printf_parse_numbers [of "0x100" "[]" "[]" "- 42"]
  by (simp add: int_text_def dec_text_def digits_lower_def rev_digits_step)

text \<open>C29. The dotted text of an IP address that \<open>sprintf\<close> makes with \<open>"%d.%d.%d.%d"\<close> of its four
  parts is read back by \<open>str2ip\<close> to the same address, wherever it is stored.\<close>

theorem str2ip_sys_sprintf:
  assumes "fmt_addr \<noteq> 0"
  shows "\<exists>t. sys_sprintf old buf0 fmt_addr ip_fmt
             [ArgInt (IP1 ip), ArgInt (IP2 ip), ArgInt (IP3 ip), ArgInt (IP4 ip)] = Some (t, int (length t)) \<and>
           (\<forall>m p. cstr m p t \<longrightarrow> str2ip m p = Some ip)"
  using sys_sprintf_ip [OF assms] str2ip_text by blast

theorem str2ip_sys_sprintf_witness:
  "\<exists>t. sys_sprintf [] [] 0x100 ip_fmt
             [ArgInt (IP1 0xc0a80001), ArgInt (IP2 0xc0a80001), ArgInt (IP3 0xc0a80001), ArgInt (IP4 0xc0a80001)]
           = Some (t, int (length t)) \<and>
         (\<forall>m p. cstr m p t \<longrightarrow> str2ip m p = Some 0xc0a80001)"
  by (rule str2ip_sys_sprintf) simp

end
