(* ===== verification/SysMalloc.thy ===== *)
theory SysMalloc
  imports SysString
begin

text \<open>
  The memory allocator of \<open>src/src/sys/sys_malloc.c\<close>: first fit over one chain of block headers,
  with the free space that follows a freed block collected into it.

  A header \<open>SYS_MEM_BLK_T\<close> is the record \<open>mblk\<close>; the headers are a store, a map from the address
  of a header to its contents, which the operations update field by field in the order of the code.
  The bytes between the headers are the callers' and are not part of the store.  The walks over the
  chain are \<open>partial_function\<close>s, since nothing in the code bounds them: \<open>None\<close> is a walk that does
  not end.  A null pointer is address 0.

  \<open>chain\<close> and \<open>layout\<close> make the invariant of the heap: the forward links reach the end mark
  through intact headers, in address order, and no block reaches over the next header or the end
  of the area.  The operations are shown to implement \<open>abs_malloc\<close> and \<open>abs_free\<close> on the list of
  blocks.
\<close>

section \<open>The code\<close>

record mblk =
  tag :: u32
  nxt :: addr
  prv :: addr
  bsize :: u32
  used_cnt :: u32

type_synonym heap = "addr \<Rightarrow> mblk"

record mem_info =
  start_ptr :: addr
  end_ptr :: addr
  total_size :: u32
  max_alloc_size :: u32
  max_alloc_ptr :: addr

definition SYS_MEM_MIN_SIZE :: u32 where "SYS_MEM_MIN_SIZE = 256 * 1024"
definition SYS_MEM_TAG :: u32 where "SYS_MEM_TAG = 0x53 + push_bit 8 0x74 + push_bit 16 0x6f + push_bit 24 0x72"
definition SYS_MEM_END_PTR :: addr where "SYS_MEM_END_PTR = - 1"

text \<open>\<open>sizeof (SYS_MEM_BLK_T)\<close>: five words and three of padding.\<close>

definition HDR :: u32 where "HDR = 32"

definition sys_init_memory :: "addr \<Rightarrow> u32 \<Rightarrow> mem_info \<Rightarrow> heap \<Rightarrow> mem_info \<times> heap" where
  "sys_init_memory startp sz mi h =
     (if sz <s SYS_MEM_MIN_SIZE then (mi, h)
      else (mi\<lparr>start_ptr := startp, end_ptr := startp + sz - 1, total_size := sz,
               max_alloc_size := sz - HDR, max_alloc_ptr := startp\<rparr>,
            h(startp := \<lparr>tag = SYS_MEM_TAG, nxt = SYS_MEM_END_PTR, prv = SYS_MEM_END_PTR,
                         bsize = sz - HDR, used_cnt = 0\<rparr>)))"

text \<open>Assignments to one field of a header.\<close>

definition set_tag :: "addr \<Rightarrow> u32 \<Rightarrow> heap \<Rightarrow> heap" where
  "set_tag a v h = h(a := (h a)\<lparr>tag := v\<rparr>)"

definition set_nxt :: "addr \<Rightarrow> addr \<Rightarrow> heap \<Rightarrow> heap" where
  "set_nxt a v h = h(a := (h a)\<lparr>nxt := v\<rparr>)"

definition set_prv :: "addr \<Rightarrow> addr \<Rightarrow> heap \<Rightarrow> heap" where
  "set_prv a v h = h(a := (h a)\<lparr>prv := v\<rparr>)"

definition set_size :: "addr \<Rightarrow> u32 \<Rightarrow> heap \<Rightarrow> heap" where
  "set_size a v h = h(a := (h a)\<lparr>bsize := v\<rparr>)"

definition set_used :: "addr \<Rightarrow> u32 \<Rightarrow> heap \<Rightarrow> heap" where
  "set_used a v h = h(a := (h a)\<lparr>used_cnt := v\<rparr>)"

partial_function (option) gc_loop :: "addr \<Rightarrow> addr \<Rightarrow> heap \<Rightarrow> heap option" where
  "gc_loop start_blk blk h =
     (if blk = SYS_MEM_END_PTR then Some h
      else if tag (h blk) \<noteq> SYS_MEM_TAG then Some h
      else if used_cnt (h blk) = 0 then
        (let h = set_size start_blk (bsize (h start_blk) + (bsize (h blk) + HDR)) h;
             h = set_nxt start_blk (nxt (h blk)) h;
             h = set_tag blk 0 h;
             blk = nxt (h blk);
             h = (if blk \<noteq> SYS_MEM_END_PTR then set_prv blk start_blk h else h)
         in gc_loop start_blk blk h)
      else Some h)"

definition sys_mem_garbage_collect :: "addr \<Rightarrow> heap \<Rightarrow> heap option" where
  "sys_mem_garbage_collect start_blk h =
     (if used_cnt (h start_blk) \<noteq> 0 then Some h else gc_loop start_blk (nxt (h start_blk)) h)"

text \<open>The walk of \<open>sys_malloc\<close>; \<open>size\<close> is rounded up already.  \<open>blk->size >= size\<close> compares as
  unsigned.  A split puts a header behind the allocated block.\<close>

definition split_block :: "addr \<Rightarrow> u32 \<Rightarrow> heap \<Rightarrow> heap option" where
  "split_block blk sz h =
     (let new_blk = blk + sz + HDR;
          h = set_tag new_blk SYS_MEM_TAG h;
          h = set_nxt new_blk (nxt (h blk)) h;
          h = set_prv new_blk blk h;
          h = set_size new_blk (bsize (h blk) - sz - HDR) h;
          h = set_used new_blk 0 h
      in map_option (set_nxt blk new_blk) (sys_mem_garbage_collect new_blk h))"

partial_function (option) malloc_loop :: "u32 \<Rightarrow> addr \<Rightarrow> heap \<Rightarrow> (addr \<times> heap) option" where
  "malloc_loop sz blk h =
     (if blk = SYS_MEM_END_PTR then Some (0, h)
      else if tag (h blk) \<noteq> SYS_MEM_TAG then Some (0, h)
      else if used_cnt (h blk) = 0 \<and> sz \<le> bsize (h blk) then
        Option.bind (if 2 * HDR < bsize (h blk) - sz then split_block blk sz h else Some h)
          (\<lambda>h. let h = set_used blk (used_cnt (h blk) + 1) h;
                   h = set_size blk sz h
               in Some (blk + HDR, h))
      else malloc_loop sz (nxt (h blk)) h)"

definition round16 :: "u32 \<Rightarrow> u32" where
  "round16 sz = (sz + 15) AND NOT 15"

definition sys_malloc :: "mem_info \<Rightarrow> u32 \<Rightarrow> heap \<Rightarrow> (addr \<times> heap) option" where
  "sys_malloc mi sz h = malloc_loop (round16 sz) (start_ptr mi) h"

text \<open>\<open>sys_calloc\<close> never calls \<open>sys_malloc\<close>: it clears the bytes at the address of that function,
  which is a parameter here, and returns no value.\<close>

definition sys_calloc :: "addr \<Rightarrow> u32 \<Rightarrow> mem \<Rightarrow> mem" where
  "sys_calloc sys_malloc_addr sz m =
     (if sys_malloc_addr \<noteq> 0 then sys_memset m sys_malloc_addr 0 sz else m)"

definition sys_free :: "addr \<Rightarrow> heap \<Rightarrow> heap option" where
  "sys_free datap h =
     (if datap = 0 then Some h
      else
        (let blk = datap - HDR in
         if tag (h blk) \<noteq> SYS_MEM_TAG then Some h
         else
           (let h = set_used blk 0 h; prev = prv (h blk) in
            if prev \<noteq> SYS_MEM_END_PTR \<and> used_cnt (h prev) = 0
            then sys_mem_garbage_collect prev h
            else sys_mem_garbage_collect blk h)))"

text \<open>The rows \<open>dump_malloc_list\<close> prints: number, header address, size, use count.\<close>

partial_function (option) dump_loop ::
  "nat \<Rightarrow> addr \<Rightarrow> heap \<Rightarrow> (nat \<times> addr \<times> u32 \<times> u32) list option" where
  "dump_loop i blk h =
     (if blk = SYS_MEM_END_PTR then Some []
      else if tag (h blk) \<noteq> SYS_MEM_TAG then Some []
      else Option.bind (dump_loop (i + 1) (nxt (h blk)) h)
             (\<lambda>rows. Some ((i, blk, bsize (h blk), used_cnt (h blk)) # rows)))"

definition dump_malloc_list :: "mem_info \<Rightarrow> heap \<Rightarrow> (nat \<times> addr \<times> u32 \<times> u32) list option" where
  "dump_malloc_list mi h = dump_loop 1 (start_ptr mi) h"

section \<open>The invariant\<close>

lemmas set_field_defs = set_tag_def set_nxt_def set_prv_def set_size_def set_used_def

text \<open>\<open>seg h p bs q\<close>: the links lead from \<open>p\<close> through the headers \<open>bs\<close>, all tagged, to \<open>q\<close>.\<close>

fun seg :: "heap \<Rightarrow> addr \<Rightarrow> addr list \<Rightarrow> addr \<Rightarrow> bool" where
  "seg h p [] q \<longleftrightarrow> p = q"
| "seg h p (b # bs) q \<longleftrightarrow>
     p = b \<and> b \<noteq> SYS_MEM_END_PTR \<and> tag (h b) = SYS_MEM_TAG \<and> seg h (nxt (h b)) bs q"

definition blk_end :: "heap \<Rightarrow> addr \<Rightarrow> nat" where
  "blk_end h b = unat b + 32 + unat (bsize (h b))"

text \<open>\<open>fits h lo bs hi\<close>: the blocks lie between \<open>lo\<close> and \<open>hi\<close>, in order and without overlap.\<close>

fun fits :: "heap \<Rightarrow> nat \<Rightarrow> addr list \<Rightarrow> nat \<Rightarrow> bool" where
  "fits h lo [] hi \<longleftrightarrow> lo \<le> hi"
| "fits h lo (b # bs) hi \<longleftrightarrow> lo \<le> unat b \<and> fits h (blk_end h b) bs hi"

definition heap_inv :: "mem_info \<Rightarrow> heap \<Rightarrow> addr list \<Rightarrow> bool" where
  "heap_inv mi h bs \<longleftrightarrow>
     seg h (start_ptr mi) bs SYS_MEM_END_PTR \<and>
     fits h (unat (start_ptr mi)) bs (unat (start_ptr mi) + unat (total_size mi)) \<and>
     unat (start_ptr mi) + unat (total_size mi) < 2 ^ 32"

lemma unat_END_PTR: "unat SYS_MEM_END_PTR = 2 ^ 32 - 1"
  by (simp add: SYS_MEM_END_PTR_def unsigned_minus_1_eq_mask mask_eq_exp_minus_1)

lemma seg_append: "seg h p (xs @ ys) q \<longleftrightarrow> (\<exists>r. seg h p xs r \<and> seg h r ys q)"
  by (induction xs arbitrary: p) auto

lemma seg_cong:
  "(\<And>x. x \<in> set bs \<Longrightarrow> tag (h' x) = tag (h x) \<and> nxt (h' x) = nxt (h x)) \<Longrightarrow>
   seg h' p bs q = seg h p bs q"
  by (induction bs arbitrary: p) auto

lemma fits_cong:
  "(\<And>x. x \<in> set bs \<Longrightarrow> bsize (h' x) = bsize (h x)) \<Longrightarrow> fits h' lo bs hi = fits h lo bs hi"
  by (induction bs arbitrary: lo) (auto simp: blk_end_def)

lemma fits_mono: "fits h lo bs hi \<Longrightarrow> lo' \<le> lo \<Longrightarrow> hi \<le> hi' \<Longrightarrow> fits h lo' bs hi'"
  by (induction bs arbitrary: lo lo') auto

lemma fits_le: "fits h lo bs hi \<Longrightarrow> lo \<le> hi"
  by (induction bs arbitrary: lo) (fastforce simp: blk_end_def)+

lemma fits_append:
  "fits h lo (xs @ b # ys) hi \<longleftrightarrow> fits h lo xs (unat b) \<and> fits h (blk_end h b) ys hi"
  by (induction xs arbitrary: lo) auto

lemma fits_mem:
  assumes "fits h lo bs hi" and "x \<in> set bs"
  shows "lo \<le> unat x" and "blk_end h x \<le> hi"
proof -
  obtain xs ys where bs: "bs = xs @ x # ys" using assms(2) by (meson split_list)
  then have "fits h lo xs (unat x)" "fits h (blk_end h x) ys hi"
    using assms(1) by (simp_all add: fits_append)
  then show "lo \<le> unat x" "blk_end h x \<le> hi" by (auto dest: fits_le)
qed

lemma blk_end_gt: "unat b + 32 \<le> blk_end h b"
  by (simp add: blk_end_def)

lemma fits_before:
  "fits h lo (xs @ b # ys) hi \<Longrightarrow> x \<in> set xs \<Longrightarrow> blk_end h x \<le> unat b"
  by (auto simp: fits_append dest: fits_mem)

lemma fits_after:
  "fits h lo (xs @ b # ys) hi \<Longrightarrow> y \<in> set ys \<Longrightarrow> blk_end h b \<le> unat y"
  by (auto simp: fits_append dest: fits_mem)

lemma fits_distinct: "fits h lo bs hi \<Longrightarrow> distinct bs"
proof (induction bs arbitrary: lo)
  case (Cons b bs)
  then have "b \<notin> set bs" using fits_mem(1) [of h "blk_end h b" bs hi b] blk_end_gt [of b h] by auto
  with Cons show ?case by auto
qed simp

section \<open>The abstract allocator\<close>

text \<open>A block as its header address, its size and its use count; \<open>absorb\<close> is what the collection
  makes of the free blocks that follow a free block of size \<open>s\<close>.\<close>

type_synonym ablk = "addr \<times> nat \<times> u32"

definition view :: "heap \<Rightarrow> addr list \<Rightarrow> ablk list" where
  "view h bs = map (\<lambda>b. (b, unat (bsize (h b)), used_cnt (h b))) bs"

fun absorb :: "nat \<Rightarrow> ablk list \<Rightarrow> nat \<times> ablk list" where
  "absorb s [] = (s, [])"
| "absorb s ((b, t, u) # bs) = (if u = 0 then absorb (s + t + 32) bs else (s, (b, t, u) # bs))"

definition collect :: "addr \<Rightarrow> nat \<Rightarrow> ablk list \<Rightarrow> ablk list" where
  "collect a s bs = (a, fst (absorb s bs), 0) # snd (absorb s bs)"

fun abs_malloc :: "u32 \<Rightarrow> ablk list \<Rightarrow> addr \<times> ablk list" where
  "abs_malloc n [] = (0, [])"
| "abs_malloc n ((a, s, u) # bs) =
     (if u = 0 \<and> unat n \<le> s then
        (a + 32, (a, unat n, 1) #
           (if s - unat n > 64 then collect (a + n + 32) (s - unat n - 32) bs else bs))
      else (let (r, bs') = abs_malloc n bs in (r, (a, s, u) # bs')))"

text \<open>\<open>abs_collect a\<close> collects at the block \<open>a\<close>; \<open>abs_free prev a\<close> marks \<open>a\<close> free and collects at
  \<open>prev\<close> when that is a free block, at \<open>a\<close> otherwise.\<close>

fun abs_collect :: "addr \<Rightarrow> ablk list \<Rightarrow> ablk list" where
  "abs_collect a [] = []"
| "abs_collect a ((b, s, u) # bs) = (if b = a then collect a s bs else (b, s, u) # abs_collect a bs)"

definition abs_release :: "addr \<Rightarrow> ablk list \<Rightarrow> ablk list" where
  "abs_release a = map (\<lambda>(b, s, u). (b, s, if b = a then 0 else u))"

definition abs_free :: "addr \<Rightarrow> addr \<Rightarrow> ablk list \<Rightarrow> ablk list" where
  "abs_free prev a bs =
     (let bs = abs_release a bs
      in if \<exists>s. (prev, s, 0) \<in> set bs then abs_collect prev bs else abs_collect a bs)"

lemma view_Nil [simp]: "view h [] = []" by (simp add: view_def)
lemma view_Cons [simp]: "view h (b # bs) = (b, unat (bsize (h b)), used_cnt (h b)) # view h bs"
  by (simp add: view_def)
lemma view_append [simp]: "view h (xs @ ys) = view h xs @ view h ys" by (simp add: view_def)

lemma view_cong:
  "(\<And>x. x \<in> set bs \<Longrightarrow> bsize (h' x) = bsize (h x) \<and> used_cnt (h' x) = used_cnt (h x)) \<Longrightarrow>
   view h' bs = view h bs"
  by (simp add: view_def)

section \<open>Collection\<close>

lemma gc_loop_spec:
  assumes "seg h p bs SYS_MEM_END_PTR" and "fits h (blk_end h a) bs hi" and "hi < 2 ^ 32"
    and "nxt (h a) = p"
  shows "\<exists>h' bs'. gc_loop a p h = Some h' \<and> seg h' (nxt (h' a)) bs' SYS_MEM_END_PTR \<and>
     fits h' (blk_end h' a) bs' hi \<and>
     (unat (bsize (h' a)), view h' bs') = absorb (unat (bsize (h a))) (view h bs) \<and>
     tag (h' a) = tag (h a) \<and> prv (h' a) = prv (h a) \<and> used_cnt (h' a) = used_cnt (h a) \<and>
     (\<forall>x. x \<noteq> a \<longrightarrow> x \<notin> set bs \<longrightarrow> h' x = h x)"
  using assms
proof (induction bs arbitrary: h p)
  case Nil
  then show ?case by (intro exI [of _ h] exI [of _ "[]"]) (simp add: gc_loop.simps)
next
  case (Cons b bs)
  note prems = Cons.prems
  show ?case
  proof (cases "used_cnt (h b) = 0")
    case False
    with prems show ?thesis
      by (intro exI [of _ h] exI [of _ "b # bs"]) (simp add: gc_loop.simps)
  next
    case True
    define h1 where "h1 = set_tag b 0 (set_nxt a (nxt (h b)) (set_size a (bsize (h a) + (bsize (h b) + HDR)) h))"
    define q where "q = nxt (h b)"
    define h2 where "h2 = (if q \<noteq> SYS_MEM_END_PTR then set_prv q a h1 else h1)"
    have d: "distinct (b # bs)" using prems(2) by (rule fits_distinct)
    have ab: "blk_end h a \<le> unat b" using prems(2) by simp
    then have ne: "b \<noteq> a" using blk_end_gt [of a h] by auto
    have na: "a \<notin> set bs" using fits_mem(1) [OF prems(2), of a] blk_end_gt [of a h] by auto
    have be: "blk_end h b \<le> hi" using fits_mem(2) [OF prems(2), of b] by simp
    have q: "q \<noteq> SYS_MEM_END_PTR \<Longrightarrow> q \<in> set bs"
      using prems(1) by (cases bs) (auto simp: q_def)
    have p: "p = b" "b \<noteq> SYS_MEM_END_PTR" "tag (h b) = SYS_MEM_TAG" using prems(1) by auto
    have step: "gc_loop a p h = gc_loop a q h2"
      using p True ne by (subst gc_loop.simps) (simp add: Let_def h2_def h1_def q_def set_field_defs)
    have sum: "unat (bsize (h a) + (bsize (h b) + HDR)) = unat (bsize (h a)) + unat (bsize (h b)) + 32"
      using ab be prems(3) by (subst unat_add_lem [THEN iffD1], simp_all add: blk_end_def HDR_def unat_word_ariths)
    have h2a: "bsize (h2 a) = bsize (h a) + (bsize (h b) + HDR)" "nxt (h2 a) = q" "tag (h2 a) = tag (h a)"
        "prv (h2 a) = prv (h a)" "used_cnt (h2 a) = used_cnt (h a)"
      using ne na q by (auto simp: h2_def h1_def q_def set_field_defs)
    have h2x: "tag (h2 x) = tag (h x) \<and> nxt (h2 x) = nxt (h x) \<and> bsize (h2 x) = bsize (h x) \<and> used_cnt (h2 x) = used_cnt (h x)"
      if "x \<in> set bs" for x
      using that d na by (auto simp: h2_def h1_def set_field_defs)
    have frame: "h2 x = h x" if "x \<noteq> a" "x \<notin> set (b # bs)" for x
      using that q by (auto simp: h2_def h1_def set_field_defs)
    have en: "blk_end h2 a \<le> blk_end h b" using ab by (simp add: blk_end_def h2a(1) sum)
    have "seg h2 q bs SYS_MEM_END_PTR" using prems(1) seg_cong [of bs h2 h] h2x by (simp add: q_def)
    moreover have "fits h2 (blk_end h2 a) bs hi"
      using prems(2) fits_cong [of bs h2 h] h2x en by (auto intro: fits_mono)
    ultimately obtain h' bs' where r: "gc_loop a q h2 = Some h'" "seg h' (nxt (h' a)) bs' SYS_MEM_END_PTR"
        "fits h' (blk_end h' a) bs' hi"
        "(unat (bsize (h' a)), view h' bs') = absorb (unat (bsize (h2 a))) (view h2 bs)"
        "tag (h' a) = tag (h2 a)" "prv (h' a) = prv (h2 a)" "used_cnt (h' a) = used_cnt (h2 a)"
        "\<forall>x. x \<noteq> a \<longrightarrow> x \<notin> set bs \<longrightarrow> h' x = h2 x"
      using Cons.IH [of h2 q] prems(3) h2a(2) by blast
    have "view h2 bs = view h bs" using h2x by (intro view_cong) auto
    then have "(unat (bsize (h' a)), view h' bs') = absorb (unat (bsize (h a))) (view h (b # bs))"
      using r(4) True by (simp add: h2a(1) sum)
    then show ?thesis using r step frame h2a by (intro exI [of _ h'] exI [of _ bs']) simp
  qed
qed

lemma collect_spec:
  assumes "seg h p (xs @ a # ys) SYS_MEM_END_PTR" and "fits h lo (xs @ a # ys) hi" and "hi < 2 ^ 32"
    and "used_cnt (h a) = 0"
  shows "\<exists>h' ys'. sys_mem_garbage_collect a h = Some h' \<and> seg h' p (xs @ a # ys') SYS_MEM_END_PTR \<and>
     fits h' lo (xs @ a # ys') hi \<and>
     view h' (xs @ a # ys') = view h xs @ collect a (unat (bsize (h a))) (view h ys) \<and>
     (\<forall>x. x \<notin> set (a # ys) \<longrightarrow> h' x = h x)"
proof -
  have s: "seg h p xs a" "seg h (nxt (h a)) ys SYS_MEM_END_PTR" "tag (h a) = SYS_MEM_TAG" "a \<noteq> SYS_MEM_END_PTR"
    using assms(1) by (auto simp: seg_append)
  have f: "fits h lo xs (unat a)" "fits h (blk_end h a) ys hi" using assms(2) by (simp_all add: fits_append)
  obtain h' ys' where r: "gc_loop a (nxt (h a)) h = Some h'" "seg h' (nxt (h' a)) ys' SYS_MEM_END_PTR"
      "fits h' (blk_end h' a) ys' hi"
      "(unat (bsize (h' a)), view h' ys') = absorb (unat (bsize (h a))) (view h ys)"
      "tag (h' a) = tag (h a)" "used_cnt (h' a) = used_cnt (h a)"
      "\<forall>x. x \<noteq> a \<longrightarrow> x \<notin> set ys \<longrightarrow> h' x = h x"
    using gc_loop_spec [OF s(2) f(2) assms(3) refl] by blast
  have "distinct (xs @ a # ys)" using assms(2) by (rule fits_distinct)
  then have x: "h' x = h x" if "x \<in> set xs" for x using r(7) that by auto
  have "seg h' p xs a" "fits h' lo xs (unat a)" "view h' xs = view h xs"
    using s(1) f(1) x seg_cong [of xs h' h] fits_cong [of xs h' h] view_cong [of xs h' h] by auto
  then show ?thesis
    using r s assms(4) by (intro exI [of _ h'] exI [of _ ys'])
      (auto simp: sys_mem_garbage_collect_def seg_append fits_append collect_def dest: sym)
qed

lemma unat_plus3:
  assumes "unat (a :: u32) + unat n + 32 < 2 ^ 32"
  shows "unat (a + n + 32) = unat a + unat n + 32"
  using assms by (simp add: unat_word_ariths)

lemma split_block_spec:
  assumes "seg h b (b # ys) SYS_MEM_END_PTR" and "fits h lo (b # ys) hi" and "hi < 2 ^ 32"
    and "unat n \<le> unat (bsize (h b))" and "64 < unat (bsize (h b)) - unat n"
  shows "\<exists>h' ys'. split_block b n h = Some h' \<and> seg h' b (b # ys') SYS_MEM_END_PTR \<and>
     fits h' (unat b + 32 + unat n) ys' hi \<and>
     view h' ys' = collect (b + n + 32) (unat (bsize (h b)) - unat n - 32) (view h ys) \<and>
     bsize (h' b) = bsize (h b) \<and> used_cnt (h' b) = used_cnt (h b) \<and>
     (\<forall>x. unat x < lo \<longrightarrow> h' x = h x)"
proof -
  define c where "c = b + n + HDR"
  define h1 where "h1 = set_used c 0 (set_size c (bsize (h b) - n - HDR) (set_prv c b
    (set_nxt c (nxt (h b)) (set_tag c SYS_MEM_TAG h))))"
  have be: "blk_end h b \<le> hi" using fits_mem(2) [OF assms(2)] by simp
  then have uc: "unat c = unat b + unat n + 32"
    using assms(3,4) unat_plus3 [of b n] by (simp add: c_def HDR_def blk_end_def)
  then have cb: "c \<noteq> b" by auto
  have us: "unat (bsize (h b) - n - HDR) = unat (bsize (h b)) - unat n - 32"
    using assms(4,5) by (simp add: HDR_def unat_sub_if')
  have cy: "c \<notin> set ys"
    using fits_after [of h lo "[]" b ys hi c] assms(2,4,5) uc by (auto simp: blk_end_def)
  have x: "h1 x = h x" if "x \<noteq> c" for x using that by (simp add: h1_def set_field_defs)
  have xy: "h1 y = h y" if "y \<in> set ys" for y using that cy x by metis
  have h1c: "tag (h1 c) = SYS_MEM_TAG" "nxt (h1 c) = nxt (h b)" "bsize (h1 c) = bsize (h b) - n - HDR"
      "used_cnt (h1 c) = 0"
    using cb by (simp_all add: h1_def set_field_defs)
  have cend: "c \<noteq> SYS_MEM_END_PTR"
  proof
    assume "c = SYS_MEM_END_PTR"
    then have "unat c = 2 ^ 32 - 1" by (simp add: unat_END_PTR)
    then show False using be assms(3-5) uc by (simp add: blk_end_def)
  qed
  have c1: "seg h1 c ([] @ c # ys) SYS_MEM_END_PTR"
    using assms(1) h1c cend xy seg_cong [of ys h1 h] by simp
  have ce: "blk_end h1 c = blk_end h b"
    using h1c(3) us uc assms(4,5) by (simp add: blk_end_def)
  have c2: "fits h1 (unat b + 32 + unat n) ([] @ c # ys) hi"
    using assms(2) uc ce xy fits_cong [of ys h1 h] by simp
  obtain h2 ys' where r: "sys_mem_garbage_collect c h1 = Some h2"
      "seg h2 c ([] @ c # ys') SYS_MEM_END_PTR" "fits h2 (unat b + 32 + unat n) ([] @ c # ys') hi"
      "view h2 ([] @ c # ys') = view h1 [] @ collect c (unat (bsize (h1 c))) (view h1 ys)"
      "\<forall>x. x \<notin> set (c # ys) \<longrightarrow> h2 x = h1 x"
    using collect_spec [OF c1 c2 assms(3) h1c(4)] by blast
  define h' where "h' = set_nxt b c h2"
  have "distinct (b # ys)" using assms(2) by (rule fits_distinct)
  then have h2b: "h2 b = h b" using r(5) cb x by auto
  have "b \<notin> set (c # ys')" using fits_mem(1) [OF r(3), of b] by auto
  then have ys': "h' y = h2 y" if "y \<in> set (c # ys')" for y
    using that by (auto simp: h'_def set_field_defs)
  have hb: "nxt (h' b) = c" "tag (h' b) = tag (h b)" "bsize (h' b) = bsize (h b)" "used_cnt (h' b) = used_cnt (h b)"
    by (simp_all add: h'_def set_field_defs h2b)
  have "split_block b n h = Some h'"
    using r(1) cb not_sym [OF cb]
    by (simp add: split_block_def Let_def c_def [symmetric] h1_def h'_def set_field_defs)
  moreover have "seg h' b (b # c # ys') SYS_MEM_END_PTR"
    using assms(1) hb r(2) ys' seg_cong [of "c # ys'" h' h2] by auto
  moreover have "fits h' (unat b + 32 + unat n) (c # ys') hi"
  proof -
    have "fits h' (unat b + 32 + unat n) (c # ys') hi = fits h2 (unat b + 32 + unat n) (c # ys') hi"
      by (rule fits_cong) (simp add: ys')
    then show ?thesis using r(3) by simp
  qed
  moreover have "view h' (c # ys') = collect (b + n + 32) (unat (bsize (h b)) - unat n - 32) (view h ys)"
  proof -
    have "view h' (c # ys') = view h2 (c # ys')" using ys' by (intro view_cong) auto
    also have "\<dots> = collect c (unat (bsize (h b)) - unat n - 32) (view h1 ys)"
      using r(4) by (simp add: h1c(3) us)
    also have "view h1 ys = view h ys" using xy by (intro view_cong) simp
    finally show ?thesis by (simp add: c_def HDR_def)
  qed
  moreover have "\<forall>x. unat x < lo \<longrightarrow> h' x = h x"
  proof (intro allI impI)
    fix y :: addr assume "unat y < lo"
    then have "y \<noteq> b" "y \<noteq> c" "y \<notin> set ys"
      using uc assms(2) fits_mem(1) [OF assms(2), of y] by auto
    then show "h' y = h y" using r(5) x by (simp add: h'_def set_field_defs)
  qed
  ultimately show ?thesis using hb(3,4) by blast
qed

section \<open>Allocation\<close>

text \<open>The walk implements \<open>abs_malloc\<close> on the blocks from \<open>p\<close> on and leaves the headers below
  \<open>lo\<close> alone.\<close>

lemma malloc_loop_spec:
  assumes "seg h p bs SYS_MEM_END_PTR" and "fits h lo bs hi" and "hi < 2 ^ 32"
  shows "\<exists>r h' bs'. malloc_loop n p h = Some (r, h') \<and> seg h' p bs' SYS_MEM_END_PTR \<and> fits h' lo bs' hi \<and>
     (r, view h' bs') = abs_malloc n (view h bs) \<and> (\<forall>x. unat x < lo \<longrightarrow> h' x = h x)"
  using assms
proof (induction bs arbitrary: p lo)
  case Nil
  then show ?case
    by (intro exI [of _ 0] exI [of _ h] exI [of _ "[]"]) (simp add: malloc_loop.simps)
next
  case (Cons b bs)
  note prems = Cons.prems
  have p: "p = b" "b \<noteq> SYS_MEM_END_PTR" "tag (h b) = SYS_MEM_TAG" "seg h (nxt (h b)) bs SYS_MEM_END_PTR"
    and f: "lo \<le> unat b" "fits h (blk_end h b) bs hi" using prems by auto
  have nb: "b \<notin> set bs" using fits_distinct [OF prems(2)] by simp
  show ?case
  proof (cases "used_cnt (h b) = 0 \<and> n \<le> bsize (h b)")
    case False
    obtain r h' bs' where r: "malloc_loop n (nxt (h b)) h = Some (r, h')"
        "seg h' (nxt (h b)) bs' SYS_MEM_END_PTR" "fits h' (blk_end h b) bs' hi"
        "(r, view h' bs') = abs_malloc n (view h bs)" "\<forall>x. unat x < blk_end h b \<longrightarrow> h' x = h x"
      using Cons.IH [OF p(4) f(2) prems(3)] by blast
    have "h' b = h b" using r(5) blk_end_gt [of b h] by simp
    moreover have "\<forall>x. unat x < lo \<longrightarrow> h' x = h x" using r(5) f(1) blk_end_gt [of b h] by auto
    moreover have "\<not> (used_cnt (h b) = 0 \<and> unat n \<le> unat (bsize (h b)))"
      using False by (simp add: word_le_nat_alt)
    ultimately show ?thesis
      using False p f r by (intro exI [of _ r] exI [of _ h'] exI [of _ "b # bs'"])
        (auto simp: malloc_loop.simps [of n b] blk_end_def split: prod.split dest: sym)
  next
    case True
    then have u: "used_cnt (h b) = 0" and le: "unat n \<le> unat (bsize (h b))" by (simp_all add: word_le_nat_alt)
    have us: "unat (bsize (h b) - n) = unat (bsize (h b)) - unat n"
      using le by (simp add: unat_sub_if')
    have spl: "2 * HDR < bsize (h b) - n \<longleftrightarrow> 64 < unat (bsize (h b)) - unat n"
      using us by (simp add: word_less_nat_alt HDR_def)
    obtain h2 bs' where h2:
        "(if 2 * HDR < bsize (h b) - n then split_block b n h else Some h) = Some h2"
        "seg h2 b (b # bs') SYS_MEM_END_PTR" "fits h2 (unat b + 32 + unat n) bs' hi"
        "view h2 bs' = (if unat (bsize (h b)) - unat n > 64
           then collect (b + n + 32) (unat (bsize (h b)) - unat n - 32) (view h bs) else view h bs)"
        "used_cnt (h2 b) = 0" "\<forall>x. unat x < lo \<longrightarrow> h2 x = h x"
    proof (cases "64 < unat (bsize (h b)) - unat n")
      case True
      then show ?thesis
        using split_block_spec [of h b bs lo hi n] prems p(1) le u spl that by (auto simp: p(1))
    next
      case False
      have "fits h (unat b + 32 + unat n) bs hi"
        by (rule fits_mono [OF f(2)]) (simp_all add: blk_end_def le)
      then show ?thesis using False spl p u that [of h bs] by auto
    qed
    define h' where "h' = set_size b n (set_used b (used_cnt (h2 b) + 1) h2)"
    have nb': "b \<notin> set bs'" using fits_mem(1) [OF h2(3), of b] by auto
    have hb: "tag (h' b) = tag (h2 b)" "nxt (h' b) = nxt (h2 b)" "bsize (h' b) = n" "used_cnt (h' b) = 1"
      using h2(5) by (simp_all add: h'_def set_field_defs)
    have x: "h' y = h2 y" if "y \<noteq> b" for y using that by (simp add: h'_def set_field_defs)
    have xb: "h' y = h2 y" if "y \<in> set bs'" for y using that nb' x by metis
    have "malloc_loop n p h = Some (b + 32, h')"
    proof -
      have "malloc_loop n p h = Option.bind (if 2 * HDR < bsize (h b) - n then split_block b n h else Some h)
          (\<lambda>h. Some (b + HDR, set_size b n (set_used b (used_cnt (h b) + 1) h)))"
        using True p by (subst malloc_loop.simps) simp
      then show ?thesis unfolding h2(1) by (simp add: h'_def HDR_def)
    qed
    moreover have "seg h' p (b # bs') SYS_MEM_END_PTR"
      using h2(2) p hb xb seg_cong [of bs' h' h2] by simp
    moreover have "fits h' lo (b # bs') hi"
      using f(1) h2(3) hb xb fits_cong [of bs' h' h2] by (simp add: blk_end_def)
    moreover have "(b + 32, view h' (b # bs')) = abs_malloc n (view h (b # bs))"
      using h2(4) hb xb u le view_cong [of bs' h' h2] by auto
    moreover have "\<forall>y. unat y < lo \<longrightarrow> h' y = h y" using h2(6) x f(1) by (metis leD)
    ultimately show ?thesis by blast
  qed
qed

section \<open>Release\<close>

lemma view_set_used:
  "view (set_used a 0 h) bs = abs_release a (view h bs)"
  by (simp add: view_def abs_release_def set_field_defs)

lemma seg_set_used: "seg (set_used a v h) p bs q = seg h p bs q"
  by (rule seg_cong) (simp add: set_field_defs)

lemma fits_set_used: "fits (set_used a v h) lo bs hi = fits h lo bs hi"
  by (rule fits_cong) (simp add: set_field_defs)

lemma abs_collect_append:
  "a \<notin> set xs \<Longrightarrow>
   abs_collect a (view h xs @ (a, s, u) # rest) = view h xs @ collect a s rest"
  by (induction xs) auto

lemma gc_in_chain:
  assumes "heap_inv mi h bs" and "a \<in> set bs" and "used_cnt (h a) = 0"
  shows "\<exists>h' bs'. sys_mem_garbage_collect a h = Some h' \<and> heap_inv mi h' bs' \<and>
     view h' bs' = abs_collect a (view h bs)"
proof -
  obtain xs ys where bs: "bs = xs @ a # ys" using assms(2) by (meson split_list)
  let ?lo = "unat (start_ptr mi)" and ?hi = "unat (start_ptr mi) + unat (total_size mi)"
  have inv: "seg h (start_ptr mi) (xs @ a # ys) SYS_MEM_END_PTR" "fits h ?lo (xs @ a # ys) ?hi" "?hi < 2 ^ 32"
    using assms(1) by (simp_all add: heap_inv_def bs)
  have "a \<notin> set xs" using fits_distinct [OF inv(2)] by simp
  then have "view h xs @ collect a (unat (bsize (h a))) (view h ys) = abs_collect a (view h bs)"
    by (simp add: bs abs_collect_append)
  moreover obtain h' ys' where "sys_mem_garbage_collect a h = Some h'"
      "seg h' (start_ptr mi) (xs @ a # ys') SYS_MEM_END_PTR" "fits h' ?lo (xs @ a # ys') ?hi"
      "view h' (xs @ a # ys') = view h xs @ collect a (unat (bsize (h a))) (view h ys)"
    using collect_spec [OF inv assms(3)] by blast
  ultimately show ?thesis
    using inv(3) by (intro exI [of _ h'] exI [of _ "xs @ a # ys'"]) (simp add: heap_inv_def)
qed

lemma free_in_view: "(\<exists>s. (b, s, 0) \<in> set (view h bs)) \<longleftrightarrow> b \<in> set bs \<and> used_cnt (h b) = 0"
  by (force simp: view_def)

lemma sys_free_spec:
  assumes "heap_inv mi h bs" and "a \<in> set bs" and "a + HDR \<noteq> 0"
    and "prv (h a) = SYS_MEM_END_PTR \<or> prv (h a) \<in> set bs"
  shows "\<exists>h' bs'. sys_free (a + HDR) h = Some h' \<and> heap_inv mi h' bs' \<and>
     view h' bs' = abs_free (prv (h a)) a (view h bs)"
proof -
  define h1 where "h1 = set_used a 0 h"
  have inv: "heap_inv mi h1 bs" using assms(1) by (simp add: heap_inv_def h1_def seg_set_used fits_set_used)
  have tag: "tag (h a) = SYS_MEM_TAG"
  proof -
    obtain xs ys where "bs = xs @ a # ys" using assms(2) by (meson split_list)
    then show ?thesis using assms(1) by (auto simp: heap_inv_def seg_append)
  qed
  have v: "view h1 bs = abs_release a (view h bs)" by (simp add: h1_def view_set_used)
  have prv: "prv (h1 a) = prv (h a)" by (simp add: h1_def set_field_defs)
  have nend: "SYS_MEM_END_PTR \<notin> set bs"
  proof
    assume "SYS_MEM_END_PTR \<in> set bs"
    then have "blk_end h SYS_MEM_END_PTR < 2 ^ 32"
      using assms(1) fits_mem(2) by (fastforce simp: heap_inv_def)
    then show False by (simp add: blk_end_def unat_END_PTR)
  qed
  have step: "sys_free (a + HDR) h = sys_mem_garbage_collect
      (if prv (h a) \<noteq> SYS_MEM_END_PTR \<and> used_cnt (h1 (prv (h a))) = 0 then prv (h a) else a) h1"
    using assms(3) tag prv by (simp add: sys_free_def Let_def h1_def)
  show ?thesis
  proof (cases "prv (h a) \<in> set bs \<and> used_cnt (h1 (prv (h a))) = 0")
    case True
    then have "prv (h a) \<noteq> SYS_MEM_END_PTR" using nend by metis
    moreover have "abs_free (prv (h a)) a (view h bs) = abs_collect (prv (h a)) (view h1 bs)"
      using True free_in_view [of "prv (h a)" h1 bs] by (simp add: abs_free_def v Let_def)
    ultimately show ?thesis using step gc_in_chain [OF inv] True by simp
  next
    case False
    then have "\<not> (prv (h a) \<noteq> SYS_MEM_END_PTR \<and> used_cnt (h1 (prv (h a))) = 0)" using assms(4) by auto
    moreover have "abs_free (prv (h a)) a (view h bs) = abs_collect a (view h1 bs)"
    proof -
      have "\<not> (\<exists>s. (prv (h a), s, 0) \<in> set (abs_release a (view h bs)))"
        using False free_in_view [of "prv (h a)" h1 bs] by (simp add: v)
      then show ?thesis unfolding abs_free_def Let_def v by (rule if_not_P)
    qed
    moreover have "used_cnt (h1 a) = 0" by (simp add: h1_def set_field_defs)
    ultimately show ?thesis using step gc_in_chain [OF inv assms(2)] by (simp del: de_Morgan_conj)
  qed
qed

section \<open>What the abstract allocator does\<close>

lemma absorb_used: "(a, s, u) \<in> set bs \<Longrightarrow> u \<noteq> 0 \<Longrightarrow> (a, s, u) \<in> set (snd (absorb t bs))"
  by (induction t bs rule: absorb.induct) auto

lemma abs_malloc_used:
  "abs_malloc n bs = (r, bs') \<Longrightarrow> (a, s, u) \<in> set bs \<Longrightarrow> u \<noteq> 0 \<Longrightarrow> (a, s, u) \<in> set bs'"
proof (induction bs arbitrary: r bs')
  case (Cons x bs)
  then show ?case
    by (cases x) (auto simp: collect_def absorb_used split: if_splits prod.splits)
qed simp

lemma abs_malloc_result:
  "abs_malloc n bs = (r, bs') \<Longrightarrow> \<forall>(a, s, u)\<in>set bs. a + 32 \<noteq> 0 \<Longrightarrow>
   (r = 0 \<longrightarrow> (\<forall>(a, s, u)\<in>set bs. u = 0 \<longrightarrow> s < unat n) \<and> bs' = bs) \<and>
   (r \<noteq> 0 \<longrightarrow> (\<exists>s. (r - 32, s, 0) \<in> set bs \<and> unat n \<le> s) \<and> (r - 32, unat n, 1) \<in> set bs')"
proof (induction bs arbitrary: r bs')
  case (Cons x bs)
  obtain a s u where x: "x = (a, s, u)" by (cases x)
  obtain r1 bs1 where ih: "abs_malloc n bs = (r1, bs1)" by (cases "abs_malloc n bs")
  show ?case
    using Cons.IH [OF ih] Cons.prems ih by (fastforce simp: x split: if_splits)
qed simp

lemma abs_malloc_first_fit:
  assumes "\<forall>(a, s, u)\<in>set xs. u \<noteq> 0 \<or> s < unat n" and "unat n \<le> s"
  shows "fst (abs_malloc n (xs @ (a, s, 0) # ys)) = a + 32"
  using assms by (induction xs) (auto split: prod.split)

lemma absorb_subset: "(a, s, u) \<in> set (snd (absorb t bs)) \<Longrightarrow> (a, s, u) \<in> set bs"
  by (induction t bs rule: absorb.induct) (auto split: if_splits)

lemma abs_collect_used:
  "(b, s, u) \<in> set bs \<Longrightarrow> u \<noteq> 0 \<Longrightarrow> b \<noteq> a \<Longrightarrow> (b, s, u) \<in> set (abs_collect a bs)"
  by (induction a bs rule: abs_collect.induct) (auto simp: collect_def absorb_used)

lemma abs_collect_subset:
  "(b, s, u) \<in> set (abs_collect a bs) \<Longrightarrow> u \<noteq> 0 \<Longrightarrow> (b, s, u) \<in> set bs"
  by (induction a bs rule: abs_collect.induct)
    (auto simp: collect_def dest: absorb_subset split: if_splits)

lemma abs_free_used_iff:
  assumes "u \<noteq> 0" and "distinct (map fst bs)"
  shows "(b, s, u) \<in> set (abs_free prev a bs) \<longleftrightarrow> (b, s, u) \<in> set bs \<and> b \<noteq> a"
proof -
  let ?r = "abs_release a bs"
  have r: "(b, s, u) \<in> set ?r \<longleftrightarrow> (b, s, u) \<in> set bs \<and> b \<noteq> a"
    using assms(1) by (force simp: abs_release_def)
  have d: "distinct (map fst ?r)"
    using assms(2) by (simp add: abs_release_def comp_def split_beta)
  have p: "b \<noteq> prev" if "(prev, t, 0) \<in> set ?r" "(b, s, u) \<in> set ?r" for t
    using that d assms(1) by (metis Pair_inject eq_key_imp_eq_value)
  have keep: "(b, s, u) \<in> set (abs_collect c ?r) \<longleftrightarrow> (b, s, u) \<in> set ?r"
    if "(b, s, u) \<in> set ?r \<Longrightarrow> b \<noteq> c" for c
    using that abs_collect_used [OF _ assms(1)] abs_collect_subset [OF _ assms(1)] by blast
  have "(b, s, u) \<in> set (abs_free prev a bs) \<longleftrightarrow> (b, s, u) \<in> set ?r"
  proof (cases "\<exists>t. (prev, t, 0) \<in> set ?r")
    case True
    then show ?thesis using keep [of prev] p by (auto simp: abs_free_def)
  next
    case False
    then show ?thesis using keep [of a] r by (simp add: abs_free_def)
  qed
  with r show ?thesis by simp
qed

lemma fits_disjoint:
  assumes "fits h lo bs hi" and "x \<in> set bs" and "y \<in> set bs" and "x \<noteq> y"
  shows "blk_end h x \<le> unat y \<or> blk_end h y \<le> unat x"
proof -
  obtain xs zs where bs: "bs = xs @ x # zs" using assms(2) by (meson split_list)
  then have "y \<in> set xs \<or> y \<in> set zs" using assms(3,4) by auto
  then show ?thesis
    using fits_before [of h lo xs x zs hi y] fits_after [of h lo xs x zs hi y] assms(1) bs by auto
qed

lemma dump_loop_spec:
  "seg h p bs SYS_MEM_END_PTR \<Longrightarrow>
   dump_loop i p h = Some (map (\<lambda>(k, b). (k, b, bsize (h b), used_cnt (h b))) (zip [i..<i + length bs] bs))"
proof (induction bs arbitrary: i p)
  case Nil
  then show ?case by (simp add: dump_loop.simps)
next
  case (Cons b bs)
  then show ?case
    using upt_conv_Cons [of i "i + length (b # bs)"] by (subst dump_loop.simps) simp
qed

lemma heap_inv_no_end: "heap_inv mi h bs \<Longrightarrow> b \<in> set bs \<Longrightarrow> unat b + 32 < 2 ^ 32"
proof -
  assume "heap_inv mi h bs" "b \<in> set bs"
  then have "blk_end h b < 2 ^ 32" using fits_mem(2) by (fastforce simp: heap_inv_def)
  then show ?thesis by (simp add: blk_end_def)
qed

lemma heap_inv_hdr: "heap_inv mi h bs \<Longrightarrow> b \<in> set bs \<Longrightarrow> unat (b + 32) = unat b + 32"
  using heap_inv_no_end by (simp add: unat_word_ariths)

lemma heap_inv_ne: "heap_inv mi h bs \<Longrightarrow> b \<in> set bs \<Longrightarrow> b + 32 \<noteq> 0"
  using heap_inv_hdr by (metis add_eq_0_iff_both_eq_0 unat_0 zero_neq_numeral)

lemma and_not_15: "a AND NOT 15 = push_bit 4 (drop_bit 4 (a :: u32))"
proof -
  have m: "(15 :: u32) = mask 4" by (simp add: mask_eq_exp_minus_1)
  show ?thesis unfolding m by (rule bit_word_eqI) (auto simp: bit_simps)
qed

lemma round16_eq: "unat (round16 n) = unat (n + 15) div 16 * 16"
proof -
  have "(n + 15) AND NOT 15 = push_bit 4 (drop_bit 4 (n + 15))" by (rule and_not_15)
  then have "round16 n = drop_bit 4 (n + 15) * 16" by (simp add: round16_def push_bit_eq_mult)
  moreover have "unat (drop_bit 4 (n + 15)) = unat (n + 15) div 16"
    by (simp add: drop_bit_eq_div unat_div)
  moreover have "unat (n + 15) div 16 * 16 < 2 ^ 32"
    using unsigned_less [of "n + 15", where 'a = nat] by simp
  ultimately show ?thesis by (simp add: unat_word_ariths)
qed

lemma round16_bounds:
  assumes "unat n < 2 ^ 32 - 15"
  shows "unat n \<le> unat (round16 n)" and "unat (round16 n) < unat n + 16" and "16 dvd unat (round16 n)"
  using assms by (simp_all add: round16_eq unat_word_ariths)

section \<open>Traces of calls\<close>

text \<open>A sequence of calls of the allocator, with the pointers the allocations returned.\<close>

datatype heap_op = Malloc u32 | Free addr

fun run_ops :: "mem_info \<Rightarrow> heap_op list \<Rightarrow> heap \<Rightarrow> (addr list \<times> heap) option" where
  "run_ops mi [] h = Some ([], h)"
| "run_ops mi (Malloc n # ops) h =
     Option.bind (sys_malloc mi n h) (\<lambda>(p, h).
       Option.bind (run_ops mi ops h) (\<lambda>(ps, h). Some (p # ps, h)))"
| "run_ops mi (Free p # ops) h = Option.bind (sys_free p h) (run_ops mi ops)"

text \<open>A heap area of the smallest size the code takes, in memory that holds zeros.\<close>

definition no_heap :: "mem_info \<times> heap" where
  "no_heap = (\<lparr>start_ptr = 0, end_ptr = 0, total_size = 0, max_alloc_size = 0, max_alloc_ptr = 0\<rparr>,
     (\<lambda>a. \<lparr>tag = 0, nxt = 0, prv = 0, bsize = 0, used_cnt = 0\<rparr>))"

definition small_heap :: "mem_info \<times> heap" where
  "small_heap = sys_init_memory 0x100000 0x40000 (fst no_heap) (snd no_heap)"

declare gc_loop.simps [code] malloc_loop.simps [code] dump_loop.simps [code]

lemma init_inv:
  assumes "\<not> sz <s SYS_MEM_MIN_SIZE" and "unat startp + unat sz < 2 ^ 32"
  shows "let (mi', h') = sys_init_memory startp sz mi h in
     heap_inv mi' h' [startp] \<and> view h' [startp] = [(startp, unat sz - 32, 0)]"
proof -
  have "sint SYS_MEM_MIN_SIZE \<le> sint sz" using assms(1) by (simp add: word_sless_alt)
  then have le: "0x40000 \<le> sint sz" by (simp add: SYS_MEM_MIN_SIZE_def)
  have "uint sz = take_bit 32 (sint sz)" using uint_sint [of sz] by simp
  also have "\<dots> = sint sz" using sint_less [of sz] le by (intro take_bit_int_eq_self) simp_all
  finally have l: "0x40000 \<le> unat sz" using le by (simp add: unat_eq_nat_uint)
  then have s: "unat (sz - HDR) = unat sz - 32" by (simp add: HDR_def unat_sub_if')
  have "startp \<noteq> SYS_MEM_END_PTR" using assms(2) l unat_END_PTR by auto
  then show ?thesis
    using assms l s by (simp add: sys_init_memory_def heap_inv_def blk_end_def)
qed

lemma malloc_inv:
  assumes "heap_inv mi h bs"
  shows "\<exists>r h' bs'. sys_malloc mi n h = Some (r, h') \<and> heap_inv mi h' bs' \<and>
     (r, view h' bs') = abs_malloc (round16 n) (view h bs)"
  using malloc_loop_spec [of h "start_ptr mi" bs "unat (start_ptr mi)"
      "unat (start_ptr mi) + unat (total_size mi)" "round16 n"] assms
  unfolding heap_inv_def sys_malloc_def by blast

lemma small_heap_inv:
  "heap_inv (fst small_heap) (snd small_heap) [0x100000]"
  "view (snd small_heap) [0x100000] = [(0x100000, 0x40000 - 32, 0)]"
proof -
  have a: "\<not> (0x40000 :: u32) <s SYS_MEM_MIN_SIZE" by (simp add: SYS_MEM_MIN_SIZE_def word_sless_alt)
  have b: "unat (0x100000 :: u32) + unat (0x40000 :: u32) < 2 ^ 32" by simp
  have c: "unat (0x40000 :: u32) = 0x40000" by simp
  note r = init_inv [OF a b, of "fst no_heap" "snd no_heap", folded small_heap_def,
      unfolded Let_def case_prod_beta c]
  show "heap_inv (fst small_heap) (snd small_heap) [0x100000]"
    by (rule conjunct1 [OF r])
  show "view (snd small_heap) [0x100000] = [(0x100000, 0x40000 - 32, 0)]"
    by (rule conjunct2 [OF r])
qed

definition stale_trace :: "heap_op list" where
  "stale_trace =
     [Malloc 512, Malloc 1200, Malloc 512, Free 0x100240, Malloc 512, Malloc 656,
      Free 0x100240, Free 0x100020, Malloc 1056, Free 0x100460, Free 0x100710, Malloc 64]"

lemma malloc_fresh:
  assumes "heap_inv mi h bs" and "unat n < 2 ^ 32 - 15"
  shows "\<exists>r h' bs'. sys_malloc mi n h = Some (r, h') \<and> heap_inv mi h' bs' \<and>
     (r = 0 \<longrightarrow> (\<forall>b\<in>set bs. used_cnt (h b) = 0 \<longrightarrow> unat (bsize (h b)) < unat (round16 n)) \<and>
        view h' bs' = view h bs) \<and>
     (r \<noteq> 0 \<longrightarrow> unat n \<le> unat (round16 n) \<and>
        unat (start_ptr mi) + 32 \<le> unat r \<and>
        unat r + unat (round16 n) \<le> unat (start_ptr mi) + unat (total_size mi) \<and>
        r - 32 \<in> set bs \<and> used_cnt (h (r - 32)) = 0 \<and>
        r - 32 \<in> set bs' \<and> used_cnt (h' (r - 32)) = 1 \<and>
        (\<forall>b\<in>set bs' - {r - 32}. blk_end h' b \<le> unat r - 32 \<or> unat r + unat (round16 n) \<le> unat b)) \<and>
     (\<forall>b\<in>set bs. used_cnt (h b) \<noteq> 0 \<longrightarrow>
        b \<in> set bs' \<and> used_cnt (h' b) = used_cnt (h b) \<and> bsize (h' b) = bsize (h b))"
proof -
  obtain r h' bs' where r: "sys_malloc mi n h = Some (r, h')" "heap_inv mi h' bs'"
      "abs_malloc (round16 n) (view h bs) = (r, view h' bs')"
    using malloc_inv [OF assms(1)] by metis
  have mem: "(b, s, u) \<in> set (view k cs) \<longleftrightarrow> b \<in> set cs \<and> s = unat (bsize (k b)) \<and> u = used_cnt (k b)"
    for b s u k cs by (auto simp: view_def)
  have "\<forall>(a, s, u)\<in>set (view h bs). a + 32 \<noteq> 0" using heap_inv_ne [OF assms(1)] by (auto simp: mem)
  note res = abs_malloc_result [OF r(3) this]
  have old: "b \<in> set bs' \<and> used_cnt (h' b) = used_cnt (h b) \<and> bsize (h' b) = bsize (h b)"
    if "b \<in> set bs" "used_cnt (h b) \<noteq> 0" for b
  proof -
    have "(b, unat (bsize (h b)), used_cnt (h b)) \<in> set (view h' bs')"
      using that by (intro abs_malloc_used [OF r(3)]) (simp_all add: mem)
    then show ?thesis by (auto simp: mem word_unat_eq_iff)
  qed
  have new: "unat (start_ptr mi) + 32 \<le> unat r \<and>
      unat r + unat (round16 n) \<le> unat (start_ptr mi) + unat (total_size mi) \<and>
      r - 32 \<in> set bs \<and> used_cnt (h (r - 32)) = 0 \<and> r - 32 \<in> set bs' \<and> used_cnt (h' (r - 32)) = 1 \<and>
      (\<forall>b\<in>set bs' - {r - 32}. blk_end h' b \<le> unat r - 32 \<or> unat r + unat (round16 n) \<le> unat b)"
    if "r \<noteq> 0"
  proof -
    have in': "r - 32 \<in> set bs'" "unat (bsize (h' (r - 32))) = unat (round16 n)" "used_cnt (h' (r - 32)) = 1"
      and in0: "r - 32 \<in> set bs" "used_cnt (h (r - 32)) = 0"
      using res that by (auto simp: mem)
    have u: "unat r = unat (r - 32) + 32" using heap_inv_hdr [OF r(2) in'(1)] by simp
    have e: "blk_end h' (r - 32) = unat r + unat (round16 n)" using in'(2) u by (simp add: blk_end_def)
    note f = conjunct1 [OF conjunct2 [OF r(2) [unfolded heap_inv_def]]]
    show ?thesis
      using fits_mem [OF f in'(1)] fits_disjoint [OF f _ in'(1)] in' in0 u e by auto
  qed
  have null: "(\<forall>b\<in>set bs. used_cnt (h b) = 0 \<longrightarrow> unat (bsize (h b)) < unat (round16 n)) \<and> view h' bs' = view h bs"
    if "r = 0" using res that unfolding view_def by auto
  show ?thesis
    using r(1,2) old new null round16_bounds(1) [OF assms(2)] by blast
qed

section \<open>Properties\<close>

text \<open>\<open>sys_init_memory\<close> of an area that is not too small makes the invariant hold: one free
  block that takes the whole area but its header.\<close>

lemma sys_init_memory_inv:
  assumes "\<not> sz <s SYS_MEM_MIN_SIZE" and "unat startp + unat sz < 2 ^ 32"
  shows "let (mi', h') = sys_init_memory startp sz mi h in
     heap_inv mi' h' [startp] \<and> view h' [startp] = [(startp, unat sz - 32, 0)]"
  using assms by (rule init_inv)

lemma sys_init_memory_inv_example:
  "heap_inv (fst small_heap) (snd small_heap) [0x100000]"
proof -
  have a: "\<not> (0x40000 :: u32) <s SYS_MEM_MIN_SIZE" by (simp add: SYS_MEM_MIN_SIZE_def word_sless_alt)
  have b: "unat (0x100000 :: u32) + unat (0x40000 :: u32) < 2 ^ 32" by simp
  show ?thesis
    using sys_init_memory_inv [OF a b, of "fst no_heap" "snd no_heap"]
    unfolding small_heap_def Let_def case_prod_beta by blast
qed

text \<open>C1. \<open>sys_malloc\<close> terminates on every heap that satisfies the invariant, keeps the invariant,
  and implements first fit: pointer and new list of blocks are those of \<open>abs_malloc\<close> for the size
  rounded up to a multiple of 16.\<close>

theorem sys_malloc_refines:
  assumes "heap_inv mi h bs"
  shows "\<exists>r h' bs'. sys_malloc mi n h = Some (r, h') \<and> heap_inv mi h' bs' \<and>
     (r, view h' bs') = abs_malloc (round16 n) (view h bs)"
  using assms by (rule malloc_inv)

theorem sys_malloc_refines_witness:
  "\<exists>r h' bs'. sys_malloc (fst small_heap) 1000 (snd small_heap) = Some (r, h') \<and>
     heap_inv (fst small_heap) h' bs' \<and> (r, view h' bs') = (0x100020, [(0x100000, 1008, 1), (0x100410, 261072, 0)])"
proof -
  have "abs_malloc (round16 1000) (view (snd small_heap) [0x100000]) =
      (0x100020, [(0x100000, 1008, 1), (0x100410, 261072, 0)])"
    unfolding small_heap_inv(2) by (simp add: round16_def collect_def)
  then show ?thesis using sys_malloc_refines [OF small_heap_inv(1), of 1000] by (simp only:)
qed

text \<open>C21. What a caller gets from \<open>sys_malloc\<close>.  A null pointer means that no free block is large
  enough, and then nothing has changed.  Any other result is a region inside the area, of at least
  the rounded size, that with its header is disjoint from every other block of the heap, in use or
  free; the blocks in use before are all still there, at the same place and of the same size.\<close>

theorem sys_malloc_fresh:
  assumes "heap_inv mi h bs" and "unat n < 2 ^ 32 - 15"
  shows "\<exists>r h' bs'. sys_malloc mi n h = Some (r, h') \<and> heap_inv mi h' bs' \<and>
     (r = 0 \<longrightarrow> (\<forall>b\<in>set bs. used_cnt (h b) = 0 \<longrightarrow> unat (bsize (h b)) < unat (round16 n)) \<and>
        view h' bs' = view h bs) \<and>
     (r \<noteq> 0 \<longrightarrow> unat n \<le> unat (round16 n) \<and>
        unat (start_ptr mi) + 32 \<le> unat r \<and>
        unat r + unat (round16 n) \<le> unat (start_ptr mi) + unat (total_size mi) \<and>
        r - 32 \<in> set bs \<and> used_cnt (h (r - 32)) = 0 \<and>
        r - 32 \<in> set bs' \<and> used_cnt (h' (r - 32)) = 1 \<and>
        (\<forall>b\<in>set bs' - {r - 32}. blk_end h' b \<le> unat r - 32 \<or> unat r + unat (round16 n) \<le> unat b)) \<and>
     (\<forall>b\<in>set bs. used_cnt (h b) \<noteq> 0 \<longrightarrow>
        b \<in> set bs' \<and> used_cnt (h' b) = used_cnt (h b) \<and> bsize (h' b) = bsize (h b))"
  using assms by (rule malloc_fresh)

theorem sys_malloc_fresh_witness:
  "\<exists>r h' bs'. sys_malloc (fst small_heap) 1000 (snd small_heap) = Some (r, h') \<and>
     heap_inv (fst small_heap) h' bs' \<and> (r = 0 \<longrightarrow> view h' bs' = [(0x100000, 0x40000 - 32, 0)])"
  using sys_malloc_fresh [OF small_heap_inv(1), of 1000] small_heap_inv(2) by fastforce

text \<open>C2. \<open>sys_free\<close> of a block of the heap, while the block its \<open>prev\<close> field names is still a block
  of the heap, terminates, keeps the invariant and implements \<open>abs_free\<close>: the block is free
  afterwards, and the blocks in use are exactly the other ones that were in use, unmoved.\<close>

theorem sys_free_refines:
  assumes "heap_inv mi h bs" and "a \<in> set bs"
    and "prv (h a) = SYS_MEM_END_PTR \<or> prv (h a) \<in> set bs"
  shows "\<exists>h' bs'. sys_free (a + HDR) h = Some h' \<and> heap_inv mi h' bs' \<and>
     view h' bs' = abs_free (prv (h a)) a (view h bs) \<and>
     (\<forall>b s u. u \<noteq> 0 \<longrightarrow> (b, s, u) \<in> set (view h' bs') \<longleftrightarrow> (b, s, u) \<in> set (view h bs) \<and> b \<noteq> a)"
proof -
  have "map fst (view h bs) = bs" by (simp add: view_def comp_def)
  moreover have "distinct bs" using assms(1) fits_distinct unfolding heap_inv_def by blast
  ultimately have d: "distinct (map fst (view h bs))" by simp
  have "a + HDR \<noteq> 0" using heap_inv_ne [OF assms(1,2)] by (simp add: HDR_def)
  then obtain h' bs' where "sys_free (a + HDR) h = Some h'" "heap_inv mi h' bs'"
      "view h' bs' = abs_free (prv (h a)) a (view h bs)"
    using sys_free_spec [OF assms(1,2) _ assms(3)] by blast
  then show ?thesis using abs_free_used_iff [OF _ d] by (intro exI [of _ h'] exI [of _ bs']) simp
qed

lemma small_heap_prv: "prv (snd small_heap 0x100000) = SYS_MEM_END_PTR"
  by (simp add: small_heap_def sys_init_memory_def SYS_MEM_MIN_SIZE_def word_sless_alt)

theorem sys_free_refines_witness:
  "\<exists>h' bs'. sys_free (0x100000 + HDR) (snd small_heap) = Some h' \<and> heap_inv (fst small_heap) h' bs'"
  using sys_free_refines [OF small_heap_inv(1), of "0x100000"] small_heap_prv by auto

text \<open>The \<open>prev\<close> field can go stale, and then a correct sequence of calls destroys the heap: a
  split does not update the \<open>prev\<close> of the block behind the new one.  Every pointer released below
  is the result of an earlier \<open>sys_malloc\<close> and released once, and at the end one block of 1056
  bytes is in use out of 256 KB, yet \<open>sys_malloc\<close> of 64 bytes returns a null pointer, because the
  chain leads to a header whose tag the last \<open>sys_free\<close> has cleared.\<close>

lemma sys_free_stale_prev:
  "map_option (\<lambda>(ps, h). (ps, dump_malloc_list (fst small_heap) h))
      (run_ops (fst small_heap) stale_trace (snd small_heap)) =
   Some ([0x100020, 0x100240, 0x100710, 0x100240, 0x100460, 0x100020, 0],
         Some [(1, 0x100000, 1056, 1)])"
  unfolding stale_trace_def by code_simp

text \<open>A block that is used up to at most 64 bytes is not split, and the remainder is lost for
  good: the size of the block is set to the size asked for, so after the release of the block the
  heap is empty and the block that could be allocated before can be allocated no more.\<close>

lemma sys_malloc_loses_remainder:
  "map_option fst (run_ops (fst small_heap) [Malloc 262112, Free 0x100020] (snd small_heap)) = Some [0x100020] \<and>
   map_option fst (run_ops (fst small_heap)
      [Malloc 262048, Free 0x100020, Malloc 262112] (snd small_heap)) = Some [0x100020, 0]"
  by code_simp

text \<open>On a heap that satisfies the invariant \<open>dump_malloc_list\<close> ends and prints every block
  once, in address order, numbered from 1, with its size and use count.\<close>

lemma dump_malloc_list_rows:
  assumes "heap_inv mi h bs"
  shows "dump_malloc_list mi h =
     Some (map (\<lambda>(k, b). (k, b, bsize (h b), used_cnt (h b))) (zip [1..<1 + length bs] bs)) \<and>
     sorted_wrt (\<lambda>a b. a < b) bs"
proof
  show "dump_malloc_list mi h =
     Some (map (\<lambda>(k, b). (k, b, bsize (h b), used_cnt (h b))) (zip [1..<1 + length bs] bs))"
    using assms unfolding dump_malloc_list_def heap_inv_def by (intro dump_loop_spec) simp
  have "sorted_wrt (\<lambda>a b. a < b) cs" if "fits h lo cs hi" for lo cs hi
    using that
  proof (induction cs arbitrary: lo)
    case (Cons c cs)
    then have "c < b" if "b \<in> set cs" for b
      using fits_mem(1) [of h "blk_end h c" cs hi b] blk_end_gt [of c h] that by (simp add: word_less_nat_alt)
    with Cons show ?case by auto
  qed simp
  then show "sorted_wrt (\<lambda>a b. a < b) bs" using assms unfolding heap_inv_def by blast
qed

lemma dump_malloc_list_rows_example:
  "dump_malloc_list (fst small_heap) (snd small_heap) = Some [(1, 0x100000, 262112, 0)]"
proof -
  have "bsize (snd small_heap 0x100000) = 262112" "used_cnt (snd small_heap 0x100000) = 0"
    by (simp_all add: small_heap_def sys_init_memory_def SYS_MEM_MIN_SIZE_def word_sless_alt HDR_def)
  then show ?thesis
    using dump_malloc_list_rows [OF small_heap_inv(1)] by simp
qed

end
