(* ===== verification/Chksum.thy ===== *)
theory Chksum
  imports Prelude
begin

text \<open>
  The Internet checksum of \<open>src/src/net/chksum.h\<close>, the byte-order macros of \<open>src/inc/net.h\<close> and the
  address predicates of \<open>src/src/net/ip.c\<close>.

  The checksum routine sums little-endian halfwords in an \<open>int\<close>, folds once and returns the
  complement with its bytes swapped; the lemmas reduce it to a sum of naturals modulo 65535, from
  which the properties of the one's complement sum follow: a block with its checksum filled in
  checks to 0, and a block that checks to 0 does so no longer when one halfword is changed by
  anything but a multiple of 65535.
\<close>

section \<open>The code\<close>

definition ntohs :: "u16 \<Rightarrow> u16" where
  "ntohs x = push_bit 8 (x AND 0x00ff) OR drop_bit 8 (x AND 0xff00)"

definition htons :: "u16 \<Rightarrow> u16" where "htons x = ntohs x"

definition ntohl :: "u32 \<Rightarrow> u32" where
  "ntohl x = push_bit 24 (x AND 0x000000ff) OR push_bit 8 (x AND 0x0000ff00)
     OR drop_bit 8 (x AND 0x00ff0000) OR drop_bit 24 (x AND 0xff000000)"

definition htonl :: "u32 \<Rightarrow> u32" where "htonl x = ntohl x"

text \<open>The summing loop and the odd byte; \<open>len\<close> is the \<open>int\<close> length, negative ones run no step.\<close>

fun csum_loop :: "mem \<Rightarrow> addr \<Rightarrow> nat \<Rightarrow> u32 \<Rightarrow> u32" where
  "csum_loop m w 0 acc = acc"
| "csum_loop m w (Suc 0) acc = acc + ucast (m w)"
| "csum_loop m w (Suc (Suc n)) acc = csum_loop m (w + 2) n (acc + ucast (mem_le16 m w))"

definition ip_csum :: "mem \<Rightarrow> addr \<Rightarrow> u32 \<Rightarrow> u32 \<Rightarrow> u16" where
  "ip_csum m w len init_sum =
     (let acc = csum_loop m w (nat (sint len)) init_sum;
          acc = (acc AND 0xffff) + drop_bit 16 acc;
          acc = (if 65535 < acc then acc - 65535 else acc);
          s = NOT (ucast acc :: u16)
      in push_bit 8 (s AND 0xff) OR drop_bit 8 s)"

definition ip_verify_addr :: "u32 \<Rightarrow> int" where
  "ip_verify_addr ipaddr =
     (if ipaddr AND 0x000000ff = 0 then -1
      else if ipaddr AND 0x80000000 = 0 then
        (let net_id = ipaddr AND 0x7f000000; host_id = ipaddr AND 0x00ffffff in
         if net_id = 0x7f000000 \<or> net_id = 0 \<or> host_id = 0x00ffffff \<or> host_id = 0 then -1 else 0)
      else if ipaddr AND 0xc0000000 = 0x80000000 then
        (let net_id = ipaddr AND 0x3fff0000; host_id = ipaddr AND 0x0000ffff in
         if net_id = 0 \<or> host_id = 0x0000ffff \<or> host_id = 0 then -1 else 0)
      else if ipaddr AND 0xe0000000 = 0xc0000000 then
        (let net_id = ipaddr AND 0x1fffff00; host_id = ipaddr AND 0x000000ff in
         if net_id = 0 \<or> host_id = 0x000000ff \<or> host_id = 0 then -1 else 0)
      else -1)"

text \<open>The loop of \<open>ip_verify_netmask\<close> with \<open>n\<close> rounds to go.\<close>

fun netmask_loop :: "u32 \<Rightarrow> u32 \<Rightarrow> nat \<Rightarrow> int" where
  "netmask_loop netmask j 0 = -1"
| "netmask_loop netmask j (Suc n) = (if netmask = j then 0 else netmask_loop netmask (push_bit 1 j) n)"

definition ip_verify_netmask :: "u32 \<Rightarrow> int" where
  "ip_verify_netmask netmask =
     (let j = 0xffffffff in if netmask = j then -1 else netmask_loop netmask j 33)"

section \<open>Byte order\<close>

lemma ntohs_eq: "ntohs x = push_bit 8 x OR drop_bit 8 x"
proof -
  have a: "(0x00ff :: u16) = mask 8" by (simp add: mask_eq_exp_minus_1)
  have b: "(0xff00 :: u16) = push_bit 8 (mask 8)" by (simp add: mask_eq_exp_minus_1 push_bit_eq_mult)
  show ?thesis unfolding ntohs_def a b
  proof (rule bit_word_eqI)
    fix n assume "n < LENGTH(16)"
    show "bit (push_bit 8 (x AND mask 8) OR drop_bit 8 (x AND push_bit 8 (mask 8))) n =
        bit (push_bit 8 x OR drop_bit 8 x) n"
    proof (cases "n < 8")
      case False
      then have "\<not> bit x (8 + n)" using bit_imp_le_length [of x "8 + n"] by auto
      with False \<open>n < LENGTH(16)\<close> show ?thesis by (simp add: bit_simps) arith
    qed (simp add: bit_simps)
  qed
qed

lemma ntohs_ntohs [simp]: "ntohs (ntohs x) = x"
proof (rule bit_word_eqI)
  fix n assume "n < LENGTH(16)"
  show "bit (ntohs (ntohs x)) n = bit x n"
  proof (cases "n < 8")
    case False
    then have "\<not> bit x (8 + n)" using bit_imp_le_length [of x "8 + n"] by auto
    with False \<open>n < LENGTH(16)\<close> show ?thesis by (simp add: ntohs_eq bit_simps)
  qed (simp add: ntohs_eq bit_simps)
qed

lemma htons_ntohs [simp]: "htons (ntohs x) = x" "ntohs (htons x) = x"
  by (simp_all add: htons_def)

section \<open>The sum\<close>

text \<open>The sum of the halfwords of a block, an odd last byte being the low byte of the last one.\<close>

fun bsum :: "u8 list \<Rightarrow> nat" where
  "bsum [] = 0"
| "bsum [a] = unat a"
| "bsum (a # b # bs) = unat a + 256 * unat b + bsum bs"

lemma bsum_append: "even (length xs) \<Longrightarrow> bsum (xs @ ys) = bsum xs + bsum ys"
  by (induction xs rule: bsum.induct) auto

lemma bsum_bound: "bsum bs \<le> 32768 * length bs + 32768"
proof (induction bs rule: bsum.induct)
  case (2 a)
  show ?case using unat_less_256 [of a] unfolding bsum.simps by linarith
next
  case (3 a b bs)
  then show ?case using unat_less_256 [of a] unat_less_256 [of b] unfolding bsum.simps length_Cons mult_Suc_right by arith
qed simp

lemma unat_le16: "unat (mem_le16 m w) = unat (m w) + 256 * unat (m (w + 1))"
proof -
  have e: "mem_le16 m w = ucast (m w) + push_bit 8 (ucast (m (w + 1)))"
    unfolding mem_le16_def by (intro disjunctive_add [symmetric]) (auto simp: bit_simps dest: bit_imp_le_length)
  show ?thesis
  proof -
    have t: "take_bit 16 (unat (x :: u8)) = unat x" for x
      by (rule take_bit_nat_eq_self) (rule less_trans [OF unat_less_256], simp)
    have "unat (m w) < 256" "unat (m (w + 1)) < 256" by (rule unat_less_256)+
    then have "unat (m w) + unat (m (w + 1)) * 256 < 65536" by arith
    then show ?thesis
      using e by (simp add: push_bit_eq_mult unat_word_ariths unsigned_ucast_eq t)
  qed
qed

lemma csum_loop_bsum: "csum_loop m w n s = s + of_nat (bsum (mem_bytes m w n))"
proof (induction m w n s rule: csum_loop.induct)
  case (3 m w n s)
  have "(ucast (mem_le16 m w) :: u32) = of_nat (unat (mem_le16 m w))" by simp
  then show ?case using 3 by (simp add: unat_le16 add.assoc)
qed simp_all

text \<open>The single fold and the conditional subtraction.\<close>

definition fold16 :: "nat \<Rightarrow> nat" where
  "fold16 v = (let s = v mod 65536 + v div 65536 in if 65535 < s then s - 65535 else s)"

lemma fold16_bounds:
  assumes "v < 2 ^ 32"
  shows "fold16 v \<le> 65535" and "fold16 v mod 65535 = v mod 65535" and "fold16 v = 0 \<longleftrightarrow> v = 0"
proof -
  have d: "v div 65536 \<le> 65535" using assms by simp
  have m: "v mod 65536 \<le> 65535" by (simp add: less_Suc_eq_le [symmetric])
  show "fold16 v \<le> 65535" using d m unfolding fold16_def Let_def by (auto split: if_split)
  have "v = (v mod 65536 + v div 65536) + 65535 * (v div 65536)" by simp
  then have e: "v mod 65535 = (v mod 65536 + v div 65536) mod 65535" by (metis mod_mult_self2)
  show "fold16 v mod 65535 = v mod 65535"
  proof (cases "65535 < v mod 65536 + v div 65536")
    case True
    then show ?thesis by (simp add: fold16_def Let_def e) (metis le_mod_geq less_imp_le_nat)
  qed (simp add: fold16_def e)
  show "fold16 v = 0 \<longleftrightarrow> v = 0"
    by (auto simp: fold16_def Let_def split: if_splits)
qed

lemma unat_fold:
  "unat (let a = (acc AND 0xffff) + drop_bit 16 acc in if 65535 < a then a - 65535 else a :: u32) =
   fold16 (unat acc)"
proof -
  define a where "a = (acc AND 0xffff) + drop_bit 16 acc"
  have v: "unat acc < 2 ^ 32" using unsigned_less [of acc, where 'a = nat] by simp
  have "acc AND 0xffff = take_bit 16 acc" by (simp add: take_bit_eq_mask mask_eq_exp_minus_1)
  then have lo: "unat (acc AND 0xffff) = unat acc mod 65536"
    by (simp only: unsigned_take_bit_eq) (simp add: take_bit_eq_mod)
  have hi: "unat (drop_bit 16 acc) = unat acc div 65536" by (simp add: drop_bit_eq_div unat_div)
  have d: "unat acc div 65536 \<le> 65535" "unat acc mod 65536 \<le> 65535"
    using v by (simp_all add: less_Suc_eq_le [symmetric])
  then have ua: "unat a = unat acc mod 65536 + unat acc div 65536"
    by (simp add: a_def unat_word_ariths lo hi)
  have "65535 < a \<longleftrightarrow> 65535 < unat a" by (simp add: word_less_nat_alt)
  then show ?thesis
    using ua by (auto simp: fold16_def Let_def a_def [symmetric] unat_sub_if')
qed

lemma ip_csum_eq:
  "ip_csum m w len init = ntohs (NOT (of_nat (fold16 (unat (init + of_nat (bsum (mem_bytes m w (nat (sint len)))))))))"
proof -
  have sw: "push_bit 8 (s AND 0xff) OR drop_bit 8 s = ntohs s" for s :: u16
  proof -
    have a: "(0xff :: u16) = mask 8" by (simp add: mask_eq_exp_minus_1)
    show ?thesis unfolding ntohs_eq a by (rule bit_word_eqI) (auto simp: bit_simps)
  qed
  define acc where "acc = init + of_nat (bsum (mem_bytes m w (nat (sint len))))"
  define f where "f = (let a = (acc AND 0xffff) + drop_bit 16 acc in if 65535 < a then a - 65535 else a)"
  have "ip_csum m w len init = ntohs (NOT (ucast f))"
    unfolding ip_csum_def csum_loop_bsum acc_def [symmetric] f_def Let_def sw ..
  also have "ucast f = (of_nat (unat f) :: u16)" by simp
  also have "unat f = fold16 (unat acc)" unfolding f_def by (rule unat_fold)
  finally show ?thesis unfolding acc_def .
qed

lemma ntohs_eq_0_iff: "ntohs x = 0 \<longleftrightarrow> x = 0"
proof
  assume "ntohs x = 0"
  then have "ntohs (ntohs x) = ntohs 0" by (rule arg_cong)
  then show "x = 0" unfolding ntohs_ntohs by (simp add: ntohs_def)
qed (simp add: ntohs_def)

text \<open>The block sums to 0 exactly when the sum is a positive multiple of 65535.\<close>

lemma ip_csum_zero_iff:
  assumes "unat len < 2 ^ 16"
  shows "ip_csum m w len 0 = 0 \<longleftrightarrow>
    bsum (mem_bytes m w (unat len)) mod 65535 = 0 \<and> bsum (mem_bytes m w (unat len)) \<noteq> 0"
proof -
  let ?v = "bsum (mem_bytes m w (unat len))"
  have n: "nat (sint len) = unat len" using assms by (intro nat_sint_small) simp
  have "?v \<le> 32768 * unat len + 32768" using bsum_bound [of "mem_bytes m w (unat len)"] by simp
  then have v: "?v < 2 ^ 32" using assms by simp
  then have u: "unat (0 + of_nat ?v :: u32) = ?v" by (simp add: unat_of_nat)
  have "ip_csum m w len 0 = 0 \<longleftrightarrow> (of_nat (fold16 ?v) :: u16) = - 1"
    unfolding ip_csum_eq n u ntohs_eq_0_iff by (metis bit.compl_zero bit.double_compl)
  also have "\<dots> \<longleftrightarrow> fold16 ?v = 65535"
  proof -
    have e: "(- 1 :: u16) = of_nat 65535" by simp
    show ?thesis unfolding e
      by (rule word_of_nat_eq_iff_less) (use fold16_bounds(1) [OF v] in simp_all)
  qed
  also have "\<dots> \<longleftrightarrow> ?v mod 65535 = 0 \<and> ?v \<noteq> 0"
    using fold16_bounds [OF v] by (metis (no_types) le_neq_implies_less mod_less mod_self zero_neq_numeral)
  finally show ?thesis .
qed

section \<open>Little-endian stores\<close>

definition put16 :: "mem \<Rightarrow> addr \<Rightarrow> u16 \<Rightarrow> mem" where
  "put16 m p v = m(p := ucast v, p + 1 := ucast (drop_bit 8 v))"

definition put32 :: "mem \<Rightarrow> addr \<Rightarrow> u32 \<Rightarrow> mem" where
  "put32 m p v = m(p := ucast v, p + 1 := ucast (drop_bit 8 v),
     p + 2 := ucast (drop_bit 16 v), p + 3 := ucast (drop_bit 24 v))"

lemma ucast_halves: "unat (ucast v :: u8) + 256 * unat (ucast (drop_bit 8 v) :: u8) = unat (v :: u16)"
proof -
  have v: "unat v < 65536" using unsigned_less [of v, where 'a = nat] by simp
  have "unat (ucast v :: u8) = unat v mod 256"
    by (simp add: unsigned_ucast_eq take_bit_eq_mod)
  moreover have "unat (ucast (drop_bit 8 v) :: u8) = unat v div 256"
    using v by (simp add: unsigned_ucast_eq take_bit_eq_mod drop_bit_eq_div unat_div)
  ultimately show ?thesis by simp
qed

lemma put16_bytes:
  assumes "Suc k < n" and "n \<le> 2 ^ 32"
  shows "mem_bytes (put16 m (p + of_nat k) v) p n =
    (mem_bytes m p n)[k := ucast v, Suc k := ucast (drop_bit 8 v)]"
proof -
  have e: "p + of_nat k + 1 = p + of_nat (Suc k)" by (simp add: algebra_simps)
  show ?thesis
    unfolding put16_def e using assms by (subst mem_bytes_upd, simp, simp, subst mem_bytes_upd, simp_all)
qed

lemma bsum_field:
  assumes "even k" and "Suc k < length bs"
  shows "bsum (bs[k := ucast v, Suc k := ucast (drop_bit 8 v)]) + (unat (bs ! k) + 256 * unat (bs ! Suc k)) =
    bsum bs + unat (v :: u16)"
proof -
  obtain xs a b ys where bs: "bs = xs @ a # b # ys" and l: "length xs = k"
  proof (rule that)
    show "bs = take k bs @ bs ! k # bs ! Suc k # drop (Suc (Suc k)) bs"
      using assms by (metis Cons_nth_drop_Suc Suc_lessD append_take_drop_id)
  qed (use assms(2) in simp)
  have "bs[k := ucast v, Suc k := ucast (drop_bit 8 v)] = xs @ ucast v # ucast (drop_bit 8 v) # ys"
    unfolding bs l [symmetric] by (simp add: list_update_append)
  moreover have "bs ! k = a" "bs ! Suc k = b" by (simp_all add: bs l [symmetric] nth_append)
  ultimately show ?thesis
    using bsum_append [of xs] ucast_halves [of v] l assms(1) by (simp add: bs)
qed

lemma netmask_loop_iff:
  "netmask_loop nm (push_bit k j) n = 0 \<longleftrightarrow> (\<exists>i<n. nm = push_bit (k + i) j)"
proof (induction n arbitrary: k)
  case (Suc n)
  have "netmask_loop nm (push_bit (Suc k) j) n = 0 \<longleftrightarrow> (\<exists>i<n. nm = push_bit (k + Suc i) j)"
    using Suc [of "Suc k"] by simp
  then show ?case by (auto simp: less_Suc_eq_0_disj)
qed simp

section \<open>Properties\<close>

text \<open>C32. A checksum that is filled in checks.  For every block of less than 64 KB with a zero
  checksum field at an even offset, storing \<open>htons\<close> of the block's checksum in the field makes the
  checksum of the block 0; this is what \<open>ip_output\<close>, \<open>icmp_input\<close> and \<open>icmp_ping\<close> do and what
  \<open>ip_input\<close> and \<open>icmp_input\<close> test.\<close>

theorem ip_csum_fill:
  assumes "unat len < 2 ^ 16" and "even k" and "Suc k < unat len"
    and "m (p + of_nat k) = 0" and "m (p + of_nat (Suc k)) = 0"
  shows "ip_csum (put16 m (p + of_nat k) (htons (ip_csum m p len 0))) p len 0 = 0"
proof -
  let ?bs = "mem_bytes m p (unat len)"
  define r where "r = fold16 (bsum ?bs)"
  have "bsum ?bs \<le> 32768 * unat len + 32768" using bsum_bound [of ?bs] by simp
  then have v: "bsum ?bs < 2 ^ 32" using assms(1) by simp
  then have u: "unat (0 + of_nat (bsum ?bs) :: u32) = bsum ?bs" by (simp add: unat_of_nat)
  have n: "nat (sint len) = unat len" using assms(1) by (intro nat_sint_small) simp
  have f: "htons (ip_csum m p len 0) = NOT (of_nat r)"
    by (simp only: htons_def ip_csum_eq n u ntohs_ntohs r_def)
  have r: "r \<le> 65535" "r mod 65535 = bsum ?bs mod 65535" "r = 0 \<longleftrightarrow> bsum ?bs = 0"
    unfolding r_def by (rule fold16_bounds [OF v])+
  have ur: "unat (NOT (of_nat r) :: u16) = 65535 - r"
  proof -
    have "(of_nat (65535 - r) :: u16) = NOT (of_nat r)"
      using r(1) by (simp add: of_nat_diff not_eq_complement)
    then have "unat (NOT (of_nat r) :: u16) = unat (of_nat (65535 - r) :: u16)" by simp
    also have "\<dots> = 65535 - r" by (subst unat_of_nat) simp
    finally show ?thesis .
  qed
  have "mem_bytes (put16 m (p + of_nat k) (NOT (of_nat r))) p (unat len) =
      ?bs[k := ucast (NOT (of_nat r) :: u16), Suc k := ucast (drop_bit 8 (NOT (of_nat r)) :: u16)]"
    using assms(3) unsigned_less [of len, where 'a = nat] by (intro put16_bytes) simp_all
  moreover have "?bs ! k = 0" "?bs ! Suc k = 0" using assms(3-5) by (simp_all add: nth_mem_bytes del: of_nat_Suc)
  ultimately have "bsum (mem_bytes (put16 m (p + of_nat k) (NOT (of_nat r))) p (unat len)) = bsum ?bs + (65535 - r)"
    using bsum_field [of k ?bs "NOT (of_nat r)"] assms(2,3) ur by simp
  moreover have "(bsum ?bs + (65535 - r)) mod 65535 = 0"
  proof -
    have "(bsum ?bs + (65535 - r)) mod 65535 = (r + (65535 - r)) mod 65535"
      using r(2) by (metis mod_add_left_eq)
    then show ?thesis using r(1) by simp
  qed
  moreover have "bsum ?bs + (65535 - r) \<noteq> 0" using r by auto
  ultimately show ?thesis using ip_csum_zero_iff [OF assms(1)] by (simp only: f) simp
qed

theorem ip_csum_fill_witness:
  "ip_csum (put16 ((\<lambda>_. 7)(0x102 := 0, 0x103 := 0)) 0x102 (htons (ip_csum ((\<lambda>_. 7)(0x102 := 0, 0x103 := 0)) 0x100 5 0)))
     0x100 5 0 = 0"
  using ip_csum_fill [of 5 2 "(\<lambda>_. 7)(0x102 := 0, 0x103 := 0)" "0x100"] by simp

text \<open>The checksum detects the corruption of a halfword: in a block that checks, replacing the
  halfword at an even offset by a different one makes the checksum nonzero, unless all zeros are
  replaced by all ones or conversely, which the one's complement sum cannot tell apart.\<close>

lemma ip_csum_detects:
  assumes "unat len < 2 ^ 16" and "even k" and "Suc k < unat len" and "ip_csum m p len 0 = 0"
    and "v \<noteq> mem_le16 m (p + of_nat k)"
    and "{v, mem_le16 m (p + of_nat k)} \<noteq> {0, 0xffff}"
  shows "ip_csum (put16 m (p + of_nat k) v) p len 0 \<noteq> 0"
proof
  let ?bs = "mem_bytes m p (unat len)" and ?m = "put16 m (p + of_nat k) v"
  define old where "old = mem_le16 m (p + of_nat k)"
  assume "ip_csum ?m p len 0 = 0"
  then have z: "bsum (mem_bytes ?m p (unat len)) mod 65535 = 0" and z0: "bsum ?bs mod 65535 = 0"
    using assms(4) ip_csum_zero_iff [OF assms(1)] by simp_all
  have "mem_bytes ?m p (unat len) = ?bs[k := ucast v, Suc k := ucast (drop_bit 8 v)]"
    using assms(3) unsigned_less [of len, where 'a = nat] by (intro put16_bytes) simp_all
  moreover have "unat (?bs ! k) + 256 * unat (?bs ! Suc k) = unat old"
    using assms(3) by (simp add: nth_mem_bytes old_def unat_le16 add.assoc [symmetric]) (simp add: algebra_simps)
  ultimately have s: "bsum (mem_bytes ?m p (unat len)) + unat old = bsum ?bs + unat v"
    using bsum_field [of k ?bs v] assms(2,3) by simp
  then have e: "unat old mod 65535 = unat v mod 65535"
    using z z0 by (metis add_0 mod_add_left_eq)
  have l: "unat old < 65536" "unat v < 65536"
    using unsigned_less [of old, where 'a = nat] unsigned_less [of v, where 'a = nat] by simp_all
  have "unat old \<noteq> unat v" using assms(5) by (simp add: old_def word_unat_eq_iff)
  then have "{unat old, unat v} = {0, 65535}" using e l by (cases "unat old = 65535"; cases "unat v = 65535") auto
  then have "{v, old} = {0, 0xffff}" by (auto simp: doubleton_eq_iff word_unat_eq_iff)
  then show False using assms(6) by (simp add: old_def)
qed

lemma ip_csum_detects_example:
  "ip_csum (put16 ((\<lambda>_. 0)(0x100 := 0xff, 0x101 := 0xff)) 0x102 5) 0x100 4 0 \<noteq> 0"
proof -
  let ?m = "(\<lambda>_. 0)(0x100 := 0xff, 0x101 := 0xff) :: mem"
  have "mem_bytes ?m 0x100 (unat (4 :: u32)) = [0xff, 0xff, 0, 0]"
  proof -
    have "unat (4 :: u32) = Suc (Suc (Suc (Suc 0)))" by simp
    then show ?thesis by (simp only:) simp
  qed
  then have "ip_csum ?m 0x100 4 0 = 0" by (subst ip_csum_zero_iff) simp_all
  then show ?thesis using ip_csum_detects [of 4 2 ?m "0x100" 5] by (simp add: mem_le16_def doubleton_eq_iff)
qed

text \<open>\<open>ip_verify_netmask\<close> accepts exactly the contiguous masks of 0 to 31 one bits, and refuses
  the mask of 32 ones.\<close>

lemma ip_verify_netmask_iff:
  "ip_verify_netmask netmask = 0 \<longleftrightarrow> (\<exists>k. 1 \<le> k \<and> k \<le> 32 \<and> netmask = push_bit k 0xffffffff)"
proof -
  have "netmask_loop netmask 0xffffffff 33 = 0 \<longleftrightarrow> (\<exists>i<33. netmask = push_bit i 0xffffffff)"
    using netmask_loop_iff [of netmask 0 "0xffffffff" 33] by simp
  moreover have "push_bit k (0xffffffff :: u32) \<noteq> 0xffffffff" if "1 \<le> k" for k
  proof
    assume "push_bit k (0xffffffff :: u32) = 0xffffffff"
    then have "bit (push_bit k (0xffffffff :: u32)) 0 = bit (0xffffffff :: u32) 0" by simp
    with that show False by (simp add: bit_simps)
  qed
  moreover have "i < 33 \<longleftrightarrow> i = 0 \<or> (1 \<le> i \<and> i \<le> 32)" for i :: nat by auto
  ultimately show ?thesis unfolding ip_verify_netmask_def Let_def by auto
qed

end
