(* ===== verification/NetBuf.thy ===== *)
theory NetBuf
  imports Prelude
begin

text \<open>
  The network buffers of \<open>src/src/net/net_buf.c\<close>: \<open>NET_BUF_NUM\<close> buffers in one static array, linked
  through their headers into the free queue and the receive queue.

  The headers are a store, a map from the address of a buffer to its header; a queue is the
  record of its first and last buffer and its count.  The locale \<open>fifo\<close> is the contract of a
  queue (what is taken out is what was put in first); the free queue and the receive queue are its
  interpretations.  The ownership invariant follows a buffer from queue to holder: at any moment
  each buffer is in exactly one of the free queue, the receive queue and the hands of a caller.
\<close>

section \<open>The code\<close>

record netbuf_hdr =
  tag :: u32
  next_buf :: addr
  len :: u32
  datap :: addr

type_synonym hdrs = "addr \<Rightarrow> netbuf_hdr"

record netbuf_queue =
  first :: addr
  tail :: addr
  total :: u32

record net_bufs =
  hdrs :: hdrs
  net_free_q :: netbuf_queue
  net_rcv_q :: netbuf_queue

definition NET_BUF_TAG :: u32 where
  "NET_BUF_TAG = push_bit 24 0x6e OR push_bit 16 0x62 OR push_bit 8 0x75 OR 0x66"

definition NETBUF_HDR_SIZE :: u32 where "NETBUF_HDR_SIZE = (16 + 31) AND NOT 31"
definition NETBUF_SIZE :: u32 where "NETBUF_SIZE = NETBUF_HDR_SIZE + 2048"
definition NET_BUF_NUM :: nat where "NET_BUF_NUM = 100"

definition set_next_buf :: "addr \<Rightarrow> addr \<Rightarrow> hdrs \<Rightarrow> hdrs" where
  "set_next_buf b v h = h(b := (h b)\<lparr>next_buf := v\<rparr>)"

definition net_insert_queue_first :: "addr \<Rightarrow> hdrs \<times> netbuf_queue \<Rightarrow> hdrs \<times> netbuf_queue" where
  "net_insert_queue_first buf = (\<lambda>(h, queue).
     let queue = (if first queue = 0 then queue\<lparr>tail := buf\<rparr> else queue);
         h = set_next_buf buf (first queue) h
     in (h, queue\<lparr>first := buf, total := total queue + 1\<rparr>))"

definition net_insert_queue_tail :: "addr \<Rightarrow> hdrs \<times> netbuf_queue \<Rightarrow> hdrs \<times> netbuf_queue" where
  "net_insert_queue_tail buf = (\<lambda>(h, queue).
     let (h, queue) = (if tail queue \<noteq> 0 then (set_next_buf (tail queue) buf h, queue)
                       else (h, queue\<lparr>first := buf\<rparr>));
         h = set_next_buf buf 0 h
     in (h, queue\<lparr>tail := buf, total := total queue + 1\<rparr>))"

definition net_remove_queue_first :: "hdrs \<times> netbuf_queue \<Rightarrow> addr \<times> netbuf_queue" where
  "net_remove_queue_first = (\<lambda>(h, queue).
     if first queue \<noteq> 0 then
       (let buf = first queue;
            queue = queue\<lparr>first := next_buf (h buf)\<rparr>;
            queue = (if first queue = 0 then queue\<lparr>tail := 0\<rparr> else queue)
        in (buf, queue\<lparr>total := total queue - 1\<rparr>))
     else (0, queue))"

text \<open>Buffer \<open>i\<close> of the array \<open>netbuf\<close>.\<close>

definition buf_at :: "addr \<Rightarrow> nat \<Rightarrow> addr" where
  "buf_at netbuf i = netbuf + of_nat i * NETBUF_SIZE"

definition empty_queue :: netbuf_queue where
  "empty_queue = \<lparr>first = 0, tail = 0, total = 0\<rparr>"

definition init_buf :: "addr \<Rightarrow> hdrs \<times> netbuf_queue \<Rightarrow> hdrs \<times> netbuf_queue" where
  "init_buf hdr = (\<lambda>(h, q).
     net_insert_queue_tail hdr
       (h(hdr := (h hdr)\<lparr>tag := NET_BUF_TAG, datap := hdr + NETBUF_HDR_SIZE\<rparr>), q))"

definition net_init_buf :: "addr \<Rightarrow> net_bufs \<Rightarrow> net_bufs" where
  "net_init_buf netbuf s =
     (let (h, q) = fold init_buf (map (buf_at netbuf) [0..<NET_BUF_NUM]) (hdrs s, empty_queue)
      in s\<lparr>hdrs := h, net_free_q := q, net_rcv_q := empty_queue\<rparr>)"

definition net_alloc_buf :: "net_bufs \<Rightarrow> addr \<times> net_bufs" where
  "net_alloc_buf s =
     (let (buf, q) = net_remove_queue_first (hdrs s, net_free_q s) in (buf, s\<lparr>net_free_q := q\<rparr>))"

definition net_free_buf :: "addr \<Rightarrow> net_bufs \<Rightarrow> net_bufs" where
  "net_free_buf hdr s =
     (if tag (hdrs s hdr) \<noteq> NET_BUF_TAG then s
      else (let (h, q) = net_insert_queue_tail hdr (hdrs s, net_free_q s)
            in s\<lparr>hdrs := h, net_free_q := q\<rparr>))"

definition net_put_rcvq :: "addr \<Rightarrow> net_bufs \<Rightarrow> net_bufs" where
  "net_put_rcvq hdr s =
     (if tag (hdrs s hdr) \<noteq> NET_BUF_TAG then s
      else (let (h, q) = net_insert_queue_tail hdr (hdrs s, net_rcv_q s)
            in s\<lparr>hdrs := h, net_rcv_q := q\<rparr>))"

definition net_get_rcvq :: "net_bufs \<Rightarrow> addr \<times> net_bufs" where
  "net_get_rcvq s =
     (let (buf, q) = net_remove_queue_first (hdrs s, net_rcv_q s) in (buf, s\<lparr>net_rcv_q := q\<rparr>))"

definition net_peek_rcvq :: "net_bufs \<Rightarrow> u32" where
  "net_peek_rcvq s = total (net_rcv_q s)"

text \<open>The walk of \<open>net_show_buf_info\<close> over a queue; \<open>False\<close> is the early return on an illegal
  header.\<close>

fun show_queue :: "hdrs \<Rightarrow> addr \<Rightarrow> nat \<Rightarrow> bool" where
  "show_queue h hdr 0 = True"
| "show_queue h hdr (Suc n) = (tag (h hdr) = NET_BUF_TAG \<and> show_queue h (next_buf (h hdr)) n)"

definition net_show_buf_info :: "net_bufs \<Rightarrow> u32 \<times> u32 \<times> bool" where
  "net_show_buf_info s =
     (total (net_free_q s), total (net_rcv_q s),
      show_queue (hdrs s) (first (net_free_q s)) (nat (sint (total (net_free_q s)))) \<and>
      show_queue (hdrs s) (first (net_rcv_q s)) (nat (sint (total (net_rcv_q s)))))"

section \<open>The contract of a queue\<close>

text \<open>\<open>holds s xs\<close>: in the state \<open>s\<close> the queue holds the items \<open>xs\<close>, first one first; \<open>ok s x\<close>: the
  item may be put in.  \<open>gets\<close> takes \<open>n\<close> items out.\<close>

fun gets :: "('s \<Rightarrow> 'b \<times> 's) \<Rightarrow> nat \<Rightarrow> 's \<Rightarrow> 'b list \<times> 's" where
  "gets get 0 s = ([], s)"
| "gets get (Suc n) s = (let (x, s) = get s; (xs, s) = gets get n s in (x # xs, s))"

locale fifo =
  fixes holds :: "'s \<Rightarrow> 'b list \<Rightarrow> bool"
    and ok :: "'s \<Rightarrow> 'b \<Rightarrow> bool"
    and put :: "'b \<Rightarrow> 's \<Rightarrow> 's"
    and get :: "'s \<Rightarrow> 'b \<times> 's"
    and none :: 'b
  assumes put: "holds s xs \<Longrightarrow> ok s x \<Longrightarrow> x \<notin> set xs \<Longrightarrow> holds (put x s) (xs @ [x])"
    and put_ok: "ok s y \<Longrightarrow> ok (put x s) y"
    and get_Cons: "holds s (x # xs) \<Longrightarrow> fst (get s) = x \<and> holds (snd (get s)) xs"
    and get_Nil: "holds s [] \<Longrightarrow> get s = (none, s)"
    and held: "holds s xs \<Longrightarrow> x \<in> set xs \<Longrightarrow> x \<noteq> none"
begin

lemma get_none_iff: "holds s xs \<Longrightarrow> fst (get s) = none \<longleftrightarrow> xs = []"
proof (cases xs)
  case (Cons x ys)
  moreover assume "holds s xs"
  ultimately show ?thesis using get_Cons [of s x ys] held [of s xs x] by simp
qed (simp add: get_Nil)

lemma puts:
  "holds s xs \<Longrightarrow> \<forall>x\<in>set ys. ok s x \<Longrightarrow> distinct (xs @ ys) \<Longrightarrow> holds (fold put ys s) (xs @ ys)"
proof (induction ys arbitrary: s xs)
  case (Cons y ys)
  then have "holds (put y s) (xs @ [y])" by (intro put) auto
  then have "holds (fold put ys (put y s)) ((xs @ [y]) @ ys)"
    using Cons.prems by (intro Cons.IH) (auto intro: put_ok)
  then show ?case by simp
qed simp

lemma gets_prefix: "holds s (xs @ ys) \<Longrightarrow> fst (gets get (length xs) s) = xs \<and> holds (snd (gets get (length xs) s)) ys"
proof (induction xs arbitrary: s)
  case (Cons x xs)
  then have "fst (get s) = x" "holds (snd (get s)) (xs @ ys)" using get_Cons by auto
  then show ?case using Cons.IH [of "snd (get s)"] by (simp add: split_beta)
qed simp

text \<open>First in, first out.\<close>

lemma fifo_order:
  assumes "holds s xs" and "\<forall>x\<in>set ys. ok s x" and "distinct (xs @ ys)"
  shows "fst (gets get (length xs + length ys) (fold put ys s)) = xs @ ys"
  using gets_prefix [of "fold put ys s" "xs @ ys" "[]"] puts [OF assms] by simp

end

section \<open>Linked queues\<close>

fun linked :: "hdrs \<Rightarrow> addr \<Rightarrow> addr list \<Rightarrow> bool" where
  "linked h p [] \<longleftrightarrow> p = 0"
| "linked h p (b # bs) \<longleftrightarrow> p = b \<and> b \<noteq> 0 \<and> linked h (next_buf (h b)) bs"

definition queue_holds :: "hdrs \<Rightarrow> netbuf_queue \<Rightarrow> addr list \<Rightarrow> bool" where
  "queue_holds h q bs \<longleftrightarrow>
     linked h (first q) bs \<and> tail q = (if bs = [] then 0 else last bs) \<and>
     total q = of_nat (length bs) \<and> distinct bs"

lemma linked_cong: "(\<And>b. b \<in> set bs \<Longrightarrow> next_buf (h' b) = next_buf (h b)) \<Longrightarrow> linked h' p bs = linked h p bs"
  by (induction bs arbitrary: p) auto

lemma linked_ne: "linked h p bs \<Longrightarrow> b \<in> set bs \<Longrightarrow> b \<noteq> 0"
  by (induction bs arbitrary: p) auto

lemma linked_snoc:
  "linked h p bs \<Longrightarrow> bs \<noteq> [] \<Longrightarrow> distinct bs \<Longrightarrow> b \<notin> set bs \<Longrightarrow> b \<noteq> 0 \<Longrightarrow>
   linked (set_next_buf b 0 (set_next_buf (last bs) b h)) p (bs @ [b])"
proof (induction bs arbitrary: p)
  case (Cons a bs)
  show ?case
  proof (cases "bs = []")
    case True
    then show ?thesis using Cons.prems by (auto simp: set_next_buf_def)
  next
    case False
    then have "last bs \<noteq> a" using Cons.prems(3) last_in_set by (metis distinct.simps(2))
    with Cons False show ?thesis by (auto simp: set_next_buf_def)
  qed
qed simp

lemma queue_holds_cong:
  "queue_holds h q bs \<Longrightarrow> (\<And>b. b \<in> set bs \<Longrightarrow> next_buf (h' b) = next_buf (h b)) \<Longrightarrow> queue_holds h' q bs"
  using linked_cong [of bs h' h] by (auto simp: queue_holds_def)

lemma queue_holds_empty [simp]: "queue_holds h empty_queue []"
  by (simp add: queue_holds_def empty_queue_def)

lemma queue_holds_total: "queue_holds h q bs \<Longrightarrow> total q = of_nat (length bs)"
  by (simp add: queue_holds_def)

lemma insert_tail_holds:
  assumes "queue_holds h q bs" and "b \<notin> set bs" and "b \<noteq> 0"
  shows "queue_holds (fst (net_insert_queue_tail b (h, q))) (snd (net_insert_queue_tail b (h, q))) (bs @ [b])"
proof (cases "bs = []")
  case True
  then show ?thesis
    using assms by (simp add: queue_holds_def net_insert_queue_tail_def set_next_buf_def Let_def)
next
  case False
  then have "last bs \<noteq> 0" using assms(1) linked_ne [of h "first q" bs "last bs"] by (simp add: queue_holds_def)
  then show ?thesis
    using assms False linked_snoc [of h "first q" bs b]
    by (simp add: queue_holds_def net_insert_queue_tail_def Let_def)
qed

lemma insert_tail_frame:
  assumes "queue_holds h q bs"
  shows "tag (fst (net_insert_queue_tail b (h, q)) x) = tag (h x)"
    and "x \<noteq> b \<Longrightarrow> x \<notin> set bs \<Longrightarrow> fst (net_insert_queue_tail b (h, q)) x = h x"
proof -
  show "tag (fst (net_insert_queue_tail b (h, q)) x) = tag (h x)"
    by (simp add: net_insert_queue_tail_def set_next_buf_def Let_def)
  have "tail q \<noteq> 0 \<Longrightarrow> tail q \<in> set bs" using assms by (auto simp: queue_holds_def split: if_splits)
  then show "x \<noteq> b \<Longrightarrow> x \<notin> set bs \<Longrightarrow> fst (net_insert_queue_tail b (h, q)) x = h x"
    by (auto simp: net_insert_queue_tail_def set_next_buf_def Let_def)
qed

lemma insert_tail_tag: "tag (fst (net_insert_queue_tail b (h, q)) x) = tag (h x)"
  by (simp add: net_insert_queue_tail_def set_next_buf_def Let_def)

lemma remove_first_Cons:
  "queue_holds h q (b # bs) \<Longrightarrow>
   fst (net_remove_queue_first (h, q)) = b \<and> queue_holds h (snd (net_remove_queue_first (h, q))) bs"
  by (cases bs) (auto simp: queue_holds_def net_remove_queue_first_def Let_def)

lemma remove_first_Nil: "queue_holds h q [] \<Longrightarrow> net_remove_queue_first (h, q) = (0, q)"
  by (simp add: queue_holds_def net_remove_queue_first_def)

lemma queue_holds_ne: "queue_holds h q bs \<Longrightarrow> b \<in> set bs \<Longrightarrow> b \<noteq> 0"
  unfolding queue_holds_def using linked_ne by blast

definition legal :: "net_bufs \<Rightarrow> addr \<Rightarrow> bool" where
  "legal s b \<longleftrightarrow> b \<noteq> 0 \<and> tag (hdrs s b) = NET_BUF_TAG"

interpretation free_queue: fifo
  "\<lambda>s. queue_holds (hdrs s) (net_free_q s)" legal net_free_buf net_alloc_buf 0
proof unfold_locales
  fix s x xs
  assume "queue_holds (hdrs s) (net_free_q s) xs" "legal s x" "x \<notin> set xs"
  then show "queue_holds (hdrs (net_free_buf x s)) (net_free_q (net_free_buf x s)) (xs @ [x])"
    using insert_tail_holds [of "hdrs s" "net_free_q s" xs x]
    by (simp add: net_free_buf_def legal_def split_beta)
qed (auto simp: legal_def net_free_buf_def net_alloc_buf_def split_beta insert_tail_tag remove_first_Nil
    dest: remove_first_Cons queue_holds_ne)

interpretation rcv_queue: fifo
  "\<lambda>s. queue_holds (hdrs s) (net_rcv_q s)" legal net_put_rcvq net_get_rcvq 0
proof unfold_locales
  fix s x xs
  assume "queue_holds (hdrs s) (net_rcv_q s) xs" "legal s x" "x \<notin> set xs"
  then show "queue_holds (hdrs (net_put_rcvq x s)) (net_rcv_q (net_put_rcvq x s)) (xs @ [x])"
    using insert_tail_holds [of "hdrs s" "net_rcv_q s" xs x]
    by (simp add: net_put_rcvq_def legal_def split_beta)
qed (auto simp: legal_def net_put_rcvq_def net_get_rcvq_def split_beta insert_tail_tag remove_first_Nil
    dest: remove_first_Cons queue_holds_ne)

section \<open>Ownership\<close>

text \<open>\<open>owned netbuf s fs rs hs\<close>: the buffers of the array are split between the free queue \<open>fs\<close>, the
  receive queue \<open>rs\<close> and the callers \<open>hs\<close>.\<close>

definition all_bufs :: "addr \<Rightarrow> addr list" where
  "all_bufs netbuf = map (buf_at netbuf) [0..<NET_BUF_NUM]"

definition owned :: "addr \<Rightarrow> net_bufs \<Rightarrow> addr list \<Rightarrow> addr list \<Rightarrow> addr list \<Rightarrow> bool" where
  "owned netbuf s fs rs hs \<longleftrightarrow>
     queue_holds (hdrs s) (net_free_q s) fs \<and> queue_holds (hdrs s) (net_rcv_q s) rs \<and>
     distinct (fs @ rs @ hs) \<and> set (fs @ rs @ hs) = set (all_bufs netbuf) \<and>
     (\<forall>b\<in>set (all_bufs netbuf). legal s b)"

text \<open>The calls, with the buffers the callers hold; the holder of a buffer may write its length and
  data pointer.\<close>

inductive net_step :: "net_bufs \<times> addr list \<Rightarrow> net_bufs \<times> addr list \<Rightarrow> bool" where
  alloc: "net_alloc_buf s = (b, s') \<Longrightarrow> b \<noteq> 0 \<Longrightarrow> net_step (s, hs) (s', b # hs)"
| alloc_none: "net_alloc_buf s = (0, s') \<Longrightarrow> net_step (s, hs) (s', hs)"
| free: "b \<in> set hs \<Longrightarrow> net_step (s, hs) (net_free_buf b s, remove1 b hs)"
| put: "b \<in> set hs \<Longrightarrow> net_step (s, hs) (net_put_rcvq b s, remove1 b hs)"
| get: "net_get_rcvq s = (b, s') \<Longrightarrow> b \<noteq> 0 \<Longrightarrow> net_step (s, hs) (s', b # hs)"
| get_none: "net_get_rcvq s = (0, s') \<Longrightarrow> net_step (s, hs) (s', hs)"
| fill: "b \<in> set hs \<Longrightarrow>
    net_step (s, hs) (s\<lparr>hdrs := (hdrs s)(b := (hdrs s b)\<lparr>len := n, datap := p\<rparr>)\<rparr>, hs)"

inductive_cases net_stepE: "net_step (s, hs) (s', hs')"

lemma other_queue [simp]:
  "net_rcv_q (net_free_buf b s) = net_rcv_q s" "net_free_q (net_put_rcvq b s) = net_free_q s"
  by (simp_all add: net_free_buf_def net_put_rcvq_def split_beta)

lemma hdrs_other:
  "queue_holds (hdrs s) (net_free_q s) fs \<Longrightarrow> x \<noteq> b \<Longrightarrow> x \<notin> set fs \<Longrightarrow> hdrs (net_free_buf b s) x = hdrs s x"
  "queue_holds (hdrs s) (net_rcv_q s) rs \<Longrightarrow> x \<noteq> b \<Longrightarrow> x \<notin> set rs \<Longrightarrow> hdrs (net_put_rcvq b s) x = hdrs s x"
  by (simp_all add: net_free_buf_def net_put_rcvq_def split_beta insert_tail_frame(2))

lemma owned_free:
  assumes "owned netbuf s fs rs hs" and "b \<in> set hs"
  shows "owned netbuf (net_free_buf b s) (fs @ [b]) rs (remove1 b hs)"
proof -
  have o: "queue_holds (hdrs s) (net_free_q s) fs" "queue_holds (hdrs s) (net_rcv_q s) rs"
      "distinct (fs @ rs @ hs)" "set (fs @ rs @ hs) = set (all_bufs netbuf)" "\<forall>b\<in>set (all_bufs netbuf). legal s b"
    using assms(1) by (simp_all add: owned_def)
  have b: "b \<notin> set fs" "b \<notin> set rs" "legal s b" using o assms(2) by auto
  have free: "queue_holds (hdrs (net_free_buf b s)) (net_free_q (net_free_buf b s)) (fs @ [b])"
    using free_queue.put [OF o(1) b(3,1)] .
  have "hdrs (net_free_buf b s) x = hdrs s x" if "x \<in> set rs" for x
    using that b o(3) by (intro hdrs_other(1) [OF o(1)]) auto
  then have rcv: "queue_holds (hdrs (net_free_buf b s)) (net_rcv_q (net_free_buf b s)) rs"
    using queue_holds_cong [OF o(2)] by simp
  show ?thesis
    unfolding owned_def using o(3-5) assms(2) free rcv free_queue.put_ok by fastforce
qed

lemma owned_put:
  assumes "owned netbuf s fs rs hs" and "b \<in> set hs"
  shows "owned netbuf (net_put_rcvq b s) fs (rs @ [b]) (remove1 b hs)"
proof -
  have o: "queue_holds (hdrs s) (net_free_q s) fs" "queue_holds (hdrs s) (net_rcv_q s) rs"
      "distinct (fs @ rs @ hs)" "set (fs @ rs @ hs) = set (all_bufs netbuf)" "\<forall>b\<in>set (all_bufs netbuf). legal s b"
    using assms(1) by (simp_all add: owned_def)
  have b: "b \<notin> set fs" "b \<notin> set rs" "legal s b" using o assms(2) by auto
  have rcv: "queue_holds (hdrs (net_put_rcvq b s)) (net_rcv_q (net_put_rcvq b s)) (rs @ [b])"
    using rcv_queue.put [OF o(2) b(3,2)] .
  have "hdrs (net_put_rcvq b s) x = hdrs s x" if "x \<in> set fs" for x
    using that b o(3) by (intro hdrs_other(2) [OF o(2)]) auto
  then have free: "queue_holds (hdrs (net_put_rcvq b s)) (net_free_q (net_put_rcvq b s)) fs"
    using queue_holds_cong [OF o(1)] by simp
  show ?thesis
    unfolding owned_def using o(3-5) assms(2) free rcv rcv_queue.put_ok by fastforce
qed

lemma alloc_fields:
  "hdrs (snd (net_alloc_buf s)) = hdrs s" "net_rcv_q (snd (net_alloc_buf s)) = net_rcv_q s"
  "hdrs (snd (net_get_rcvq s)) = hdrs s" "net_free_q (snd (net_get_rcvq s)) = net_free_q s"
  by (simp_all add: net_alloc_buf_def net_get_rcvq_def split_beta)

lemma owned_alloc:
  assumes "owned netbuf s (b # fs) rs hs"
  shows "fst (net_alloc_buf s) = b" and "owned netbuf (snd (net_alloc_buf s)) fs rs (b # hs)"
proof -
  have q: "fst (net_alloc_buf s) = b"
      "queue_holds (hdrs (snd (net_alloc_buf s))) (net_free_q (snd (net_alloc_buf s))) fs"
    using free_queue.get_Cons [of s b fs] assms by (simp_all add: owned_def)
  then show "fst (net_alloc_buf s) = b" by simp
  show "owned netbuf (snd (net_alloc_buf s)) fs rs (b # hs)"
    using assms q(2) unfolding owned_def by (auto simp: alloc_fields legal_def)
qed

lemma owned_get:
  assumes "owned netbuf s fs (b # rs) hs"
  shows "fst (net_get_rcvq s) = b" and "owned netbuf (snd (net_get_rcvq s)) fs rs (b # hs)"
proof -
  have q: "fst (net_get_rcvq s) = b"
      "queue_holds (hdrs (snd (net_get_rcvq s))) (net_rcv_q (snd (net_get_rcvq s))) rs"
    using rcv_queue.get_Cons [of s b rs] assms by (simp_all add: owned_def)
  then show "fst (net_get_rcvq s) = b" by simp
  show "owned netbuf (snd (net_get_rcvq s)) fs rs (b # hs)"
    using assms q(2) unfolding owned_def by (auto simp: alloc_fields legal_def)
qed

lemma owned_fill:
  assumes "owned netbuf s fs rs hs" and "b \<in> set hs"
  shows "owned netbuf (s\<lparr>hdrs := (hdrs s)(b := (hdrs s b)\<lparr>len := n, datap := p\<rparr>)\<rparr>) fs rs hs"
proof -
  have "queue_holds ((hdrs s)(b := (hdrs s b)\<lparr>len := n, datap := p\<rparr>)) q xs" if "queue_holds (hdrs s) q xs" for q xs
    using that by (rule queue_holds_cong) simp
  with assms show ?thesis by (auto simp: owned_def legal_def)
qed

text \<open>Every step keeps the ownership invariant.\<close>

lemma owned_step:
  assumes "net_step c c'" and "\<exists>fs rs. owned netbuf (fst c) fs rs (snd c)"
  shows "\<exists>fs rs. owned netbuf (fst c') fs rs (snd c')"
  using assms
proof cases
  case (alloc s b s' hs)
  obtain fs rs where o: "owned netbuf s fs rs hs" using assms(2) alloc by auto
  have "fs \<noteq> []" using alloc free_queue.get_none_iff [of s fs] o by (auto simp: owned_def)
  then obtain a fs' where "fs = a # fs'" by (cases fs) auto
  then show ?thesis using owned_alloc [of netbuf s a fs' rs hs] o alloc by auto
next
  case (alloc_none s s' hs)
  obtain fs rs where o: "owned netbuf s fs rs hs" using assms(2) alloc_none by auto
  then have "fs = []" using alloc_none free_queue.get_none_iff [of s fs] by (auto simp: owned_def)
  then have "s' = s" using free_queue.get_Nil [of s] o alloc_none by (simp add: owned_def)
  then show ?thesis using o alloc_none by auto
next
  case (free b hs s)
  then show ?thesis using assms(2) owned_free by fastforce
next
  case (put b hs s)
  then show ?thesis using assms(2) owned_put by fastforce
next
  case (get s b s' hs)
  obtain fs rs where o: "owned netbuf s fs rs hs" using assms(2) get by auto
  have "rs \<noteq> []" using get rcv_queue.get_none_iff [of s rs] o by (auto simp: owned_def)
  then obtain a rs' where "rs = a # rs'" by (cases rs) auto
  then show ?thesis using owned_get [of netbuf s fs a rs' hs] o get by auto
next
  case (get_none s s' hs)
  obtain fs rs where o: "owned netbuf s fs rs hs" using assms(2) get_none by auto
  then have "rs = []" using get_none rcv_queue.get_none_iff [of s rs] by (auto simp: owned_def)
  then have "s' = s" using rcv_queue.get_Nil [of s] o get_none by (simp add: owned_def)
  then show ?thesis using o get_none by auto
next
  case (fill b hs s n p)
  then show ?thesis using assms(2) owned_fill by fastforce
qed

section \<open>Initialisation\<close>

lemma buf_at_unat:
  assumes "unat netbuf + 100 * 2080 < 2 ^ 32" and "i < 100"
  shows "unat (buf_at netbuf i) = unat netbuf + i * 2080"
proof -
  have "buf_at netbuf i = netbuf + of_nat (i * 2080)"
    by (simp add: buf_at_def NETBUF_SIZE_def NETBUF_HDR_SIZE_def)
  moreover have "i * 2080 < 100 * 2080" using assms(2) by simp
  ultimately show ?thesis
    using assms(1) by (simp add: unat_word_ariths unat_of_nat del: of_nat_mult)
qed

lemma all_bufs_distinct:
  assumes "unat netbuf + 100 * 2080 < 2 ^ 32" and "netbuf \<noteq> 0"
  shows "distinct (all_bufs netbuf)" and "0 \<notin> set (all_bufs netbuf)"
proof -
  have inj: "i = j" if "buf_at netbuf i = buf_at netbuf j" "i < 100" "j < 100" for i j
    using buf_at_unat [OF assms(1)] that by (metis add_left_cancel mult_right_cancel zero_neq_numeral)
  then show "distinct (all_bufs netbuf)"
    by (auto simp: all_bufs_def NET_BUF_NUM_def distinct_map intro!: inj_onI)
  have "buf_at netbuf i \<noteq> 0" if "i < 100" for i
    using buf_at_unat [OF assms(1) that] assms(2) by (metis add_is_0 unat_0 unat_eq_zero)
  then show "0 \<notin> set (all_bufs netbuf)" by (auto simp: all_bufs_def NET_BUF_NUM_def)
qed

lemma init_fold:
  assumes "queue_holds h q xs" and "distinct (xs @ ys)" and "0 \<notin> set (xs @ ys)"
    and "\<forall>x\<in>set xs. tag (h x) = NET_BUF_TAG"
  shows "queue_holds (fst (fold init_buf ys (h, q))) (snd (fold init_buf ys (h, q))) (xs @ ys) \<and>
     (\<forall>x\<in>set (xs @ ys). tag (fst (fold init_buf ys (h, q)) x) = NET_BUF_TAG)"
  using assms
proof (induction ys arbitrary: xs h q)
  case (Cons y ys)
  define h1 where "h1 = h(y := (h y)\<lparr>tag := NET_BUF_TAG, datap := y + NETBUF_HDR_SIZE\<rparr>)"
  obtain h2 q2 where e: "net_insert_queue_tail y (h1, q) = (h2, q2)" by fastforce
  have i: "queue_holds h1 q xs" using Cons.prems(1) by (rule queue_holds_cong) (simp add: h1_def)
  have "queue_holds h2 q2 (xs @ [y])"
    using insert_tail_holds [OF i, of y] Cons.prems(2,3) e by auto
  moreover have "\<forall>x\<in>set (xs @ [y]). tag (h2 x) = NET_BUF_TAG"
    using insert_tail_tag [of y h1 q] Cons.prems(4) e by (simp add: h1_def)
  ultimately have "queue_holds (fst (fold init_buf ys (h2, q2))) (snd (fold init_buf ys (h2, q2))) ((xs @ [y]) @ ys) \<and>
     (\<forall>x\<in>set ((xs @ [y]) @ ys). tag (fst (fold init_buf ys (h2, q2)) x) = NET_BUF_TAG)"
    using Cons.prems(2,3) by (intro Cons.IH) auto
  moreover have "init_buf y (h, q) = (h2, q2)" using e by (simp add: init_buf_def h1_def)
  ultimately show ?case by simp
qed simp

lemma owned_init:
  assumes "unat netbuf + 100 * 2080 < 2 ^ 32" and "netbuf \<noteq> 0"
  shows "owned netbuf (net_init_buf netbuf s) (all_bufs netbuf) [] []"
  using init_fold [of "hdrs s" empty_queue "[]" "all_bufs netbuf"] all_bufs_distinct [OF assms]
  by (auto simp: owned_def net_init_buf_def split_beta all_bufs_def [symmetric] legal_def)

lemma show_queue_linked:
  "linked h p bs \<Longrightarrow> \<forall>b\<in>set bs. tag (h b) = NET_BUF_TAG \<Longrightarrow> show_queue h p (length bs)"
  by (induction bs arbitrary: p) auto

lemma owned_length:
  assumes "owned netbuf s fs rs hs" and "unat netbuf + 100 * 2080 < 2 ^ 32" and "netbuf \<noteq> 0"
  shows "length fs + length rs + length hs = 100"
proof -
  have "length (fs @ rs @ hs) = card (set (all_bufs netbuf))"
    using assms(1) unfolding owned_def by (metis distinct_card)
  also have "\<dots> = 100" using distinct_card [OF all_bufs_distinct(1) [OF assms(2,3)]]
    by (simp add: all_bufs_def NET_BUF_NUM_def)
  finally show ?thesis by simp
qed

lemma show_owned:
  assumes "owned netbuf s fs rs hs" and "length fs \<le> 100" and "length rs \<le> 100"
  shows "net_show_buf_info s = (of_nat (length fs), of_nat (length rs), True)"
proof -
  have small: "nat (sint (of_nat n :: u32)) = n" if "n \<le> 100" for n
    using that by (simp add: signed_of_nat signed_take_bit_int_eq_self)
  show ?thesis
  proof -
    have q: "linked (hdrs s) (first (net_free_q s)) fs" "linked (hdrs s) (first (net_rcv_q s)) rs"
        "total (net_free_q s) = of_nat (length fs)" "total (net_rcv_q s) = of_nat (length rs)"
      and t: "\<forall>b\<in>set fs. tag (hdrs s b) = NET_BUF_TAG" "\<forall>b\<in>set rs. tag (hdrs s b) = NET_BUF_TAG"
      using assms(1) unfolding owned_def queue_holds_def legal_def by auto
    show ?thesis
      using show_queue_linked [OF q(1) t(1)] show_queue_linked [OF q(2) t(2)] small [OF assms(2)] small [OF assms(3)]
      by (simp add: net_show_buf_info_def q)
  qed
qed

section \<open>Properties\<close>

text \<open>C7. Buffers are conserved.  In every state the calls can reach from \<open>net_init_buf\<close>, when a
  caller releases or queues only buffers it holds, each of the 100 buffers is in exactly one of the
  free queue, the receive queue and the hands of a caller; the counts of the queues are right, and
  \<open>net_show_buf_info\<close> reports them and no error.\<close>

theorem net_buf_ownership:
  assumes "net_step\<^sup>*\<^sup>* (net_init_buf netbuf s0, []) (s, hs)"
    and "unat netbuf + 100 * 2080 < 2 ^ 32" and "netbuf \<noteq> 0"
  shows "\<exists>fs rs. owned netbuf s fs rs hs \<and> length fs + length rs + length hs = 100 \<and>
     net_show_buf_info s = (of_nat (length fs), of_nat (length rs), True)"
proof -
  have "\<exists>fs rs. owned netbuf (fst (s, hs)) fs rs (snd (s, hs))"
    using assms(1)
  proof induction
    case base
    then show ?case using owned_init [OF assms(2,3)] by auto
  qed (rule owned_step)
  then obtain fs rs where o: "owned netbuf s fs rs hs" by auto
  moreover have "length fs + length rs + length hs = 100" by (rule owned_length [OF o assms(2,3)])
  ultimately show ?thesis using show_owned [OF o] by auto
qed

theorem net_buf_ownership_witness:
  "\<forall>s0. \<exists>fs rs. owned 0x200000 (net_init_buf 0x200000 s0) fs rs [] \<and> length fs + length rs = 100"
proof
  fix s0
  show "\<exists>fs rs. owned 0x200000 (net_init_buf 0x200000 s0) fs rs [] \<and> length fs + length rs = 100"
    using net_buf_ownership [of "0x200000" s0 "net_init_buf 0x200000 s0" "[]"] by auto
qed

text \<open>The receive queue is first in, first out: when buffers are put into it one after the other,
  \<open>net_get_rcvq\<close> returns first those that were queued already and then the new ones, in the order
  they were put in; after them it returns the null pointer.\<close>

lemma net_rcvq_fifo:
  assumes "queue_holds (hdrs s) (net_rcv_q s) xs" and "\<forall>y\<in>set ys. legal s y" and "distinct (xs @ ys)"
  shows "fst (gets net_get_rcvq (length xs + length ys) (fold net_put_rcvq ys s)) = xs @ ys \<and>
     fst (net_get_rcvq (snd (gets net_get_rcvq (length xs + length ys) (fold net_put_rcvq ys s)))) = 0"
proof
  show "fst (gets net_get_rcvq (length xs + length ys) (fold net_put_rcvq ys s)) = xs @ ys"
    using assms by (rule rcv_queue.fifo_order)
  show "fst (net_get_rcvq (snd (gets net_get_rcvq (length xs + length ys) (fold net_put_rcvq ys s)))) = 0"
    using rcv_queue.gets_prefix [of "fold net_put_rcvq ys s" "xs @ ys" "[]"] rcv_queue.puts [OF assms]
      rcv_queue.get_none_iff by fastforce
qed

definition two_bufs :: net_bufs where
  "two_bufs = \<lparr>hdrs = (\<lambda>b. \<lparr>tag = NET_BUF_TAG, next_buf = 0, len = 0, datap = 0\<rparr>),
     net_free_q = empty_queue, net_rcv_q = empty_queue\<rparr>"

lemma net_rcvq_fifo_example:
  "fst (gets net_get_rcvq 2 (fold net_put_rcvq [0x100, 0x200] two_bufs)) = [0x100, 0x200]"
proof -
  have "fst (gets net_get_rcvq (length ([] :: addr list) + length [0x100 :: addr, 0x200])
      (fold net_put_rcvq [0x100, 0x200] two_bufs)) = [] @ [0x100, 0x200]"
    by (rule conjunct1 [OF net_rcvq_fifo]) (simp_all add: two_bufs_def legal_def)
  moreover have "length ([] :: addr list) + length [0x100 :: addr, 0x200] = 2" by simp
  ultimately show ?thesis by (simp only: append_Nil)
qed

text \<open>\<open>net_alloc_buf\<close> fails only when the pool is exhausted.  In a reachable state it returns a
  buffer of the array that nobody owned, with an intact header, or, when the callers and the
  receive queue own all 100 buffers, the null pointer.\<close>

lemma net_alloc_buf_result:
  assumes "owned netbuf s fs rs hs" and "unat netbuf + 100 * 2080 < 2 ^ 32" and "netbuf \<noteq> 0"
  shows "(fst (net_alloc_buf s) = 0 \<longleftrightarrow> length rs + length hs = 100) \<and>
     (fst (net_alloc_buf s) \<noteq> 0 \<longrightarrow>
        fst (net_alloc_buf s) \<in> set (all_bufs netbuf) - set rs - set hs \<and>
        tag (hdrs s (fst (net_alloc_buf s))) = NET_BUF_TAG \<and>
        owned netbuf (snd (net_alloc_buf s)) (tl fs) rs (fst (net_alloc_buf s) # hs))"
proof (cases fs)
  case Nil
  then show ?thesis
    using owned_length [OF assms] free_queue.get_none_iff [of s fs] assms(1) by (auto simp: owned_def)
next
  case (Cons b fs')
  then have o: "owned netbuf s (b # fs') rs hs" using assms(1) by simp
  have b: "b \<noteq> 0" "legal s b" "b \<in> set (all_bufs netbuf)" "b \<notin> set rs" "b \<notin> set hs"
    using o unfolding owned_def legal_def by auto
  show ?thesis
    using owned_alloc [OF o] b owned_length [OF assms] Cons by (auto simp: legal_def)
qed

lemma net_alloc_buf_result_example:
  "\<forall>s0. fst (net_alloc_buf (net_init_buf 0x200000 s0)) \<noteq> 0"
proof
  fix s0
  have "owned 0x200000 (net_init_buf 0x200000 s0) (all_bufs 0x200000) [] []"
    by (rule owned_init) simp_all
  then show "fst (net_alloc_buf (net_init_buf 0x200000 s0)) \<noteq> 0"
    using net_alloc_buf_result [of "0x200000"] by fastforce
qed

end
