(* ===== verification/NetState.thy ===== *)
theory NetState
  imports Chksum SysMalloc NetBuf
begin

text \<open>
  The state the network layers share, the hardware they call, and the Ethernet output of
  \<open>src/src/net/enet.c\<close>.

  \<open>net\<close> gathers the memory, the net buffers, the heap and the static variables of the protocol
  files.  \<open>env\<close> is what the layers ask for and do not change: the addresses kept by the
  configuration module, and the hardware as scripts: the frames the Ethernet driver delivers at its
  n-th call, the value of the tick counter at its n-th reading, whether the n-th frame can be sent,
  the key the console gives at its n-th scan.  The counters of the calls are in the state.  A frame
  handed to the driver is added to \<open>sent\<close>.
\<close>

section \<open>State\<close>

record arp_entry =
  ip_addr :: u32
  mac_addr :: "u8 list"
  used :: bool

record udp_sock =
  sock_used :: bool
  listen_port :: u16
  from_port :: u16
  from_ip :: u32
  error_code :: int
  buf_size :: u32
  data_size :: u32
  buf_start_p :: addr
  buf_end_p :: addr
  buf_in_p :: addr
  buf_out_p :: addr

record env =
  my_ip :: u32
  my_netmask :: u32
  my_gateway :: u32
  my_mac :: "nat \<Rightarrow> u8 list"
  gmac_num :: u32
  rx_frames :: "nat \<Rightarrow> u8 list list"
  clock :: "nat \<Rightarrow> u64"
  can_send :: "nat \<Rightarrow> bool"
  keys :: "nat \<Rightarrow> u8 option"

record net =
  mem :: mem
  bufs :: net_bufs
  heap :: heap
  minfo :: mem_info
  arp_cache_tbl :: "arp_entry list"
  arp_cache_num :: int
  arp_listen_handler :: bool
  icmp_listen_handler :: bool
  icmp_arg :: int
  icmp_ident :: int
  ip_ident :: u16
  udp_socks :: "udp_sock list"
  enet_initialized :: bool
  sent :: "u8 list list"
  tx_calls :: nat
  rx_calls :: nat
  tick_reads :: nat
  key_scans :: nat

text \<open>The header fields of a buffer.\<close>

definition nb_data :: "net \<Rightarrow> addr \<Rightarrow> addr" where
  "nb_data s b = datap (hdrs (bufs s) b)"

definition nb_len :: "net \<Rightarrow> addr \<Rightarrow> u32" where
  "nb_len s b = len (hdrs (bufs s) b)"

definition set_nb_len :: "addr \<Rightarrow> u32 \<Rightarrow> net \<Rightarrow> net" where
  "set_nb_len b n s =
     s\<lparr>bufs := (bufs s)\<lparr>hdrs := (hdrs (bufs s))(b := (hdrs (bufs s) b)\<lparr>len := n\<rparr>)\<rparr>\<rparr>"

definition free_nb :: "addr \<Rightarrow> net \<Rightarrow> net" where
  "free_nb b s = s\<lparr>bufs := net_free_buf b (bufs s)\<rparr>"

definition alloc_nb :: "net \<Rightarrow> addr \<times> net" where
  "alloc_nb s = (let (b, bs) = net_alloc_buf (bufs s) in (b, s\<lparr>bufs := bs\<rparr>))"

definition sys_get_ticks :: "env \<Rightarrow> net \<Rightarrow> u64 \<times> net" where
  "sys_get_ticks E s = (clock E (tick_reads s), s\<lparr>tick_reads := tick_reads s + 1\<rparr>)"

definition uart_scanc :: "env \<Rightarrow> net \<Rightarrow> u8 option \<times> net" where
  "uart_scanc E s = (keys E (key_scans s), s\<lparr>key_scans := key_scans s + 1\<rparr>)"

section \<open>Ethernet output\<close>

definition ETH_HDR_SIZE :: u32 where "ETH_HDR_SIZE = 14"
definition ETH_TYPE_IP :: u16 where "ETH_TYPE_IP = 0x800"
definition ETH_TYPE_ARP :: u16 where "ETH_TYPE_ARP = 0x806"

definition src_mac :: "env \<Rightarrow> u8 list" where
  "src_mac E = (if gmac_num E \<noteq> 0 then my_mac E 1 else my_mac E 0)"

text \<open>\<open>enet_send\<close>: source and destination address, type, hand over to the driver; the buffer is
  released in any case.\<close>

definition enet_send :: "env \<Rightarrow> addr \<Rightarrow> u8 list \<Rightarrow> u16 \<Rightarrow> net \<Rightarrow> net" where
  "enet_send E b dest ether_type s =
     (let s1 = s\<lparr>tx_calls := tx_calls s + 1\<rparr>;
          s2 = (if can_send E (tx_calls s) then
                  (let p = nb_data s1 b;
                       m = put_bytes (mem s1) (p + 6) (src_mac E);
                       m = put_bytes m p dest;
                       m = put16 m (p + 12) (htons ether_type)
                   in s1\<lparr>mem := m, sent := sent s1 @ [mem_bytes m p (unat (nb_len s1 b + ETH_HDR_SIZE))]\<rparr>)
                else s1)
      in free_nb b s2)"

section \<open>Ownership across the layers\<close>

text \<open>\<open>takes netbuf f b\<close>: \<open>f\<close> consumes the buffer \<open>b\<close>: held before, it is released by \<open>f\<close> exactly once.\<close>

definition net_owned :: "addr \<Rightarrow> net \<Rightarrow> addr list \<Rightarrow> addr list \<Rightarrow> bool" where
  "net_owned netbuf s rs hs \<longleftrightarrow> (\<exists>fs. owned netbuf (bufs s) fs rs hs)"

lemma net_owned_cong: "bufs s' = bufs s \<Longrightarrow> net_owned netbuf s' rs hs = net_owned netbuf s rs hs"
  by (simp add: net_owned_def)

lemma free_nb_owned:
  "net_owned netbuf s rs hs \<Longrightarrow> b \<in> set hs \<Longrightarrow> net_owned netbuf (free_nb b s) rs (remove1 b hs)"
  unfolding net_owned_def free_nb_def using owned_free by fastforce

lemma set_nb_len_owned:
  "net_owned netbuf s rs hs \<Longrightarrow> b \<in> set hs \<Longrightarrow> net_owned netbuf (set_nb_len b n s) rs hs"
  unfolding net_owned_def set_nb_len_def
  using owned_fill [where n = n and p = "datap (hdrs (bufs s) b)" and b = b] by fastforce

lemma alloc_nb_owned:
  assumes "net_owned netbuf s rs hs" and "alloc_nb s = (b, s')"
  shows "b \<noteq> 0 \<Longrightarrow> net_owned netbuf s' rs (b # hs)" and "b = 0 \<Longrightarrow> net_owned netbuf s' rs hs"
proof -
  obtain fs where o: "owned netbuf (bufs s) fs rs hs" using assms(1) by (auto simp: net_owned_def)
  have e: "net_alloc_buf (bufs s) = (b, bufs s')" using assms(2) by (auto simp: alloc_nb_def split: prod.splits)
  show "net_owned netbuf s' rs (b # hs)" if "b \<noteq> 0"
  proof -
    have "fs \<noteq> []" using that e free_queue.get_none_iff [of "bufs s" fs] o by (auto simp: owned_def)
    then obtain a fs' where "fs = a # fs'" by (cases fs) auto
    then show ?thesis using owned_alloc [of netbuf "bufs s" a fs' rs hs] o e by (auto simp: net_owned_def)
  qed
  show "net_owned netbuf s' rs hs" if "b = 0"
  proof -
    have "fs = []" using that e free_queue.get_none_iff [of "bufs s" fs] o by (auto simp: owned_def)
    then have "bufs s' = bufs s" using free_queue.get_Nil [of "bufs s"] o e by (auto simp: owned_def)
    then show ?thesis using o by (auto simp: net_owned_def)
  qed
qed

lemma enet_send_owned:
  assumes "net_owned netbuf s rs hs" and "b \<in> set hs"
  shows "net_owned netbuf (enet_send E b dest ty s) rs (remove1 b hs)"
  unfolding enet_send_def Let_def
  by (rule free_nb_owned [OF _ assms(2)]) (use assms(1) in \<open>simp add: net_owned_def\<close>)

lemma free_nb_fields [simp]:
  "mem (free_nb b s) = mem s" "sent (free_nb b s) = sent s" "arp_cache_tbl (free_nb b s) = arp_cache_tbl s"
  "arp_cache_num (free_nb b s) = arp_cache_num s" "udp_socks (free_nb b s) = udp_socks s"
  "ip_ident (free_nb b s) = ip_ident s" "icmp_arg (free_nb b s) = icmp_arg s"
  "arp_listen_handler (free_nb b s) = arp_listen_handler s"
  "icmp_listen_handler (free_nb b s) = icmp_listen_handler s"
  "tick_reads (free_nb b s) = tick_reads s" "tx_calls (free_nb b s) = tx_calls s"
  by (simp_all add: free_nb_def)

section \<open>Packets as byte lists\<close>

text \<open>\<open>splice k xs L\<close>: the list \<open>L\<close> with the bytes from position \<open>k\<close> on replaced by \<open>xs\<close>.  A store
  into a packet is a splice of its byte list, and a read is a slice of it.\<close>

definition splice :: "nat \<Rightarrow> u8 list \<Rightarrow> u8 list \<Rightarrow> u8 list" where
  "splice k xs L = take k L @ xs @ drop (k + length xs) L"

definition slice :: "nat \<Rightarrow> nat \<Rightarrow> u8 list \<Rightarrow> u8 list" where
  "slice k n L = take n (drop k L)"

lemma length_splice [simp]: "k + length xs \<le> length L \<Longrightarrow> length (splice k xs L) = length L"
  by (simp add: splice_def)

lemma length_slice [simp]: "k + n \<le> length L \<Longrightarrow> length (slice k n L) = n"
  by (simp add: slice_def)

lemma put_bytes_splice:
  "k + length xs \<le> n \<Longrightarrow> n \<le> 2 ^ 32 \<Longrightarrow>
   mem_bytes (put_bytes m (p + of_nat k) xs) p n = splice k xs (mem_bytes m p n)"
proof (induction xs arbitrary: k m)
  case Nil
  then show ?case by (simp add: splice_def)
next
  case (Cons x xs)
  have e: "p + of_nat k + 1 = p + of_nat (Suc k)" by (simp add: algebra_simps)
  have "mem_bytes (put_bytes m (p + of_nat k) (x # xs)) p n = splice (Suc k) xs ((mem_bytes m p n)[k := x])"
    unfolding put_bytes.simps e using Cons.prems
    by (subst Cons.IH) (simp_all add: mem_bytes_upd)
  also have "\<dots> = splice k (x # xs) (mem_bytes m p n)"
    using Cons.prems by (simp add: splice_def take_Suc_conv_app_nth drop_update_cancel)
  finally show ?case .
qed

lemma put_bytes_splice_0:
  "length xs \<le> n \<Longrightarrow> n \<le> 2 ^ 32 \<Longrightarrow> mem_bytes (put_bytes m p xs) p n = splice 0 xs (mem_bytes m p n)"
  using put_bytes_splice [of 0 xs n m p] by simp

lemmas put_bytes_splice_num = put_bytes_splice [of "numeral w" for w, unfolded of_nat_numeral]

lemma put16_bytes_eq: "put16 m p v = put_bytes m p [ucast v, ucast (drop_bit 8 v)]"
  by (simp add: put16_def)

lemma put32_bytes_eq:
  "put32 m p v = put_bytes m p [ucast v, ucast (drop_bit 8 v), ucast (drop_bit 16 v), ucast (drop_bit 24 v)]"
  by (simp add: put32_def add.assoc)

lemma mem_bytes_slice:
  "k + n \<le> N \<Longrightarrow> mem_bytes m (p + of_nat k) n = slice k n (mem_bytes m p N)"
proof (rule nth_equalityI)
  fix i assume "k + n \<le> N" "i < length (mem_bytes m (p + of_nat k) n)"
  then show "mem_bytes m (p + of_nat k) n ! i = slice k n (mem_bytes m p N) ! i"
    by (simp add: nth_mem_bytes slice_def add.assoc)
qed (simp add: slice_def)

lemmas mem_bytes_slice_num = mem_bytes_slice [of "numeral w" for w, unfolded of_nat_numeral]

text \<open>The byte at an offset of the packet.\<close>

lemma mem_nth: "k < N \<Longrightarrow> m (p + of_nat k) = mem_bytes m p N ! k"
  by (simp add: nth_mem_bytes)

lemma memcpy_put_bytes:
  assumes "\<forall>i<n. \<forall>j<n. q + of_nat i \<noteq> r + of_nat j"
  shows "memcpy_loop m q r n = put_bytes m q (mem_bytes m r n)"
  using assms
proof (induction n arbitrary: m q r)
  case (Suc n)
  have "\<forall>i<n. \<forall>j<n. (q + 1) + of_nat i \<noteq> (r + 1) + of_nat j"
  proof (intro allI impI)
    fix i j assume "i < n" "j < n"
    then show "(q + 1) + of_nat i \<noteq> (r + 1) + of_nat j"
      using Suc.prems [rule_format, of "Suc i" "Suc j"] by (simp add: algebra_simps)
  qed
  note ih = Suc.IH [OF this]
  have "mem_bytes (m(q := m r)) (r + 1) n = mem_bytes m (r + 1) n"
  proof (rule mem_bytes_cong)
    fix i assume "i < n"
    then have "q + of_nat 0 \<noteq> r + of_nat (Suc i)" using Suc.prems by blast
    then show "(m(q := m r)) (r + 1 + of_nat i) = m (r + 1 + of_nat i)" by (auto simp: algebra_simps)
  qed
  then show ?case by (simp only: memcpy_loop.simps mem_bytes.simps put_bytes.simps ih)
qed simp

text \<open>A value in network byte order.\<close>

definition be16 :: "u16 \<Rightarrow> u8 list" where "be16 v = [ucast (drop_bit 8 v), ucast v]"

definition be32 :: "u32 \<Rightarrow> u8 list" where
  "be32 v = [ucast (drop_bit 24 v), ucast (drop_bit 16 v), ucast (drop_bit 8 v), ucast v]"

lemma ntohs_bytes:
  "(ucast (ntohs v) :: u8) = ucast (drop_bit 8 v)" "(ucast (drop_bit 8 (ntohs v)) :: u8) = ucast v"
  by (rule bit_word_eqI; auto simp: ntohs_eq bit_simps)+

lemma put16_htons: "put16 m p (htons v) = put_bytes m p (be16 v)"
  by (simp only: put16_bytes_eq be16_def htons_def ntohs_bytes)

lemma ntohl_bytes:
  "(ucast (ntohl x) :: u8) = ucast (drop_bit 24 x)"
  "(ucast (drop_bit 8 (ntohl x)) :: u8) = ucast (drop_bit 16 x)"
  "(ucast (drop_bit 16 (ntohl x)) :: u8) = ucast (drop_bit 8 x)"
  "(ucast (drop_bit 24 (ntohl x)) :: u8) = ucast x"
proof -
  have m: "(0x000000ff :: u32) = mask 8" "(0x0000ff00 :: u32) = push_bit 8 (mask 8)"
    "(0x00ff0000 :: u32) = push_bit 16 (mask 8)" "(0xff000000 :: u32) = push_bit 24 (mask 8)"
    by (simp_all add: mask_eq_exp_minus_1 push_bit_eq_mult)
  have b: "bit x k \<Longrightarrow> k < 32" for k using bit_imp_le_length [of x k] by simp
  show "(ucast (ntohl x) :: u8) = ucast (drop_bit 24 x)"
    "(ucast (drop_bit 8 (ntohl x)) :: u8) = ucast (drop_bit 16 x)"
    "(ucast (drop_bit 16 (ntohl x)) :: u8) = ucast (drop_bit 8 x)"
    "(ucast (drop_bit 24 (ntohl x)) :: u8) = ucast x"
    unfolding ntohl_def m
    by (rule bit_word_eqI; auto simp: bit_simps dest: b)+
qed

lemma put32_htonl: "put32 m p (htonl v) = put_bytes m p (be32 v)"
  by (simp only: put32_bytes_eq be32_def htonl_def ntohl_bytes)

end
