(* ===== verification/Arp.thy ===== *)
theory Arp
  imports NetState
begin

text \<open>
  Address resolution, \<open>src/src/net/arp.c\<close>: the cache table of \<open>ARP_MAX_CACHE_NUM\<close> entries, the
  handler of received ARP packets and its reply listener.  \<open>arp_request\<close> and \<open>arp_lookup\<close>, which
  poll the network, are in theory Enet.

  The only listener the code ever installs is \<open>arp_reply_listener\<close>, so the handler pointer is a
  Boolean of the state: installed or not.
\<close>

section \<open>The code\<close>

definition ARP_MAX_CACHE_NUM :: nat where "ARP_MAX_CACHE_NUM = 4"
definition ARP_PKT_SIZE :: u32 where "ARP_PKT_SIZE = 28 + ETH_HDR_SIZE"

text \<open>The search loops: index of the entry, or the first free entry.\<close>

fun arp_chk_loop :: "u32 \<Rightarrow> nat \<Rightarrow> arp_entry list \<Rightarrow> nat option" where
  "arp_chk_loop ipaddr i [] = None"
| "arp_chk_loop ipaddr i (e # es) =
     (if used e \<and> ip_addr e = ipaddr then Some i else arp_chk_loop ipaddr (Suc i) es)"

definition arp_chk_entry :: "u32 \<Rightarrow> net \<Rightarrow> nat option" where
  "arp_chk_entry ipaddr s = arp_chk_loop ipaddr 0 (arp_cache_tbl s)"

fun arp_listen_loop :: "u32 \<Rightarrow> nat \<Rightarrow> nat option \<Rightarrow> arp_entry list \<Rightarrow> nat + nat option" where
  "arp_listen_loop ipaddr i free_p [] = Inr free_p"
| "arp_listen_loop ipaddr i free_p (e # es) =
     (if used e then
        (if ipaddr = ip_addr e then Inl i else arp_listen_loop ipaddr (Suc i) free_p es)
      else arp_listen_loop ipaddr (Suc i) (if free_p = None then Some i else free_p) es)"

definition arp_reply_listener :: "addr \<Rightarrow> addr \<Rightarrow> net \<Rightarrow> net" where
  "arp_reply_listener b arp s =
     (let ipaddr = ntohl (mem_le32 (mem s) (arp + 14));
          sender_mac = mem_bytes (mem s) (arp + 8) 6;
          tbl = arp_cache_tbl s
      in case arp_listen_loop ipaddr 0 None tbl of
           Inl i \<Rightarrow> free_nb b (s\<lparr>arp_cache_tbl := tbl[i := (tbl ! i)\<lparr>mac_addr := sender_mac\<rparr>]\<rparr>)
         | Inr (Some i) \<Rightarrow>
             free_nb b (s\<lparr>arp_cache_tbl := tbl[i := \<lparr>ip_addr = ipaddr, mac_addr = sender_mac, used = True\<rparr>],
                          arp_cache_num := arp_cache_num s + 1\<rparr>)
         | Inr None \<Rightarrow> free_nb b s)"

text \<open>\<open>arp\<close> is the address of the ARP header: type at 0, protocol at 2, lengths at 4 and 5, opcode
  at 6, sender at 8 and 14, target at 18 and 24.\<close>

definition arp_input :: "env \<Rightarrow> addr \<Rightarrow> net \<Rightarrow> net" where
  "arp_input E b s =
     (let arp = nb_data s b + ETH_HDR_SIZE; m = mem s in
      if nb_len s b < ARP_PKT_SIZE then free_nb b s
      else if ntohs (mem_le16 m arp) \<noteq> 1 \<or> ntohs (mem_le16 m (arp + 2)) \<noteq> ETH_TYPE_IP then free_nb b s
      else
        (let my_ip_addr = htonl (my_ip E); opcode = ntohs (mem_le16 m (arp + 6)) in
         if mem_le32 m (arp + 24) = my_ip_addr then
           (if opcode = 1 then
              (let m = put16 m (arp + 6) (htons 2);
                   m = put32 m (arp + 24) (mem_le32 m (arp + 14));
                   m = memcpy_loop m (arp + 18) (arp + 8) 6;
                   m = put32 m (arp + 14) my_ip_addr;
                   m = put_bytes m (arp + 8) (src_mac E);
                   s = set_nb_len b 28 (s\<lparr>mem := m\<rparr>)
               in enet_send E b (mem_bytes m (arp + 18) 6) ETH_TYPE_ARP s)
            else if opcode = 2 \<and> arp_listen_handler s then arp_reply_listener b arp s
            else free_nb b s)
         else free_nb b s))"

definition arp_flush_cache :: "net \<Rightarrow> net" where
  "arp_flush_cache s =
     s\<lparr>arp_cache_tbl := map (\<lambda>e. e\<lparr>used := False\<rparr>) (arp_cache_tbl s), arp_cache_num := 0\<rparr>"

text \<open>The rows \<open>arp_show_cache\<close> prints.\<close>

definition arp_show_cache :: "net \<Rightarrow> (u32 \<times> u8 list) list" where
  "arp_show_cache s = map (\<lambda>e. (ip_addr e, mac_addr e)) (filter used (arp_cache_tbl s))"

section \<open>The cache\<close>

text \<open>The cache as a finite map from addresses to hardware addresses, and its invariant: four
  entries, no address twice, and the counter right.\<close>

definition arp_map :: "arp_entry list \<Rightarrow> u32 \<Rightarrow> u8 list option" where
  "arp_map tbl ip = map_option mac_addr (find (\<lambda>e. used e \<and> ip_addr e = ip) tbl)"

definition arp_inv :: "net \<Rightarrow> bool" where
  "arp_inv s \<longleftrightarrow> length (arp_cache_tbl s) = ARP_MAX_CACHE_NUM \<and>
     distinct (map ip_addr (filter used (arp_cache_tbl s))) \<and>
     arp_cache_num s = int (length (filter used (arp_cache_tbl s)))"

lemma arp_chk_loop_Some:
  "arp_chk_loop ip i es = Some k \<Longrightarrow>
   \<exists>j. k = i + j \<and> j < length es \<and> find (\<lambda>e. used e \<and> ip_addr e = ip) es = Some (es ! j)"
proof (induction es arbitrary: i)
  case (Cons e es)
  show ?case
  proof (cases "used e \<and> ip_addr e = ip")
    case False
    then obtain j where "k = Suc i + j" "j < length es" "find (\<lambda>e. used e \<and> ip_addr e = ip) es = Some (es ! j)"
      using Cons.IH [of "Suc i"] Cons.prems by auto
    with False show ?thesis by (intro exI [of _ "Suc j"]) auto
  qed (use Cons.prems in auto)
qed simp

lemma arp_chk_loop_None:
  "arp_chk_loop ip i es = None \<longleftrightarrow> find (\<lambda>e. used e \<and> ip_addr e = ip) es = None"
  by (induction es arbitrary: i) auto

lemma arp_chk_entry_map:
  "arp_map (arp_cache_tbl s) ip =
     (case arp_chk_entry ip s of None \<Rightarrow> None | Some k \<Rightarrow> Some (mac_addr (arp_cache_tbl s ! k)))"
proof (cases "arp_chk_entry ip s")
  case None
  then show ?thesis using arp_chk_loop_None [of ip 0 "arp_cache_tbl s"] by (simp add: arp_chk_entry_def arp_map_def)
next
  case (Some k)
  then show ?thesis
    using arp_chk_loop_Some [of ip 0 "arp_cache_tbl s" k] by (auto simp: arp_chk_entry_def arp_map_def)
qed

lemma arp_chk_entry_bound: "arp_chk_entry ip s = Some k \<Longrightarrow> k < length (arp_cache_tbl s)"
  using arp_chk_loop_Some [of ip 0 "arp_cache_tbl s" k] by (auto simp: arp_chk_entry_def)

text \<open>The search of the listener, result by result.\<close>

lemma arp_listen_loop_Inl:
  "arp_listen_loop ip i f es = Inl k \<Longrightarrow>
   \<exists>j. k = i + j \<and> j < length es \<and> used (es ! j) \<and> ip_addr (es ! j) = ip"
proof (induction es arbitrary: i f)
  case (Cons e es)
  show ?case
  proof (cases "used e \<and> ip = ip_addr e")
    case False
    then obtain f' where "arp_listen_loop ip (Suc i) f' es = Inl k"
      using Cons.prems by (auto split: if_splits)
    then obtain j where "k = Suc i + j" "j < length es" "used (es ! j)" "ip_addr (es ! j) = ip"
      using Cons.IH by blast
    then show ?thesis by (intro exI [of _ "Suc j"]) auto
  qed (use Cons.prems in auto)
qed simp

lemma arp_listen_loop_absent:
  "arp_listen_loop ip i f es = Inr r \<Longrightarrow> \<forall>e\<in>set es. used e \<longrightarrow> ip_addr e \<noteq> ip"
  by (induction es arbitrary: i f) (auto split: if_splits)

lemma arp_listen_loop_kept: "arp_listen_loop ip i (Some k) es = Inr r \<Longrightarrow> r = Some k"
  by (induction es arbitrary: i) (auto split: if_splits)

lemma arp_listen_loop_free:
  "arp_listen_loop ip i None es = Inr (Some k) \<Longrightarrow> \<exists>j. k = i + j \<and> j < length es \<and> \<not> used (es ! j)"
proof (induction es arbitrary: i)
  case (Cons e es)
  show ?case
  proof (cases "used e")
    case True
    then obtain j where "k = Suc i + j" "j < length es" "\<not> used (es ! j)"
      using Cons.IH [of "Suc i"] Cons.prems by (auto split: if_splits)
    then show ?thesis by (intro exI [of _ "Suc j"]) auto
  next
    case False
    then show ?thesis using Cons.prems arp_listen_loop_kept [of ip "Suc i" i es] by auto
  qed
qed simp

lemma arp_listen_loop_full:
  "arp_listen_loop ip i None es = Inr None \<Longrightarrow> \<forall>e\<in>set es. used e"
  by (induction es arbitrary: i) (auto split: if_splits dest: arp_listen_loop_kept)

lemma arp_map_known:
  "k < length es \<Longrightarrow> used (es ! k) \<Longrightarrow> ip_addr (es ! k) = ip \<Longrightarrow>
   distinct (map ip_addr (filter used es)) \<Longrightarrow>
   arp_map (es[k := (es ! k)\<lparr>mac_addr := m\<rparr>]) ip' = (if ip' = ip then Some m else arp_map es ip')"
proof (induction es arbitrary: k)
  case (Cons e es)
  show ?case
  proof (cases k)
    case 0
    then show ?thesis using Cons.prems by (auto simp: arp_map_def)
  next
    case (Suc j)
    then have "es ! j \<in> set (filter used es)" "ip_addr (es ! j) = ip" using Cons.prems by auto
    then have "used e \<Longrightarrow> ip_addr e \<noteq> ip" using Cons.prems(4) by (auto simp: image_iff)
    moreover have "arp_map (es[j := (es ! j)\<lparr>mac_addr := m\<rparr>]) ip' = (if ip' = ip then Some m else arp_map es ip')"
      using Suc Cons.prems by (intro Cons.IH) (auto split: if_splits)
    ultimately show ?thesis using Suc by (auto simp: arp_map_def)
  qed
qed simp

lemma arp_map_new:
  "k < length es \<Longrightarrow> \<not> used (es ! k) \<Longrightarrow> \<forall>e\<in>set es. used e \<longrightarrow> ip_addr e \<noteq> ip \<Longrightarrow>
   arp_map (es[k := \<lparr>ip_addr = ip, mac_addr = m, used = True\<rparr>]) ip' =
     (if ip' = ip then Some m else arp_map es ip')"
proof (induction es arbitrary: k)
  case (Cons e es)
  show ?case
  proof (cases k)
    case 0
    then show ?thesis using Cons.prems by (auto simp: arp_map_def)
  next
    case (Suc j)
    moreover have "arp_map (es[j := \<lparr>ip_addr = ip, mac_addr = m, used = True\<rparr>]) ip' =
        (if ip' = ip then Some m else arp_map es ip')"
      using Suc Cons.prems by (intro Cons.IH) auto
    ultimately show ?thesis using Cons.prems(3) by (auto simp: arp_map_def)
  qed
qed simp

lemma filter_used_known:
  "k < length es \<Longrightarrow> used (es ! k) \<Longrightarrow>
   map ip_addr (filter used (es[k := (es ! k)\<lparr>mac_addr := m\<rparr>])) = map ip_addr (filter used es) \<and>
   length (filter used (es[k := (es ! k)\<lparr>mac_addr := m\<rparr>])) = length (filter used es)"
proof (induction es arbitrary: k)
  case (Cons e es)
  then show ?case by (cases k) auto
qed simp

lemma filter_used_new:
  "k < length es \<Longrightarrow> \<not> used (es ! k) \<Longrightarrow>
   length (filter used (es[k := \<lparr>ip_addr = ip, mac_addr = m, used = True\<rparr>])) = Suc (length (filter used es)) \<and>
   ip_addr ` set (filter used (es[k := \<lparr>ip_addr = ip, mac_addr = m, used = True\<rparr>])) =
     insert ip (ip_addr ` set (filter used es))"
proof (induction es arbitrary: k)
  case (Cons e es)
  then show ?case by (cases k) auto
qed simp

lemma distinct_used_new:
  assumes "k < length es" and "\<not> used (es ! k)" and "\<forall>e\<in>set es. used e \<longrightarrow> ip_addr e \<noteq> ip"
    and "distinct (map ip_addr (filter used es))"
  shows "distinct (map ip_addr (filter used (es[k := \<lparr>ip_addr = ip, mac_addr = m, used = True\<rparr>])))"
proof (rule card_distinct)
  have "card (set (map ip_addr (filter used es))) = length (filter used es)"
    using distinct_card [OF assms(4)] by simp
  moreover have "ip \<notin> ip_addr ` set (filter used es)" using assms(3) by auto
  ultimately show "card (set (map ip_addr (filter used (es[k := \<lparr>ip_addr = ip, mac_addr = m, used = True\<rparr>])))) =
      length (map ip_addr (filter used (es[k := \<lparr>ip_addr = ip, mac_addr = m, used = True\<rparr>])))"
    using filter_used_new [OF assms(1,2), of ip m] by simp
qed

text \<open>What a reply does to the cache.\<close>

lemma arp_reply_listener_map:
  fixes arp b :: addr and s :: net
  assumes "arp_inv s"
  defines "ip \<equiv> ntohl (mem_le32 (mem s) (arp + 14))" and "mac \<equiv> mem_bytes (mem s) (arp + 8) 6"
    and "s' \<equiv> arp_reply_listener b arp s"
  shows "arp_inv s'" and
    "arp_map (arp_cache_tbl s') x =
       (if x = ip \<and> (arp_map (arp_cache_tbl s) ip \<noteq> None \<or> arp_cache_num s < 4) then Some mac
        else arp_map (arp_cache_tbl s) x)"
proof -
  let ?t = "arp_cache_tbl s"
  have inv: "length ?t = 4" "distinct (map ip_addr (filter used ?t))" "arp_cache_num s = int (length (filter used ?t))"
    using assms(1) by (simp_all add: arp_inv_def ARP_MAX_CACHE_NUM_def)
  consider (known) k where "arp_listen_loop ip 0 None ?t = Inl k"
    | (new) k where "arp_listen_loop ip 0 None ?t = Inr (Some k)"
    | (full) "arp_listen_loop ip 0 None ?t = Inr None"
    by (metis not_Some_eq sum.exhaust)
  then have "arp_inv s' \<and> arp_map (arp_cache_tbl s') x =
       (if x = ip \<and> (arp_map ?t ip \<noteq> None \<or> arp_cache_num s < 4) then Some mac else arp_map ?t x)"
  proof cases
    case known
    then have k: "k < length ?t" "used (?t ! k)" "ip_addr (?t ! k) = ip"
      using arp_listen_loop_Inl [of ip 0 None ?t k] by auto
    have "arp_map ?t ip \<noteq> None"
      using arp_map_known [OF k inv(2), of "mac_addr (?t ! k)" ip] by simp
    then show ?thesis
      using known inv filter_used_known [OF k(1,2), of mac] arp_map_known [OF k inv(2), of mac x]
      by (simp add: s'_def arp_reply_listener_def Let_def arp_inv_def ARP_MAX_CACHE_NUM_def
          ip_def [symmetric] mac_def [symmetric])
  next
    case new
    then have k: "k < length ?t" "\<not> used (?t ! k)" "\<forall>e\<in>set ?t. used e \<longrightarrow> ip_addr e \<noteq> ip"
      using arp_listen_loop_free [of ip 0 ?t k] arp_listen_loop_absent [of ip 0 None ?t] by auto
    have "?t ! k \<in> set ?t" using k(1) by simp
    then have "length (filter used ?t) < 4" using k(2) inv(1) length_filter_less by metis
    then show ?thesis
      using new inv filter_used_new [OF k(1,2), of ip mac] arp_map_new [OF k, of mac x]
        distinct_used_new [OF k inv(2), of mac]
      by (simp add: s'_def arp_reply_listener_def Let_def arp_inv_def ARP_MAX_CACHE_NUM_def
          ip_def [symmetric] mac_def [symmetric])
  next
    case full
    then have "\<forall>e\<in>set ?t. used e" "\<forall>e\<in>set ?t. ip_addr e \<noteq> ip"
      using arp_listen_loop_full [of ip 0 ?t] arp_listen_loop_absent [of ip 0 None ?t] by auto
    then have "filter used ?t = ?t" "arp_map ?t ip = None" by (auto simp: arp_map_def find_None_iff)
    then show ?thesis
      using full inv assms(1)
      by (simp add: s'_def arp_reply_listener_def Let_def arp_inv_def
          ip_def [symmetric] mac_def [symmetric])
  qed
  then show "arp_inv s'" and "arp_map (arp_cache_tbl s') x =
       (if x = ip \<and> (arp_map ?t ip \<noteq> None \<or> arp_cache_num s < 4) then Some mac else arp_map ?t x)"
    by simp_all
qed

lemma arp_flush_inv: "arp_inv s \<Longrightarrow> arp_inv (arp_flush_cache s)"
  by (simp add: arp_inv_def arp_flush_cache_def)

lemma arp_flush_map: "arp_map (arp_cache_tbl (arp_flush_cache s)) ip = None"
  by (simp add: arp_flush_cache_def arp_map_def find_None_iff)

text \<open>The handler consumes the buffer and keeps the invariant of the cache.\<close>

lemma net_owned_upd [simp]:
  "net_owned netbuf (s\<lparr>mem := m\<rparr>) rs hs = net_owned netbuf s rs hs"
  "net_owned netbuf (s\<lparr>arp_cache_tbl := t\<rparr>) rs hs = net_owned netbuf s rs hs"
  "net_owned netbuf (s\<lparr>arp_cache_tbl := t, arp_cache_num := n\<rparr>) rs hs = net_owned netbuf s rs hs"
  by (simp_all add: net_owned_def)

lemma arp_reply_listener_owned:
  assumes "net_owned netbuf s rs hs" and "b \<in> set hs"
  shows "net_owned netbuf (arp_reply_listener b arp s) rs (remove1 b hs)"
proof -
  have "net_owned netbuf (free_nb b s') rs (remove1 b hs)" if "net_owned netbuf s' rs hs" for s'
    using that assms(2) by (rule free_nb_owned)
  then show ?thesis using assms(1)
    unfolding arp_reply_listener_def Let_def by (simp split: sum.split option.split)
qed

lemma arp_input_owned:
  assumes "net_owned netbuf s rs hs" and "b \<in> set hs"
  shows "net_owned netbuf (arp_input E b s) rs (remove1 b hs)"
proof -
  have f: "net_owned netbuf (free_nb b s) rs (remove1 b hs)" using assms by (rule free_nb_owned)
  have r: "net_owned netbuf (arp_reply_listener b a s) rs (remove1 b hs)" for a
    using assms by (rule arp_reply_listener_owned)
  have e: "net_owned netbuf (enet_send E b d t (set_nb_len b n (s\<lparr>mem := m\<rparr>))) rs (remove1 b hs)" for d t n m
    using assms by (intro enet_send_owned set_nb_len_owned) simp_all
  show ?thesis unfolding arp_input_def Let_def by (simp add: f r e)
qed

lemma enet_send_arp [simp]:
  "arp_cache_tbl (enet_send E b d t s) = arp_cache_tbl s" "arp_cache_num (enet_send E b d t s) = arp_cache_num s"
  by (simp_all add: enet_send_def Let_def)

lemma set_nb_len_arp [simp]:
  "arp_cache_tbl (set_nb_len b n s) = arp_cache_tbl s" "arp_cache_num (set_nb_len b n s) = arp_cache_num s"
  by (simp_all add: set_nb_len_def)

lemma arp_inv_cong:
  "arp_cache_tbl s' = arp_cache_tbl s \<Longrightarrow> arp_cache_num s' = arp_cache_num s \<Longrightarrow> arp_inv s' = arp_inv s"
  by (simp add: arp_inv_def)

lemma arp_input_inv:
  assumes i: "arp_inv s"
  shows "arp_inv (arp_input E b s)"
proof -
  have "arp_inv (free_nb b s)" using i by (simp add: arp_inv_def)
  moreover have "arp_inv (enet_send E b d t (set_nb_len b n (s\<lparr>mem := m\<rparr>)))" for d t n m
    using i by (simp add: arp_inv_def)
  ultimately show ?thesis
    unfolding arp_input_def Let_def using arp_reply_listener_map(1) [OF i] by simp
qed

section \<open>The reply frame\<close>

lemma mem_le32_bytes:
  "(ucast (mem_le32 m a) :: u8) = m a"
  "(ucast (drop_bit 8 (mem_le32 m a)) :: u8) = m (a + 1)"
  "(ucast (drop_bit 16 (mem_le32 m a)) :: u8) = m (a + 2)"
  "(ucast (drop_bit 24 (mem_le32 m a)) :: u8) = m (a + 3)"
proof -
  have b: "bit (x :: u8) k \<Longrightarrow> k < 8" for x k using bit_imp_le_length [of x k] by simp
  show "(ucast (mem_le32 m a) :: u8) = m a"
    "(ucast (drop_bit 8 (mem_le32 m a)) :: u8) = m (a + 1)"
    "(ucast (drop_bit 16 (mem_le32 m a)) :: u8) = m (a + 2)"
    "(ucast (drop_bit 24 (mem_le32 m a)) :: u8) = m (a + 3)"
    unfolding mem_le32_def by (rule bit_word_eqI; auto simp: bit_simps dest: b)+
qed

lemma put32_copy: "put32 m a (mem_le32 m' c) = put_bytes m a (mem_bytes m' c 4)"
proof -
  have "mem_bytes m' c 4 = [m' c, m' (c + 1), m' (c + 2), m' (c + 3)]"
    by (simp add: eval_nat_numeral add.assoc)
  then show ?thesis by (simp add: put32_bytes_eq mem_le32_bytes)
qed

lemma split_list_at: "length L = a + n \<Longrightarrow> \<exists>x y. L = x @ y \<and> length x = a \<and> length y = n"
  by (intro exI [of _ "take a L"] exI [of _ "drop a L"]) simp

lemma memcpy_disjoint:
  assumes "k + n \<le> j" and "j + n \<le> 2 ^ 32"
  shows "memcpy_loop m (p + of_nat j) (p + of_nat k) n = put_bytes m (p + of_nat j) (mem_bytes m (p + of_nat k) n)"
proof (rule memcpy_put_bytes, intro allI impI)
  fix i l assume "i < n" "l < n"
  then have "j + i \<noteq> k + l" "j + i < 2 ^ 32" "k + l < 2 ^ 32" using assms by auto
  then have "(of_nat (j + i) :: u32) \<noteq> of_nat (k + l)"
    using word_of_nat_eq_iff_less [of "j + i" "k + l", where 'a = 32] by simp
  then show "p + of_nat j + of_nat i \<noteq> p + of_nat k + of_nat l" by (simp add: add.assoc)
qed

lemma be16_2: "be16 2 = [0, 2]" "be16 ETH_TYPE_ARP = [8, 6]" "be16 ETH_TYPE_IP = [8, 0]"
  by (simp_all add: be16_def ETH_TYPE_ARP_def ETH_TYPE_IP_def)

lemma length_be32 [simp]: "length (be32 v) = 4" "length (be16 w) = 2"
  by (simp_all add: be32_def be16_def)

text \<open>The frame that \<open>enet_send\<close> hands to the driver.\<close>

lemma enet_send_frame:
  assumes "can_send E (tx_calls s)" and "length dest = 6" and "length (src_mac E) = 6"
    and "unat (nb_len s b + ETH_HDR_SIZE) = N" and "14 \<le> N"
  shows "sent (enet_send E b dest ty s) =
    sent s @ [splice 12 (be16 ty) (splice 0 dest (splice 6 (src_mac E) (mem_bytes (mem s) (nb_data s b) N)))]"
proof -
  have N: "N \<le> 2 ^ 32" using assms(4) unsigned_less [of "nb_len s b + ETH_HDR_SIZE", where 'a = nat] by simp
  have d: "nb_data (s\<lparr>tx_calls := n\<rparr>) b = nb_data s b" "nb_len (s\<lparr>tx_calls := n\<rparr>) b = nb_len s b" for n
    by (simp_all add: nb_data_def nb_len_def)
  show ?thesis
    using assms N
    by (simp add: enet_send_def Let_def d put16_htons put_bytes_splice_num put_bytes_splice_0 assms(4)
        del: put_bytes.simps)
qed

lemma arp_reply_bytes:
  fixes s :: net and b :: addr and E :: env
  defines "p \<equiv> nb_data s b"
  defines "q \<equiv> mem_bytes (mem s) p 42"
  assumes "length mac = 6"
  shows "mem_bytes (put_bytes (put_bytes (memcpy_loop (put32 (put16 (mem s) (p + 20) (htons 2)) (p + 38)
      (mem_le32 (put16 (mem s) (p + 20) (htons 2)) (p + 28))) (p + 32) (p + 22) 6) (p + 28) (be32 ip)) (p + 22) mac) p 42 =
    slice 0 20 q @ [0, 2] @ mac @ be32 ip @ slice 22 10 q"
proof -
  define m1 where "m1 = put16 (mem s) (p + 20) (htons 2)"
  define m2 where "m2 = put32 m1 (p + 38) (mem_le32 m1 (p + 28))"
  define m3 where "m3 = memcpy_loop m2 (p + 32) (p + 22) 6"
  have "length q = 42" by (simp add: q_def)
  then obtain q0 r0 where r0: "q = q0 @ r0" "length q0 = 20" "length r0 = 22"
    using split_list_at [of q 20 22] by auto
  obtain q1 r1 where r1: "r0 = q1 @ r1" "length q1 = 2" "length r1 = 20"
    using split_list_at [of r0 2 20] r0 by auto
  obtain q2 r2 where r2: "r1 = q2 @ r2" "length q2 = 6" "length r2 = 14"
    using split_list_at [of r1 6 14] r1 by auto
  obtain q3 r3 where r3: "r2 = q3 @ r3" "length q3 = 4" "length r3 = 10"
    using split_list_at [of r2 4 10] r2 by auto
  obtain q4 q5 where r4: "r3 = q4 @ q5" "length q4 = 6" "length q5 = 4"
    using split_list_at [of r3 6 4] r3 by auto
  have q: "q = q0 @ q1 @ q2 @ q3 @ q4 @ q5" using r0 r1 r2 r3 r4 by simp
  note l = r0(2) r1(2) r2(2) r3(2) r4(2,3)
  have L1: "mem_bytes m1 p 42 = q0 @ [0, 2] @ q2 @ q3 @ q4 @ q5"
    unfolding m1_def put16_htons be16_2
    by (subst put_bytes_splice_num) (simp_all add: q_def [symmetric] q l splice_def)
  have L2: "mem_bytes m2 p 42 = q0 @ [0, 2] @ q2 @ q3 @ q4 @ q3"
    unfolding m2_def put32_copy
    by (subst put_bytes_splice_num) (simp_all add: mem_bytes_slice_num [where N = 42] L1 l splice_def slice_def)
  have "m3 = put_bytes m2 (p + 32) (mem_bytes m2 (p + 22) 6)"
    unfolding m3_def using memcpy_disjoint [of 22 6 32 m2 p] by simp
  then have L3: "mem_bytes m3 p 42 = q0 @ [0, 2] @ q2 @ q3 @ q2 @ q3"
    by (simp only:) (subst put_bytes_splice_num,
        simp_all add: mem_bytes_slice_num [where N = 42] L2 l splice_def slice_def)
  have L4: "mem_bytes (put_bytes m3 (p + 28) (be32 ip)) p 42 = q0 @ [0, 2] @ q2 @ be32 ip @ q2 @ q3"
    by (subst put_bytes_splice_num) (simp_all add: L3 l splice_def)
  have "mem_bytes (put_bytes (put_bytes m3 (p + 28) (be32 ip)) (p + 22) mac) p 42 =
      q0 @ [0, 2] @ mac @ be32 ip @ q2 @ q3"
    by (subst put_bytes_splice_num) (simp_all add: L4 l assms(3) splice_def)
  then show ?thesis unfolding m3_def m2_def m1_def by (simp add: q l slice_def)
qed

text \<open>Reading a header field in network byte order.\<close>

lemma mem_le16_iff: "mem_le16 m a = w \<longleftrightarrow> m a = ucast w \<and> m (a + 1) = ucast (drop_bit 8 w)"
proof
  have b: "bit (x :: u8) k \<Longrightarrow> k < 8" for x k using bit_imp_le_length [of x k] by simp
  have c: "bit (w :: u16) k \<Longrightarrow> k < 16" for k using bit_imp_le_length [of w k] by simp
  show "mem_le16 m a = w" if "m a = ucast w \<and> m (a + 1) = ucast (drop_bit 8 w)"
    unfolding mem_le16_def using that by (intro bit_word_eqI) (auto simp: bit_simps dest: c)
  show "m a = ucast w \<and> m (a + 1) = ucast (drop_bit 8 w)" if "mem_le16 m a = w"
    unfolding that [symmetric] mem_le16_def by (intro conjI; rule bit_word_eqI; auto simp: bit_simps dest: b)
qed

lemma mem_le32_iff:
  "mem_le32 m a = w \<longleftrightarrow> m a = ucast w \<and> m (a + 1) = ucast (drop_bit 8 w) \<and>
     m (a + 2) = ucast (drop_bit 16 w) \<and> m (a + 3) = ucast (drop_bit 24 w)"
proof
  have c: "bit (w :: u32) k \<Longrightarrow> k < 32" for k using bit_imp_le_length [of w k] by simp
  show "mem_le32 m a = w" if h: "m a = ucast w \<and> m (a + 1) = ucast (drop_bit 8 w) \<and>
     m (a + 2) = ucast (drop_bit 16 w) \<and> m (a + 3) = ucast (drop_bit 24 w)"
    unfolding mem_le32_def
  proof (intro bit_word_eqI)
    fix k assume "k < LENGTH(32)"
    then consider "k < 8" | "8 \<le> k" "k < 16" | "16 \<le> k" "k < 24" | "24 \<le> k" "k < 32" by fastforce
    then show "bit (ucast (m a) OR push_bit 8 (ucast (m (a + 1))) OR push_bit 16 (ucast (m (a + 2))) OR
        push_bit 24 (ucast (m (a + 3))) :: u32) k = bit w k"
      using h by cases (auto simp: bit_simps)
  qed
  show "m a = ucast w \<and> m (a + 1) = ucast (drop_bit 8 w) \<and>
     m (a + 2) = ucast (drop_bit 16 w) \<and> m (a + 3) = ucast (drop_bit 24 w)" if "mem_le32 m a = w"
    unfolding that [symmetric] by (simp only: mem_le32_bytes)
qed

lemma ntohs_field: "ntohs (mem_le16 m a) = v \<longleftrightarrow> mem_bytes m a 2 = be16 v"
proof -
  have "ntohs (mem_le16 m a) = v \<longleftrightarrow> mem_le16 m a = htons v" by (metis htons_ntohs)
  also have "\<dots> \<longleftrightarrow> mem_bytes m a 2 = be16 v"
    unfolding mem_le16_iff htons_def ntohs_bytes by (simp add: mem_bytes_2 be16_def)
  finally show ?thesis .
qed

lemma htonl_field: "mem_le32 m a = htonl v \<longleftrightarrow> mem_bytes m a 4 = be32 v"
  unfolding mem_le32_iff htonl_def ntohl_bytes by (simp add: eval_nat_numeral be32_def add.assoc)

text \<open>A concrete host and a state that holds one received frame, for the examples.\<close>

lemma mem_bytes_put_bytes: "length xs \<le> 2 ^ 32 \<Longrightarrow> mem_bytes (put_bytes m p xs) p (length xs) = xs"
  by (subst put_bytes_splice_0) (simp_all add: splice_def)

definition demo_env :: env where
  "demo_env = \<lparr>my_ip = 0xc0a80001, my_netmask = 0xffffff00, my_gateway = 0xc0a800fe,
     my_mac = (\<lambda>_. [0, 1, 2, 3, 4, 5]), gmac_num = 0, rx_frames = (\<lambda>_. []), clock = of_nat,
     can_send = (\<lambda>_. True), keys = (\<lambda>_. None)\<rparr>"

definition demo_net :: "u8 list \<Rightarrow> net" where
  "demo_net f = \<lparr>mem = put_bytes (\<lambda>_. 0) 0x1000 f,
     bufs = \<lparr>hdrs = (\<lambda>_. \<lparr>tag = NET_BUF_TAG, next_buf = 0, len = of_nat (length f), datap = 0x1000\<rparr>),
             net_free_q = empty_queue, net_rcv_q = empty_queue\<rparr>,
     heap = snd small_heap, minfo = fst small_heap,
     arp_cache_tbl = replicate 4 \<lparr>ip_addr = 0, mac_addr = [], used = False\<rparr>, arp_cache_num = 0,
     arp_listen_handler = True, icmp_listen_handler = False, icmp_arg = 0, icmp_ident = 1, ip_ident = 0,
     udp_socks = [\<lparr>sock_used = False, listen_port = 0, from_port = 0, from_ip = 0, error_code = 0,
       buf_size = 0, data_size = 0, buf_start_p = 0, buf_end_p = 0, buf_in_p = 0, buf_out_p = 0\<rparr>],
     enet_initialized = True, sent = [], tx_calls = 0, rx_calls = 0, tick_reads = 0, key_scans = 0\<rparr>"

lemma demo_net_simps [simp]:
  "nb_data (demo_net f) b = 0x1000" "nb_len (demo_net f) b = of_nat (length f)"
  "mem (demo_net f) = put_bytes (\<lambda>_. 0) 0x1000 f" "sent (demo_net f) = []" "tx_calls (demo_net f) = 0"
  "arp_cache_num (demo_net f) = 0" "udp_socks (demo_net f) = [\<lparr>sock_used = False, listen_port = 0, from_port = 0,
     from_ip = 0, error_code = 0, buf_size = 0, data_size = 0, buf_start_p = 0, buf_end_p = 0, buf_in_p = 0, buf_out_p = 0\<rparr>]"
  by (simp_all add: demo_net_def nb_data_def nb_len_def)

section \<open>Properties\<close>

text \<open>C19. An ARP request for this host's address is answered.  When the received frame has at least
  42 bytes, is an Ethernet/IP ARP request and asks for the own address, and the driver can send,
  exactly one frame is sent: to the sender's hardware address, from the own one, with opcode reply,
  the own addresses as sender and the sender's addresses as target.\<close>

theorem arp_input_reply:
  fixes s :: net and b :: addr
  defines "q \<equiv> mem_bytes (mem s) (nb_data s b) 42"
  assumes "42 \<le> nb_len s b" and "slice 14 2 q = be16 1" and "slice 16 2 q = be16 0x800"
    and "slice 20 2 q = be16 1" and "slice 38 4 q = be32 (my_ip E)"
    and "can_send E (tx_calls s)" and "length (src_mac E) = 6"
  shows "sent (arp_input E b s) = sent s @
    [slice 22 6 q @ src_mac E @ be16 0x806 @ slice 14 6 q @ be16 2 @ src_mac E @ be32 (my_ip E) @ slice 22 10 q]"
proof -
  let ?p = "nb_data s b"
  have f: "mem_bytes (mem s) (?p + 14) 2 = slice 14 2 q" "mem_bytes (mem s) (?p + 16) 2 = slice 16 2 q"
    "mem_bytes (mem s) (?p + 20) 2 = slice 20 2 q" "mem_bytes (mem s) (?p + 38) 4 = slice 38 4 q"
    unfolding q_def by (simp_all add: mem_bytes_slice_num)
  have h: "ntohs (mem_le16 (mem s) (?p + 14)) = 1" "ntohs (mem_le16 (mem s) (?p + 16)) = 0x800"
    "ntohs (mem_le16 (mem s) (?p + 20)) = 1" "mem_le32 (mem s) (?p + 38) = htonl (my_ip E)"
    unfolding ntohs_field htonl_field f using assms by simp_all
  have n: "\<not> nb_len s b < ARP_PKT_SIZE" using assms(2) by (simp add: ARP_PKT_SIZE_def ETH_HDR_SIZE_def not_less)
  define m where "m = put_bytes (put_bytes (memcpy_loop (put32 (put16 (mem s) (?p + 20) (htons 2)) (?p + 38)
      (mem_le32 (put16 (mem s) (?p + 20) (htons 2)) (?p + 28))) (?p + 32) (?p + 22) 6) (?p + 28) (be32 (my_ip E)))
      (?p + 22) (src_mac E)"
  have m: "mem_bytes m ?p 42 = slice 0 20 q @ [0, 2] @ src_mac E @ be32 (my_ip E) @ slice 22 10 q"
    unfolding m_def q_def by (rule arp_reply_bytes [OF assms(8)])
  define s1 where "s1 = set_nb_len b 28 (s\<lparr>mem := m\<rparr>)"
  have s1: "nb_data s1 b = ?p" "nb_len s1 b = 28" "mem s1 = m" "sent s1 = sent s" "tx_calls s1 = tx_calls s"
    by (simp_all add: s1_def set_nb_len_def nb_data_def nb_len_def)
  have lq: "length q = 42" by (simp add: q_def)
  have "arp_input E b s = enet_send E b (mem_bytes m (?p + 32) 6) ETH_TYPE_ARP s1"
    using n h by (simp add: arp_input_def Let_def ETH_TYPE_IP_def ETH_HDR_SIZE_def add.assoc
        m_def s1_def put32_htonl)
  moreover have "mem_bytes m (?p + 32) 6 = slice 32 6 (mem_bytes m ?p 42)"
    by (simp add: mem_bytes_slice_num)
  moreover have "slice 32 6 (mem_bytes m ?p 42) = slice 22 6 q"
    unfolding m using lq assms(8) by (simp add: slice_def)
  ultimately have e: "arp_input E b s = enet_send E b (slice 22 6 q) ETH_TYPE_ARP s1" by simp
  have "sent (arp_input E b s) = sent s @ [splice 12 (be16 ETH_TYPE_ARP) (splice 0 (slice 22 6 q)
      (splice 6 (src_mac E) (slice 0 20 q @ [0, 2] @ src_mac E @ be32 (my_ip E) @ slice 22 10 q)))]"
    unfolding e using assms(7,8) lq s1 m
    by (subst enet_send_frame [where N = 42]) (simp_all add: ETH_HDR_SIZE_def)
  moreover have "splice 12 (be16 ETH_TYPE_ARP) (splice 0 (slice 22 6 q)
      (splice 6 (src_mac E) (slice 0 20 q @ [0, 2] @ src_mac E @ be32 (my_ip E) @ slice 22 10 q))) =
    slice 22 6 q @ src_mac E @ be16 0x806 @ slice 14 6 q @ be16 2 @ src_mac E @ be32 (my_ip E) @ slice 22 10 q"
    using lq assms(8)
    by (simp add: splice_def slice_def be16_2 min_def drop_take) (simp add: be16_def)
  ultimately show ?thesis by simp
qed

definition demo_arp_request :: "u8 list" where
  "demo_arp_request =
     [255, 255, 255, 255, 255, 255, 9, 9, 9, 9, 9, 9, 8, 6] @ [0, 1, 8, 0, 6, 4, 0, 1] @
     [9, 9, 9, 9, 9, 9, 192, 168, 0, 7] @ [0, 0, 0, 0, 0, 0, 192, 168, 0, 1]"

theorem arp_input_reply_witness:
  "sent (arp_input demo_env 0 (demo_net demo_arp_request)) =
     [[9, 9, 9, 9, 9, 9, 0, 1, 2, 3, 4, 5, 8, 6] @ [0, 1, 8, 0, 6, 4, 0, 2] @
      [0, 1, 2, 3, 4, 5, 192, 168, 0, 1] @ [9, 9, 9, 9, 9, 9, 192, 168, 0, 7]]"
proof -
  have l: "length demo_arp_request = 42" by (simp add: demo_arp_request_def)
  have q: "mem_bytes (mem (demo_net demo_arp_request)) (nb_data (demo_net demo_arp_request) 0) 42 = demo_arp_request"
    using mem_bytes_put_bytes [of demo_arp_request] l by simp
  have e: "can_send demo_env 0" "src_mac demo_env = [0, 1, 2, 3, 4, 5]" "my_ip demo_env = 0xc0a80001"
    by (simp_all add: demo_env_def src_mac_def)
  have "slice 14 2 demo_arp_request = be16 1" "slice 16 2 demo_arp_request = be16 0x800"
    "slice 20 2 demo_arp_request = be16 1" "slice 38 4 demo_arp_request = be32 (my_ip demo_env)"
    by (simp_all add: demo_arp_request_def slice_def be16_def be32_def e)
  then show ?thesis
    using arp_input_reply [of "demo_net demo_arp_request" 0 demo_env, unfolded q] l e
    by (simp add: demo_arp_request_def slice_def be16_def be32_def)
qed

text \<open>C26. A reply teaches the cache.  The listener keeps the invariant of the cache table (four
  entries, no address twice, the counter right), and afterwards the cache maps the sender's address
  to the sender's hardware address, if it was known before or an entry was free, and every other
  address as before.\<close>

theorem arp_reply_listener_learns:
  assumes "arp_inv s"
  shows "arp_inv (arp_reply_listener b arp s) \<and>
    (\<forall>x. arp_map (arp_cache_tbl (arp_reply_listener b arp s)) x =
       (if x = ntohl (mem_le32 (mem s) (arp + 14)) \<and> (arp_map (arp_cache_tbl s) x \<noteq> None \<or> arp_cache_num s < 4)
        then Some (mem_bytes (mem s) (arp + 8) 6) else arp_map (arp_cache_tbl s) x))"
  using arp_reply_listener_map [OF assms] by auto

theorem arp_reply_listener_learns_witness:
  "arp_map (arp_cache_tbl (arp_reply_listener 0 0x2000 (demo_net []))) 0 = Some [0, 0, 0, 0, 0, 0]"
proof -
  have i: "arp_inv (demo_net [])" by (simp add: arp_inv_def demo_net_def ARP_MAX_CACHE_NUM_def)
  have "mem_bytes (\<lambda>_. 0) 0x2008 6 = [0, 0, 0, 0, 0, 0 :: u8]" by (simp add: eval_nat_numeral)
  then show ?thesis
    using arp_reply_listener_learns [OF i, of 0 "0x2000"] by (simp add: mem_le32_def ntohl_def)
qed

end
