(* ===== verification/Ip.thy ===== *)
theory Ip
  imports Arp
begin

text \<open>
  IP output and routing test of \<open>src/src/net/ip.c\<close> and the ICMP handler and ping listener of
  \<open>src/src/net/icmp.c\<close>.  \<open>ip_input\<close>, which dispatches to the transport handlers, and \<open>icmp_ping\<close>,
  which polls, are in theory Enet.
\<close>

section \<open>The code\<close>

definition IP_HDR_SIZE :: u32 where "IP_HDR_SIZE = 20"
definition IP_PROTO_ICMP :: u8 where "IP_PROTO_ICMP = 1"
definition IP_PROTO_TCP :: u8 where "IP_PROTO_TCP = 6"
definition IP_PROTO_UDP :: u8 where "IP_PROTO_UDP = 17"

text \<open>\<open>ip_output\<close>: version and header length share the byte 0x45.  The total length is the length
  with the IP header, without the Ethernet header.\<close>

definition ip_output :: "env \<Rightarrow> addr \<Rightarrow> u32 \<Rightarrow> u8 \<Rightarrow> arp_entry \<Rightarrow> net \<Rightarrow> net" where
  "ip_output E b host protocol arp s =
     (let iph = nb_data s b + ETH_HDR_SIZE;
          s = set_nb_len b (nb_len s b + IP_HDR_SIZE) s;
          m = put_bytes (mem s) iph [0x45];
          m = put_bytes m (iph + 1) [0];
          m = put16 m (iph + 2) (htons (ucast (nb_len s b)));
          m = put16 m (iph + 4) (htons (ip_ident s));
          s = s\<lparr>ip_ident := ip_ident s + 1\<rparr>;
          m = put16 m (iph + 6) 0;
          m = put_bytes m (iph + 8) [64];
          m = put_bytes m (iph + 9) [protocol];
          m = put16 m (iph + 10) 0;
          m = put32 m (iph + 12) (htonl (my_ip E));
          m = put32 m (iph + 16) (htonl host);
          cksum = ip_csum m iph IP_HDR_SIZE 0;
          m = put16 m (iph + 10) (htons cksum)
      in enet_send E b (mac_addr arp) ETH_TYPE_IP (s\<lparr>mem := m\<rparr>))"

definition ip_is_local_net :: "env \<Rightarrow> u32 \<Rightarrow> bool" where
  "ip_is_local_net E a \<longleftrightarrow> (my_ip E XOR a) AND my_netmask E = 0"

text \<open>The ping listener compares the identification with the value its caller stored at \<open>arg\<close>.\<close>

definition icmp_ping_listener :: "addr \<Rightarrow> net \<Rightarrow> net" where
  "icmp_ping_listener b s =
     (let icmp = nb_data s b + ETH_HDR_SIZE + IP_HDR_SIZE in
      if icmp_arg s \<noteq> uint (ntohs (mem_le16 (mem s) (icmp + 4))) then free_nb b (s\<lparr>icmp_arg := -1\<rparr>)
      else free_nb b (s\<lparr>icmp_arg := 0\<rparr>))"

definition icmp_register_listener :: "int \<Rightarrow> net \<Rightarrow> net" where
  "icmp_register_listener arg s = s\<lparr>icmp_listen_handler := True, icmp_arg := arg\<rparr>"

definition icmp_deregister_listener :: "net \<Rightarrow> net" where
  "icmp_deregister_listener s = s\<lparr>icmp_listen_handler := False\<rparr>"

definition icmp_input :: "env \<Rightarrow> addr \<Rightarrow> net \<Rightarrow> net" where
  "icmp_input E b s =
     (let p = nb_data s b; iph = p + ETH_HDR_SIZE; icmp = p + ETH_HDR_SIZE + IP_HDR_SIZE;
          n = nb_len s b - ETH_HDR_SIZE - IP_HDR_SIZE; m = mem s in
      if m icmp = 8 \<and> m (icmp + 1) = 0 then
        (if ip_csum m icmp n 0 \<noteq> 0 then free_nb b s
         else
           (let m = put_bytes m icmp [0];
                m = put16 m (icmp + 2) 0;
                cksum = ip_csum m icmp n 0;
                m = put16 m (icmp + 2) (htons cksum);
                arp = \<lparr>ip_addr = ntohl (mem_le32 m (iph + 12)), mac_addr = mem_bytes m (p + 6) 6, used = False\<rparr>;
                s = set_nb_len b n (s\<lparr>mem := m\<rparr>)
            in ip_output E b (ip_addr arp) IP_PROTO_ICMP arp s))
      else if m icmp = 0 \<and> icmp_listen_handler s then icmp_ping_listener b s
      else free_nb b s)"

section \<open>Ownership\<close>

lemma nb_upd [simp]:
  "nb_data (s\<lparr>mem := m\<rparr>) b = nb_data s b" "nb_len (s\<lparr>mem := m\<rparr>) b = nb_len s b"
  "nb_data (s\<lparr>ip_ident := k\<rparr>) b = nb_data s b" "nb_len (s\<lparr>ip_ident := k\<rparr>) b = nb_len s b"
  "nb_data (s\<lparr>ip_ident := k, mem := m\<rparr>) b = nb_data s b" "nb_len (s\<lparr>ip_ident := k, mem := m\<rparr>) b = nb_len s b"
  "nb_data (set_nb_len c n s) b = nb_data s b" "nb_len (set_nb_len b n s) b = n"
  "mem (set_nb_len b n s) = mem s" "sent (set_nb_len b n s) = sent s"
  "tx_calls (set_nb_len b n s) = tx_calls s" "ip_ident (set_nb_len b n s) = ip_ident s"
  by (simp_all add: nb_data_def nb_len_def set_nb_len_def)

lemma net_owned_upd2 [simp]:
  "net_owned netbuf (s\<lparr>ip_ident := k, mem := m\<rparr>) rs hs = net_owned netbuf s rs hs"
  "net_owned netbuf (s\<lparr>ip_ident := k\<rparr>) rs hs = net_owned netbuf s rs hs"
  "net_owned netbuf (s\<lparr>icmp_arg := i\<rparr>) rs hs = net_owned netbuf s rs hs"
  "net_owned netbuf (s\<lparr>udp_socks := us\<rparr>) rs hs = net_owned netbuf s rs hs"
  "net_owned netbuf (s\<lparr>mem := m, udp_socks := us\<rparr>) rs hs = net_owned netbuf s rs hs"
  by (simp_all add: net_owned_def)

lemma ip_output_owned:
  assumes "net_owned netbuf s rs hs" and "b \<in> set hs"
  shows "net_owned netbuf (ip_output E b host proto arp s) rs (remove1 b hs)"
  unfolding ip_output_def Let_def
  by (rule enet_send_owned [OF _ assms(2)]) (simp add: set_nb_len_owned [OF assms])

lemma icmp_input_owned:
  assumes "net_owned netbuf s rs hs" and "b \<in> set hs"
  shows "net_owned netbuf (icmp_input E b s) rs (remove1 b hs)"
proof -
  have f: "net_owned netbuf (free_nb b s) rs (remove1 b hs)" using assms by (rule free_nb_owned)
  have g: "net_owned netbuf (free_nb b (s\<lparr>icmp_arg := i\<rparr>)) rs (remove1 b hs)" for i
    by (rule free_nb_owned [OF _ assms(2)]) (simp add: assms(1))
  have l: "net_owned netbuf (icmp_ping_listener b s) rs (remove1 b hs)"
    unfolding icmp_ping_listener_def Let_def by (simp add: g)
  have o: "net_owned netbuf (ip_output E b h pr a (set_nb_len b n (s\<lparr>mem := m\<rparr>))) rs (remove1 b hs)" for h pr a n m
    by (rule ip_output_owned [OF _ assms(2)]) (rule set_nb_len_owned [OF _ assms(2)], simp add: assms(1))
  show ?thesis unfolding icmp_input_def Let_def by (simp add: f l o)
qed

section \<open>The IP frame\<close>

text \<open>The twenty bytes of the header \<open>ip_output\<close> writes, with a given checksum field.\<close>

definition ip_hdr_bytes :: "u16 \<Rightarrow> u16 \<Rightarrow> u8 \<Rightarrow> u8 list \<Rightarrow> u32 \<Rightarrow> u32 \<Rightarrow> u8 list" where
  "ip_hdr_bytes tot ident protocol csum src dst =
     [0x45, 0] @ be16 tot @ be16 ident @ [0, 0, 64, protocol] @ csum @ be32 src @ be32 dst"

lemma length_ip_hdr_bytes [simp]: "length csum = 2 \<Longrightarrow> length (ip_hdr_bytes t i p csum a d) = 20"
  by (simp add: ip_hdr_bytes_def)

lemma put_bytes_append:
  "put_bytes (put_bytes m a xs) (a + of_nat (length xs)) ys = put_bytes m a (xs @ ys)"
proof (induction xs arbitrary: m a)
  case (Cons x xs)
  have e: "a + of_nat (length (x # xs)) = (a + 1) + of_nat (length xs)" by (simp add: algebra_simps)
  show ?case unfolding e put_bytes.simps append_Cons by (rule Cons.IH)
qed simp

lemma put_bytes_chain:
  "put_bytes (put_bytes m a xs) (a + numeral w) ys = put_bytes m a (xs @ ys)" if "length xs = numeral w"
  using put_bytes_append [of m a xs ys] that by simp

lemma put_bytes_chain_1: "length xs = 1 \<Longrightarrow> put_bytes (put_bytes m a xs) (a + 1) ys = put_bytes m a (xs @ ys)"
  using put_bytes_append [of m a xs ys] by simp

lemma put16_0: "put16 m a 0 = put_bytes m a [0, 0]"
  by (simp add: put16_bytes_eq)

text \<open>The header is written front to back, field after field.\<close>

lemma ip_hdr_written:
  "put32 (put32 (put16 (put_bytes (put_bytes (put16 (put16 (put16 (put_bytes (put_bytes m iph [0x45])
     (iph + 1) [0]) (iph + 2) (htons tot)) (iph + 4) (htons ident)) (iph + 6) 0) (iph + 8) [64]) (iph + 9) [proto])
     (iph + 10) 0) (iph + 12) (htonl src)) (iph + 16) (htonl dst) =
   put_bytes m iph (ip_hdr_bytes tot ident proto [0, 0] src dst)"
  by (simp add: put16_htons put32_htonl put16_0 put_bytes_chain put_bytes_chain_1 ip_hdr_bytes_def be16_def be32_def
      del: put_bytes.simps)

lemma bsum_checks:
  assumes "ip_csum m p n 0 = 0" and "unat n < 2 ^ 16" and "mem_bytes m' p' (unat n) = mem_bytes m p (unat n)"
  shows "ip_csum m' p' n 0 = 0"
  using assms ip_csum_zero_iff [of n] by metis

lemma unat_20: "unat (20 :: u32) = 20" by simp

text \<open>The frame of \<open>ip_output\<close>.\<close>

lemma ip_output_sent:
  assumes "can_send E (tx_calls s)" and "length (mac_addr arp) = 6" and "length (src_mac E) = 6"
    and "unat (nb_len s b) = N" and "N < 2 ^ 16"
  defines "p \<equiv> nb_data s b"
  shows "\<exists>c. length c = 2 \<and>
    sent (ip_output E b host proto arp s) = sent s @
      [mac_addr arp @ src_mac E @ be16 0x800 @
       ip_hdr_bytes (ucast (nb_len s b + 20)) (ip_ident s) proto c (my_ip E) host @
       mem_bytes (mem s) (p + 34) N] \<and>
    (\<forall>m a. mem_bytes m a 20 = ip_hdr_bytes (ucast (nb_len s b + 20)) (ip_ident s) proto c (my_ip E) host \<longrightarrow>
       ip_csum m a 20 0 = 0)"
proof -
  define hdr where "hdr = (\<lambda>c. ip_hdr_bytes (ucast (nb_len s b + 20)) (ip_ident s) proto c (my_ip E) host)"
  define iph where "iph = p + 14"
  define m1 where "m1 = put_bytes (mem s) iph (hdr [0, 0])"
  define v where "v = htons (ip_csum m1 iph 20 0)"
  define m2 where "m2 = put16 m1 (iph + 10) v"
  define s1 where "s1 = s\<lparr>ip_ident := ip_ident s + 1\<rparr>"
  define s2 where "s2 = (set_nb_len b (nb_len s b + 20) s)\<lparr>ip_ident := ip_ident s + 1, mem := m2\<rparr>"
  have lh: "length (hdr [0, 0]) = 20" by (simp add: hdr_def)
  have out: "ip_output E b host proto arp s = enet_send E b (mac_addr arp) ETH_TYPE_IP s2"
    unfolding ip_output_def Let_def s2_def m2_def v_def m1_def hdr_def iph_def p_def
    by (simp only: nb_upd ETH_HDR_SIZE_def IP_HDR_SIZE_def ip_hdr_written)
  have N: "34 + N \<le> 2 ^ 32" "14 + 20 \<le> 34 + N" using assms(5) by simp_all
  have b1: "mem_bytes m1 p (34 + N) = mem_bytes (mem s) p 14 @ hdr [0, 0] @ mem_bytes (mem s) (p + 34) N"
    unfolding m1_def iph_def using N
    by (subst put_bytes_splice_num) (simp_all add: lh splice_def mem_bytes_append [of _ _ 34 N]
        mem_bytes_append [of _ _ 14 20, simplified])
  have h1: "mem_bytes m1 iph 20 = hdr [0, 0]"
    using mem_bytes_put_bytes [of "hdr [0, 0]"] lh by (simp add: m1_def)
  have z: "m1 (iph + of_nat 10) = 0" "m1 (iph + of_nat (Suc 10)) = 0"
    using mem_nth [of 10 20 m1 iph] mem_nth [of 11 20 m1 iph]
    by (simp_all add: h1 hdr_def ip_hdr_bytes_def be16_def)
  have chk: "ip_csum m2 iph 20 0 = 0"
    using ip_csum_fill [of 20 10 m1 iph] z by (simp add: m2_def v_def)
  let ?c = "[ucast v, ucast (drop_bit 8 v)] :: u8 list"
  have m2: "m2 = put_bytes m1 (p + 24) ?c" by (simp add: m2_def iph_def put16_bytes_eq add.assoc)
  have hc: "splice 24 ?c (mem_bytes (mem s) p 14 @ hdr [0, 0] @ mem_bytes (mem s) (p + 34) N) =
      mem_bytes (mem s) p 14 @ hdr ?c @ mem_bytes (mem s) (p + 34) N"
    by (simp add: splice_def hdr_def ip_hdr_bytes_def be16_def be32_def)
  have b2: "mem_bytes m2 p (34 + N) = mem_bytes (mem s) p 14 @ hdr ?c @ mem_bytes (mem s) (p + 34) N"
    unfolding m2 using N by (subst put_bytes_splice_num) (simp_all add: b1 hc)
  have "mem_bytes m2 iph 20 = slice 14 20 (mem_bytes m2 p (34 + N))"
    unfolding iph_def by (subst mem_bytes_slice_num [where N = "34 + N"]) simp_all
  also have "\<dots> = hdr ?c" by (simp add: b2 slice_def hdr_def)
  finally have h2: "mem_bytes m2 iph 20 = hdr ?c" .
  have "\<forall>m a. mem_bytes m a 20 = hdr ?c \<longrightarrow> ip_csum m a 20 0 = 0"
    using bsum_checks [OF chk, unfolded unat_20] h2 by simp
  moreover have "sent (ip_output E b host proto arp s) = sent s @
      [mac_addr arp @ src_mac E @ be16 0x800 @ hdr ?c @ mem_bytes (mem s) (p + 34) N]"
  proof -
    have n: "unat (nb_len s2 b + ETH_HDR_SIZE) = 34 + N"
      using assms(4,5) by (simp add: s2_def ETH_HDR_SIZE_def unat_word_ariths)
    have s2: "nb_data s2 b = p" "mem s2 = m2" "sent s2 = sent s" "tx_calls s2 = tx_calls s"
      by (simp_all add: s2_def p_def)
    show ?thesis
      unfolding out using assms(1-3) s2
      by (subst enet_send_frame [OF _ _ _ n])
        (simp_all add: b2 splice_def be16_2, simp add: be16_def)
  qed
  ultimately show ?thesis unfolding hdr_def by (intro exI [of _ ?c]) simp
qed

section \<open>The echo reply\<close>

lemma ntohl_htonl [simp]: "ntohl (htonl v) = v"
proof (rule bit_word_eqI)
  fix k assume "k < LENGTH(32)"
  then consider "k < 8" | "8 \<le> k" "k < 16" | "16 \<le> k" "k < 24" | "24 \<le> k" "k < 32" by fastforce
  moreover have b: "bit (x :: u32) (j + i) = bit (ucast (drop_bit j x) :: u8) i" if "i < 8" for x i j
    using that by (simp add: bit_simps)
  ultimately show "bit (ntohl (htonl v)) k = bit v k"
  proof cases
    case 1
    then show ?thesis
      using b [of k "ntohl (htonl v)" 0] by (simp add: ntohl_bytes htonl_def) (simp add: bit_simps)
  next
    case 2
    then obtain i where "k = 8 + i" "i < 8" using le_Suc_ex [of 8 k] by auto
    then show ?thesis
      using b [of i "ntohl (htonl v)" 8] by (simp add: ntohl_bytes htonl_def) (simp add: bit_simps)
  next
    case 3
    then obtain i where "k = 16 + i" "i < 8" using le_Suc_ex [of 16 k] by auto
    then show ?thesis
      using b [of i "ntohl (htonl v)" 16] by (simp add: ntohl_bytes htonl_def) (simp add: bit_simps)
  next
    case 4
    then obtain i where "k = 24 + i" "i < 8" using le_Suc_ex [of 24 k] by auto
    then show ?thesis
      using b [of i "ntohl (htonl v)" 24] by (simp add: ntohl_bytes htonl_def) (simp add: bit_simps)
  qed
qed

lemma ucast_u16_of_nat: "(ucast (of_nat k :: u32) :: u16) = of_nat k"
  by (simp only: unsigned_of_nat) (simp add: word_of_nat_eq_iff)

lemma icmp_echo_sent:
  fixes s :: net and b :: addr
  defines "p \<equiv> nb_data s b"
  assumes "can_send E (tx_calls s)" and "length (src_mac E) = 6"
    and "unat (nb_len s b) = 34 + n" and "4 \<le> n" and "n < 2 ^ 15"
    and "q = mem_bytes (mem s) p (34 + n)"
    and "q ! 34 = 8" and "q ! 35 = 0" and "slice 26 4 q = be32 host"
    and "ip_csum (mem s) (p + 34) (of_nat n) 0 = 0"
  shows "\<exists>c d. length c = 2 \<and> length d = 2 \<and>
    sent (icmp_input E b s) = sent s @
      [slice 6 6 q @ src_mac E @ be16 0x800 @
       ip_hdr_bytes (of_nat (n + 20)) (ip_ident s) 1 c (my_ip E) host @ [0, 0] @ d @ slice 38 (n - 4) q] \<and>
    (\<forall>m a. mem_bytes m a 20 = ip_hdr_bytes (of_nat (n + 20)) (ip_ident s) 1 c (my_ip E) host \<longrightarrow>
       ip_csum m a 20 0 = 0) \<and>
    (\<forall>m a. mem_bytes m a n = [0, 0] @ d @ slice 38 (n - 4) q \<longrightarrow> ip_csum m a (of_nat n) 0 = 0)"
proof -
  define icmp where "icmp = p + 34"
  define m1 where "m1 = put16 (put_bytes (mem s) icmp [0]) (icmp + 2) 0"
  define v where "v = htons (ip_csum m1 icmp (of_nat n) 0)"
  define m2 where "m2 = put16 m1 (icmp + 2) v"
  let ?d = "[ucast v, ucast (drop_bit 8 v)] :: u8 list"
  define s1 where "s1 = set_nb_len b (of_nat n) (s\<lparr>mem := m2\<rparr>)"
  have un: "unat (of_nat n :: u32) = n" using assms(6) by (simp add: unat_of_nat)
  have nl: "nb_len s b - 14 - 20 = of_nat n"
  proof -
    have "nb_len s b = of_nat (34 + n)" using assms(4) by (metis of_nat_unat ucast_id)
    then show ?thesis by simp
  qed
  have l: "length q = 34 + n" by (simp add: assms(7))
  define q0 where "q0 = slice 0 34 q"
  define rest where "rest = slice 38 (n - 4) q"
  obtain x y where xy: "q = q0 @ [8, 0, x, y] @ rest" and l0: "length q0 = 34" and lr: "length rest = n - 4"
  proof (rule that)
    have "q = take 34 q @ q ! 34 # q ! 35 # q ! 36 # q ! 37 # drop 38 q"
    proof -
      have d: "drop k q = q ! k # drop (Suc k) q" if "k < length q" for k
        using that by (rule Cons_nth_drop_Suc [symmetric])
      have "drop 34 q = q ! 34 # q ! 35 # q ! 36 # q ! 37 # drop 38 q"
        using d [of 34] d [of 35] d [of 36] d [of 37] l assms(5) by simp
      then show ?thesis by (metis append_take_drop_id)
    qed
    then show "q = q0 @ [8, 0, q ! 36, q ! 37] @ rest"
      using assms(8,9) l by (simp add: q0_def rest_def slice_def)
  qed (use l assms(5) in \<open>simp_all add: q0_def rest_def\<close>)
  have N: "34 + n \<le> 2 ^ 32" using assms(6) by simp
  have a: "mem_bytes (put_bytes (mem s) icmp [0]) p (34 + n) = q0 @ [0, 0, x, y] @ rest"
    unfolding icmp_def using N assms(5)
    by (subst put_bytes_splice_num) (simp_all add: assms(7) [symmetric] xy l0 lr splice_def)
  have b1: "mem_bytes m1 p (34 + n) = q0 @ [0, 0, 0, 0] @ rest"
    unfolding m1_def put16_0 icmp_def add.assoc using N assms(5) a [unfolded icmp_def]
    by (simp del: put_bytes.simps, subst put_bytes_splice_num)
      (simp_all del: put_bytes.simps add: l0 lr splice_def)
  have i1: "mem_bytes m1 icmp n = [0, 0, 0, 0] @ rest"
    unfolding icmp_def using assms(5)
    by (subst mem_bytes_slice_num [where N = "34 + n"]) (simp_all add: b1 slice_def l0 lr)
  have z: "m1 (icmp + of_nat 2) = 0" "m1 (icmp + of_nat (Suc 2)) = 0"
    using mem_nth [of 2 n m1 icmp] mem_nth [of 3 n m1 icmp] assms(5) by (simp_all add: i1)
  have chk: "ip_csum m2 icmp (of_nat n) 0 = 0"
    using ip_csum_fill [of "of_nat n" 2 m1 icmp] z un assms(5,6) by (simp add: m2_def v_def)
  have b2: "mem_bytes m2 p (34 + n) = q0 @ [0, 0] @ ?d @ rest"
    unfolding m2_def icmp_def put16_bytes_eq add.assoc using N assms(5)
    by (simp del: put_bytes.simps, subst put_bytes_splice_num) (simp_all add: b1 l0 lr splice_def)
  have i2: "mem_bytes m2 icmp n = [0, 0] @ ?d @ rest"
    unfolding icmp_def using assms(5)
    by (subst mem_bytes_slice_num [where N = "34 + n"]) (simp_all add: b2 slice_def l0 lr)
  have sl: "slice 26 4 (q0 @ ys) = slice 26 4 q" "slice 6 6 (q0 @ ys) = slice 6 6 q" for ys
    using l0 unfolding xy by (simp_all add: slice_def)
  have mac: "mem_bytes m2 (p + 6) 6 = slice 6 6 q"
    by (subst mem_bytes_slice_num [where N = "34 + n"]) (simp_all add: b2 sl)
  have "mem_bytes m2 (p + 26) 4 = be32 host"
    by (subst mem_bytes_slice_num [where N = "34 + n"]) (simp_all add: b2 sl assms(10))
  then have ho: "ntohl (mem_le32 m2 (p + 26)) = host" unfolding htonl_field [symmetric] by simp
  have t: "mem s icmp = 8" "mem s (icmp + 1) = 0"
    using mem_nth [of 34 "34 + n" "mem s" p] mem_nth [of 35 "34 + n" "mem s" p] assms(5,8,9)
    by (simp_all add: assms(7) [symmetric] icmp_def add.assoc)
  define arp where "arp = \<lparr>ip_addr = host, mac_addr = slice 6 6 q, used = False\<rparr>"
  have st: "icmp_input E b s = ip_output E b host 1 arp s1"
  proof -
    have m2e: "put16 (put16 ((mem s)(p + 34 := 0)) (p + 36) 0) (p + 36)
        (htons (ip_csum (put16 ((mem s)(p + 34 := 0)) (p + 36) 0) (p + 34) (of_nat n) 0)) = m2"
      by (simp add: m2_def v_def m1_def icmp_def add.assoc)
    show ?thesis
      using t assms(11)
      by (simp add: icmp_input_def Let_def ETH_HDR_SIZE_def IP_HDR_SIZE_def IP_PROTO_ICMP_def add.assoc
          p_def [symmetric] icmp_def nl m2e ho mac arp_def s1_def)
  qed
  have s1: "can_send E (tx_calls s1)" "length (mac_addr arp) = 6" "unat (nb_len s1 b) = n" "n < 2 ^ 16"
    using assms(2,6) l assms(5) un by (simp_all add: s1_def arp_def)
  have f: "nb_data s1 b = p" "nb_len s1 b = of_nat n" "ip_ident s1 = ip_ident s" "mem s1 = m2" "sent s1 = sent s"
    by (simp_all add: s1_def p_def)
  obtain c where c: "length c = 2"
    "sent (ip_output E b host 1 arp s1) = sent s @
      [slice 6 6 q @ src_mac E @ be16 0x800 @
       ip_hdr_bytes (of_nat (n + 20)) (ip_ident s) 1 c (my_ip E) host @ [0, 0] @ ?d @ rest]"
    "\<forall>m a. mem_bytes m a 20 = ip_hdr_bytes (of_nat (n + 20)) (ip_ident s) 1 c (my_ip E) host \<longrightarrow>
       ip_csum m a 20 0 = 0"
  proof -
    have u: "(ucast (of_nat n + 20 :: u32) :: u16) = of_nat (n + 20)"
    proof -
      have "(of_nat n + 20 :: u32) = of_nat (n + 20)" by simp
      then show ?thesis by (simp only: ucast_u16_of_nat)
    qed
    have m: "mac_addr arp = slice 6 6 q" by (simp add: arp_def)
    show ?thesis
      using ip_output_sent [OF s1(1,2) assms(3) s1(3,4), of host 1] that
      unfolding f u m i2 [unfolded icmp_def] by (auto simp del: of_nat_add)
  qed
  have "\<forall>m a. mem_bytes m a n = [0, 0] @ ?d @ rest \<longrightarrow> ip_csum m a (of_nat n) 0 = 0"
    using bsum_checks [OF chk] un i2 assms(6) by simp
  with c show ?thesis unfolding st rest_def by (intro exI [of _ c] exI [of _ ?d]) simp
qed

section \<open>Properties\<close>

text \<open>C23. The frame of \<open>ip_output\<close>.  When the driver can send and the addresses have six bytes, one
  frame leaves: destination, source and type, a header of version 4 with the total length, the
  identification, the time to live 64, the protocol and the addresses, and the payload unchanged;
  every header with these bytes passes the checksum test.\<close>

theorem ip_output_frame:
  assumes "can_send E (tx_calls s)" and "length (mac_addr arp) = 6" and "length (src_mac E) = 6"
    and "unat (nb_len s b) = N" and "N < 2 ^ 16"
  shows "\<exists>c. length c = 2 \<and>
    sent (ip_output E b host proto arp s) = sent s @
      [mac_addr arp @ src_mac E @ be16 0x800 @
       ip_hdr_bytes (ucast (nb_len s b + 20)) (ip_ident s) proto c (my_ip E) host @
       mem_bytes (mem s) (nb_data s b + 34) N] \<and>
    (\<forall>m a. mem_bytes m a 20 = ip_hdr_bytes (ucast (nb_len s b + 20)) (ip_ident s) proto c (my_ip E) host \<longrightarrow>
       ip_csum m a 20 0 = 0)"
  using ip_output_sent [OF assms] .

theorem ip_output_frame_witness:
  "\<exists>c. sent (ip_output demo_env 0 0xc0a80007 17 \<lparr>ip_addr = 0xc0a80007, mac_addr = replicate 6 9, used = True\<rparr>
      (demo_net [])) =
    [replicate 6 9 @ [0, 1, 2, 3, 4, 5] @ be16 0x800 @ ip_hdr_bytes 20 0 17 c 0xc0a80001 0xc0a80007]"
proof -
  have e: "can_send demo_env 0" "src_mac demo_env = [0, 1, 2, 3, 4, 5]" "my_ip demo_env = 0xc0a80001"
    "ip_ident (demo_net []) = 0"
    by (simp_all add: demo_env_def src_mac_def demo_net_def)
  show ?thesis
    using ip_output_frame [of demo_env "demo_net []"
        "\<lparr>ip_addr = 0xc0a80007, mac_addr = replicate 6 9, used = True\<rparr>" 0 0 "0xc0a80007" 17] e
    by auto
qed

text \<open>C18. An echo request is answered.  A received ICMP echo request with a right checksum is sent
  back to the hardware and IP address it came from, as an echo reply with the same identifier,
  sequence number and data; both checksums of the reply are right.\<close>

theorem icmp_echo_reply:
  fixes s :: net and b :: addr
  assumes "can_send E (tx_calls s)" and "length (src_mac E) = 6"
    and "unat (nb_len s b) = 34 + n" and "4 \<le> n" and "n < 2 ^ 15"
    and "q = mem_bytes (mem s) (nb_data s b) (34 + n)"
    and "q ! 34 = 8" and "q ! 35 = 0" and "slice 26 4 q = be32 host"
    and "ip_csum (mem s) (nb_data s b + 34) (of_nat n) 0 = 0"
  shows "\<exists>c d. length c = 2 \<and> length d = 2 \<and>
    sent (icmp_input E b s) = sent s @
      [slice 6 6 q @ src_mac E @ be16 0x800 @
       ip_hdr_bytes (of_nat (n + 20)) (ip_ident s) 1 c (my_ip E) host @ [0, 0] @ d @ slice 38 (n - 4) q] \<and>
    (\<forall>m a. mem_bytes m a 20 = ip_hdr_bytes (of_nat (n + 20)) (ip_ident s) 1 c (my_ip E) host \<longrightarrow>
       ip_csum m a 20 0 = 0) \<and>
    (\<forall>m a. mem_bytes m a n = [0, 0] @ d @ slice 38 (n - 4) q \<longrightarrow> ip_csum m a (of_nat n) 0 = 0)"
  using icmp_echo_sent [OF assms] .

definition demo_echo_request :: "u8 list" where
  "demo_echo_request =
     [0, 1, 2, 3, 4, 5, 9, 9, 9, 9, 9, 9, 8, 0] @
     [69, 0, 0, 28, 0, 0, 0, 0, 64, 1, 0, 0, 192, 168, 0, 7, 192, 168, 0, 1] @ [8, 0, 247, 252, 0, 1, 0, 2]"

theorem icmp_echo_reply_witness:
  "\<exists>c d. sent (icmp_input demo_env 0 (demo_net demo_echo_request)) =
     [[9, 9, 9, 9, 9, 9] @ [0, 1, 2, 3, 4, 5] @ be16 0x800 @ ip_hdr_bytes 28 0 1 c 0xc0a80001 0xc0a80007 @
      [0, 0] @ d @ [0, 1, 0, 2]]"
proof -
  have l: "length demo_echo_request = 42" by (simp add: demo_echo_request_def)
  have q: "mem_bytes (mem (demo_net demo_echo_request)) (nb_data (demo_net demo_echo_request) 0) (34 + 8) =
      demo_echo_request"
    using mem_bytes_put_bytes [of demo_echo_request] l by simp
  have e: "can_send demo_env 0" "src_mac demo_env = [0, 1, 2, 3, 4, 5]" "my_ip demo_env = 0xc0a80001"
    "ip_ident (demo_net demo_echo_request) = 0" "length (src_mac demo_env) = 6"
    by (simp_all add: demo_env_def src_mac_def demo_net_def)
  have "mem_bytes (mem (demo_net demo_echo_request)) (0x1000 + 34) 8 = slice 34 8 demo_echo_request"
    using mem_bytes_slice [of 34 8 42 "mem (demo_net demo_echo_request)" "0x1000"] q by simp
  then have b: "mem_bytes (mem (demo_net demo_echo_request)) 0x1022 8 = [8, 0, 247, 252, 0, 1, 0, 2]"
    by (simp add: demo_echo_request_def slice_def)
  have c: "ip_csum (mem (demo_net demo_echo_request)) (nb_data (demo_net demo_echo_request) 0 + 34) (of_nat 8) 0 = 0"
    using ip_csum_zero_iff [of 8 "mem (demo_net demo_echo_request)" "0x1022"] b by simp
  show ?thesis
    using icmp_echo_reply [of demo_env "demo_net demo_echo_request" 0 8 demo_echo_request "0xc0a80007", unfolded q] l e c
    by (auto simp: demo_echo_request_def slice_def be32_def)
qed

end
