(* ===== verification/Udp.thy ===== *)
theory Udp
  imports Ip
begin

text \<open>
  The UDP sockets of \<open>src/src/net/udp.c\<close>: received datagrams are checked and appended to the ring
  buffer of the socket they are for, \<open>udp_recvfrom\<close> takes bytes out of it.  The wait loop of
  \<open>udp_recvfrom\<close> and \<open>udp_sendto\<close>, which poll the network, are in theory Enet; the transfer loops
  and everything else are here.

  The ring buffer implements a byte queue: \<open>ring m k q\<close> says that the buffer of socket \<open>k\<close> holds the
  bytes \<open>q\<close>; the loops are shown to append and to take from the front.
\<close>

section \<open>The code\<close>

definition UDP_SOCKET_MAX_NUM :: nat where "UDP_SOCKET_MAX_NUM = 1"
definition UDP_SOCK_BUF_SIZE :: u32 where "UDP_SOCK_BUF_SIZE = 8 * 1024"
definition UDP_HDR_SIZE :: u32 where "UDP_HDR_SIZE = 8"
definition UDP_DATA_MAX_SIZE :: u32 where "UDP_DATA_MAX_SIZE = 1514 - ETH_HDR_SIZE - IP_HDR_SIZE - UDP_HDR_SIZE"
definition UDP_ERROR_NO_BUF :: int where "UDP_ERROR_NO_BUF = -1"
definition UDP_ERROR_OVERFLOW :: int where "UDP_ERROR_OVERFLOW = -2"

definition cleared_sock :: udp_sock where
  "cleared_sock = \<lparr>sock_used = False, listen_port = 0, from_port = 0, from_ip = 0, error_code = 0,
     buf_size = 0, data_size = 0, buf_start_p = 0, buf_end_p = 0, buf_in_p = 0, buf_out_p = 0\<rparr>"

definition udp_init :: "net \<Rightarrow> net" where
  "udp_init s = s\<lparr>udp_socks := replicate UDP_SOCKET_MAX_NUM cleared_sock\<rparr>"

definition udp_pseudo_sum :: "mem \<Rightarrow> addr \<Rightarrow> u32" where
  "udp_pseudo_sum m ip =
     ucast (mem_le16 m (ip + 12)) + ucast (mem_le16 m (ip + 14)) + ucast (mem_le16 m (ip + 16)) +
     ucast (mem_le16 m (ip + 18)) + push_bit 8 (ucast (m (ip + 9))) + ucast (mem_le16 m (ip + 2))"

text \<open>The copy loop of \<open>udp_input\<close>, \<open>while (len)\<close>.\<close>

fun udp_copy_in :: "nat \<Rightarrow> addr \<Rightarrow> mem \<times> udp_sock \<Rightarrow> mem \<times> udp_sock" where
  "udp_copy_in 0 data_p (m, k) = (m, k)"
| "udp_copy_in (Suc n) data_p (m, k) =
     (let m = m(buf_in_p k := m data_p);
          k = k\<lparr>buf_in_p := buf_in_p k + 1\<rparr>;
          k = (if buf_end_p k \<le> buf_in_p k then k\<lparr>buf_in_p := buf_start_p k\<rparr> else k)
      in udp_copy_in n (data_p + 1) (m, k\<lparr>data_size := data_size k + 1\<rparr>))"

text \<open>The datagram for a matching socket; \<open>len\<close> is an \<open>int\<close> on 32 bits.\<close>

definition udp_deliver :: "u16 \<Rightarrow> addr \<Rightarrow> u32 \<Rightarrow> mem \<times> udp_sock \<Rightarrow> mem \<times> udp_sock" where
  "udp_deliver sport data_p n = (\<lambda>(m, k).
     let k = k\<lparr>from_port := ntohs sport\<rparr> in
     if buf_start_p k \<noteq> 0 then
       (if buf_size k <s data_size k + n then (m, k\<lparr>error_code := UDP_ERROR_OVERFLOW\<rparr>)
        else udp_copy_in (unat n) data_p (m, k))
     else (m, k\<lparr>error_code := UDP_ERROR_NO_BUF\<rparr>))"

definition udp_match :: "env \<Rightarrow> mem \<Rightarrow> addr \<Rightarrow> addr \<Rightarrow> udp_sock \<Rightarrow> bool" where
  "udp_match E m iph udp k \<longleftrightarrow>
     listen_port k = mem_le16 m (udp + 2) \<and> from_ip k = mem_le32 m (iph + 12) \<and>
     ntohl (mem_le32 m (iph + 16)) = my_ip E"

fun udp_find :: "env \<Rightarrow> mem \<Rightarrow> addr \<Rightarrow> addr \<Rightarrow> nat \<Rightarrow> udp_sock list \<Rightarrow> nat option" where
  "udp_find E m iph udp i [] = None"
| "udp_find E m iph udp i (k # ks) =
     (if udp_match E m iph udp k then Some i else udp_find E m iph udp (Suc i) ks)"

definition udp_input :: "env \<Rightarrow> addr \<Rightarrow> net \<Rightarrow> net" where
  "udp_input E b s =
     (let iph = nb_data s b + ETH_HDR_SIZE; udp = nb_data s b + ETH_HDR_SIZE + IP_HDR_SIZE; data_p = udp + 8;
          n = ucast (htons (mem_le16 (mem s) (udp + 4))) - UDP_HDR_SIZE;
          m = (if mem_le16 (mem s) (udp + 6) = 0xffff then put16 (mem s) (udp + 6) 0 else mem s);
          m = put16 m (iph + 2) (mem_le16 m (udp + 4)) in
      if ip_csum m udp (ucast (ntohs (mem_le16 m (udp + 4)))) (udp_pseudo_sum m iph) \<noteq> 0
      then free_nb b (s\<lparr>mem := m\<rparr>)
      else
        (case udp_find E m iph udp 0 (udp_socks s) of
           None \<Rightarrow> free_nb b (s\<lparr>mem := m\<rparr>)
         | Some i \<Rightarrow>
             (let (m, k) = udp_deliver (mem_le16 m udp) data_p n (m, udp_socks s ! i)
              in free_nb b (s\<lparr>mem := m, udp_socks := (udp_socks s)[i := k]\<rparr>))))"

text \<open>The search of \<open>udp_socket\<close>; \<open>None\<close> when an allocation would not return.\<close>

definition open_sock :: "u32 \<Rightarrow> addr \<Rightarrow> udp_sock \<Rightarrow> udp_sock" where
  "open_sock server p k =
     k\<lparr>buf_start_p := p, from_ip := htonl server, buf_in_p := p, buf_out_p := p,
       buf_end_p := p + UDP_SOCK_BUF_SIZE, buf_size := UDP_SOCK_BUF_SIZE, data_size := 0, error_code := 0\<rparr>"

fun free_sock :: "nat \<Rightarrow> udp_sock list \<Rightarrow> nat option" where
  "free_sock i [] = None"
| "free_sock i (k # ks) = (if \<not> sock_used k then Some i else free_sock (Suc i) ks)"

definition udp_socket :: "u32 \<Rightarrow> net \<Rightarrow> (int \<times> net) option" where
  "udp_socket server s =
     (case free_sock 0 (udp_socks s) of
        None \<Rightarrow> Some (-1, s)
      | Some i \<Rightarrow>
          (let k = (udp_socks s ! i)\<lparr>sock_used := True, listen_port := 0\<rparr> in
           Option.bind (sys_malloc (minfo s) UDP_SOCK_BUF_SIZE (heap s)) (\<lambda>(p, h).
             if p = 0 then
               Some (-1, s\<lparr>heap := h, udp_socks := (udp_socks s)[i := k\<lparr>buf_start_p := 0\<rparr>]\<rparr>)
             else Some (int i, s\<lparr>heap := h, udp_socks := (udp_socks s)[i := open_sock server p k]\<rparr>))))"

definition udp_close :: "int \<Rightarrow> net \<Rightarrow> (int \<times> net) option" where
  "udp_close sd s =
     (if sd < 0 \<or> int UDP_SOCKET_MAX_NUM \<le> sd then Some (-1, s)
      else
        (let i = nat sd; k = (udp_socks s ! i)\<lparr>sock_used := False, listen_port := 0\<rparr>;
             s = s\<lparr>udp_socks := (udp_socks s)[i := k]\<rparr>
         in if buf_start_p k \<noteq> 0
            then map_option (\<lambda>h. (0, s\<lparr>heap := h\<rparr>)) (sys_free (buf_start_p k) (heap s))
            else Some (0, s)))"

definition udp_output :: "env \<Rightarrow> addr \<Rightarrow> u32 \<Rightarrow> u32 \<Rightarrow> u16 \<Rightarrow> u16 \<Rightarrow> arp_entry \<Rightarrow> net \<Rightarrow> int \<times> net" where
  "udp_output E data n host sport dport arp s =
     (let (b, s) = alloc_nb s in
      if b = 0 then (-1, s)
      else if UDP_DATA_MAX_SIZE < n then (-1, free_nb b s)
      else
        (let s = set_nb_len b (n + UDP_HDR_SIZE) s;
             iph = nb_data s b + ETH_HDR_SIZE; udp = nb_data s b + ETH_HDR_SIZE + IP_HDR_SIZE;
             m = put16 (mem s) udp (htons sport);
             m = put16 m (udp + 2) (htons dport);
             m = put16 m (udp + 4) (htons (ucast (nb_len s b)));
             m = put16 m (udp + 6) 0;
             m = memcpy_loop m (udp + 8) data (unat n);
             m = put32 m (iph + 12) (htonl (my_ip E));
             m = put32 m (iph + 16) (htonl (ip_addr arp));
             m = put_bytes m (iph + 9) [IP_PROTO_UDP];
             m = put16 m (iph + 2) (mem_le16 m (udp + 4));
             cksum = ip_csum m udp (nb_len s b) (udp_pseudo_sum m iph);
             m = put16 m (udp + 6) (htons cksum)
         in (0, ip_output E b host IP_PROTO_UDP arp (s\<lparr>mem := m\<rparr>))))"

text \<open>The copy loop of \<open>udp_recvfrom\<close>: \<open>while (data_size && max_size)\<close>; the result is the number of
  bytes taken.\<close>

fun udp_copy_out :: "nat \<Rightarrow> addr \<Rightarrow> mem \<times> udp_sock \<Rightarrow> nat \<times> mem \<times> udp_sock" where
  "udp_copy_out 0 data_p (m, k) = (0, m, k)"
| "udp_copy_out (Suc n) data_p (m, k) =
     (if data_size k = 0 then (0, m, k)
      else
        (let m = m(data_p := m (buf_out_p k));
             k = k\<lparr>buf_out_p := buf_out_p k + 1\<rparr>;
             k = (if buf_end_p k \<le> buf_out_p k then k\<lparr>buf_out_p := buf_start_p k\<rparr> else k);
             (t, m, k) = udp_copy_out n (data_p + 1) (m, k\<lparr>data_size := data_size k - 1\<rparr>)
         in (Suc t, m, k)))"

section \<open>The ring buffer\<close>

definition ring_slot :: "udp_sock \<Rightarrow> nat \<Rightarrow> addr" where
  "ring_slot k i = of_nat (unat (buf_start_p k) + i mod unat (buf_size k))"

definition ring_at :: "mem \<Rightarrow> udp_sock \<Rightarrow> nat \<Rightarrow> u8 list \<Rightarrow> bool" where
  "ring_at m k t q \<longleftrightarrow>
     0 < unat (buf_size k) \<and> unat (buf_start_p k) + unat (buf_size k) < 2 ^ 32 \<and>
     buf_end_p k = buf_start_p k + buf_size k \<and> length q \<le> unat (buf_size k) \<and>
     buf_out_p k = ring_slot k t \<and> buf_in_p k = ring_slot k (t + length q) \<and>
     unat (data_size k) = length q \<and> (\<forall>i<length q. m (ring_slot k (t + i)) = q ! i)"

definition ring :: "mem \<Rightarrow> udp_sock \<Rightarrow> u8 list \<Rightarrow> bool" where
  "ring m k q \<longleftrightarrow> (\<exists>t. ring_at m k t q)"

lemma unat_ring_slot:
  assumes "0 < unat (buf_size k)" and "unat (buf_start_p k) + unat (buf_size k) < 2 ^ 32"
  shows "unat (ring_slot k i) = unat (buf_start_p k) + i mod unat (buf_size k)"
proof -
  have "i mod unat (buf_size k) < unat (buf_size k)" using assms(1) by simp
  then have "unat (buf_start_p k) + i mod unat (buf_size k) < 2 ^ 32" using assms(2) by linarith
  then show ?thesis unfolding ring_slot_def by (simp only: unat_of_nat) simp
qed

lemma ring_advance:
  assumes "0 < unat (buf_size k)" and "unat (buf_start_p k) + unat (buf_size k) < 2 ^ 32"
    and "buf_end_p k = buf_start_p k + buf_size k"
  shows "(if buf_end_p k \<le> ring_slot k i + 1 then buf_start_p k else ring_slot k i + 1) = ring_slot k (Suc i)"
proof -
  let ?Z = "unat (buf_size k)" and ?S = "unat (buf_start_p k)"
  have "i mod ?Z < ?Z" using assms(1) by simp
  then have l: "?S + i mod ?Z + 1 < 2 ^ 32" using assms(2) by linarith
  then have u: "unat (ring_slot k i + 1) = ?S + i mod ?Z + 1"
    using unat_ring_slot [OF assms(1,2), of i] by (simp add: unat_word_ariths)
  have e: "unat (buf_end_p k) = ?S + ?Z" using assms(2,3) by (simp add: unat_word_ariths)
  show ?thesis
  proof (cases "Suc (i mod ?Z) = ?Z")
    case True
    then have "buf_end_p k \<le> ring_slot k i + 1" using u e by (simp add: word_le_nat_alt)
    moreover have "Suc i mod ?Z = 0" using True by (simp add: mod_Suc)
    ultimately show ?thesis by (simp add: ring_slot_def)
  next
    case False
    then have "\<not> buf_end_p k \<le> ring_slot k i + 1"
      using u e \<open>i mod ?Z < ?Z\<close> by (simp add: word_le_nat_alt)
    moreover have "Suc i mod ?Z = Suc (i mod ?Z)" using False by (simp add: mod_Suc)
    ultimately show ?thesis by (simp add: ring_slot_def algebra_simps)
  qed
qed

lemma mod_add_left_inj:
  assumes "i < (n :: nat)" and "j < n" and "(t + i) mod n = (t + j) mod n"
  shows "i = j"
proof -
  have "\<not> (x < y \<and> y < n \<and> (t + x) mod n = (t + y) mod n)" for x y
  proof
    assume h: "x < y \<and> y < n \<and> (t + x) mod n = (t + y) mod n"
    then have "n dvd (t + y) - (t + x)" using mod_eq_dvd_iff_nat [of "t + x" "t + y" n] by simp
    with h show False by (auto dest: dvd_imp_le)
  qed
  then show ?thesis using assms by (metis nat_neq_iff)
qed

lemma ring_slot_inj:
  assumes "0 < unat (buf_size k)" and "unat (buf_start_p k) + unat (buf_size k) < 2 ^ 32"
    and "ring_slot k (t + i) = ring_slot k (t + j)" and "i < unat (buf_size k)" and "j < unat (buf_size k)"
  shows "i = j"
proof -
  have "(t + i) mod unat (buf_size k) = (t + j) mod unat (buf_size k)"
    using arg_cong [OF assms(3), of unat] by (simp add: unat_ring_slot [OF assms(1,2)])
  then show ?thesis
    using assms(4,5) mod_add_left_inj [of i "unat (buf_size k)" j t] by simp
qed

lemma ring_slot_cong:
  "buf_start_p k' = buf_start_p k \<Longrightarrow> buf_size k' = buf_size k \<Longrightarrow> ring_slot k' i = ring_slot k i"
  by (simp add: ring_slot_def)

text \<open>One byte in, one byte out.\<close>

lemma udp_copy_in_Suc:
  "udp_copy_in (Suc n) a (m, k) =
     udp_copy_in n (a + 1) (m(buf_in_p k := m a),
       k\<lparr>buf_in_p := (if buf_end_p k \<le> buf_in_p k + 1 then buf_start_p k else buf_in_p k + 1),
         data_size := data_size k + 1\<rparr>)"
  by (simp add: Let_def)

lemma ring_put:
  assumes "ring_at m k t q" and "length q < unat (buf_size k)"
  shows "ring_at (m(buf_in_p k := x))
    (k\<lparr>buf_in_p := (if buf_end_p k \<le> buf_in_p k + 1 then buf_start_p k else buf_in_p k + 1),
       data_size := data_size k + 1\<rparr>) t (q @ [x])"
proof -
  let ?k = "k\<lparr>buf_in_p := (if buf_end_p k \<le> buf_in_p k + 1 then buf_start_p k else buf_in_p k + 1),
       data_size := data_size k + 1\<rparr>"
  have z: "0 < unat (buf_size k)" "unat (buf_start_p k) + unat (buf_size k) < 2 ^ 32"
    "buf_end_p k = buf_start_p k + buf_size k" "buf_in_p k = ring_slot k (t + length q)"
    "unat (data_size k) = length q"
    using assms(1) by (simp_all add: ring_at_def)
  have c: "ring_slot ?k i = ring_slot k i" for i by (rule ring_slot_cong) simp_all
  have "unat (data_size k + 1) = Suc (length q)"
    using z(2,5) assms(2) by (simp add: unat_word_ariths)
  moreover have "ring_slot k (t + i) \<noteq> ring_slot k (t + length q)" if "i < length q" for i
    using ring_slot_inj [OF z(1,2), of t i "length q"] that assms(2) by auto
  ultimately show ?thesis
    using assms z ring_advance [OF z(1-3), of "t + length q"]
    unfolding ring_at_def c by (auto simp: nth_append less_Suc_eq)
qed

lemma udp_copy_in_ring:
  assumes "ring_at m k t q" and "length q + n \<le> unat (buf_size k)"
    and "\<forall>i<n. \<forall>j. a + of_nat i \<noteq> ring_slot k j"
  shows "ring_at (fst (udp_copy_in n a (m, k))) (snd (udp_copy_in n a (m, k))) t (q @ mem_bytes m a n)"
  using assms
proof (induction n arbitrary: a m k q)
  case (Suc n)
  let ?m = "m(buf_in_p k := m a)"
  let ?k = "k\<lparr>buf_in_p := (if buf_end_p k \<le> buf_in_p k + 1 then buf_start_p k else buf_in_p k + 1),
       data_size := data_size k + 1\<rparr>"
  have r: "ring_at ?m ?k t (q @ [m a])" using Suc.prems by (intro ring_put) simp_all
  have c: "ring_slot ?k i = ring_slot k i" for i by (rule ring_slot_cong) simp_all
  have out: "(a + 1) + of_nat i \<noteq> ring_slot k j" if "i < n" for i j
    using Suc.prems(3) [rule_format, of "Suc i" j] that by (simp add: algebra_simps)
  have "buf_in_p k = ring_slot k (t + length q)" using Suc.prems(1) by (simp add: ring_at_def)
  then have "mem_bytes ?m (a + 1) n = mem_bytes m (a + 1) n"
    using out by (intro mem_bytes_cong) auto
  moreover have "ring_at (fst (udp_copy_in n (a + 1) (?m, ?k))) (snd (udp_copy_in n (a + 1) (?m, ?k))) t
      ((q @ [m a]) @ mem_bytes ?m (a + 1) n)"
    using Suc.prems(2) out c by (intro Suc.IH [OF r]) simp_all
  ultimately show ?case unfolding udp_copy_in_Suc by simp
qed simp

lemma udp_copy_out_Suc:
  "data_size k \<noteq> 0 \<Longrightarrow> udp_copy_out (Suc n) a (m, k) =
     (let (t, m, k) = udp_copy_out n (a + 1) (m(a := m (buf_out_p k)),
       k\<lparr>buf_out_p := (if buf_end_p k \<le> buf_out_p k + 1 then buf_start_p k else buf_out_p k + 1),
         data_size := data_size k - 1\<rparr>) in (Suc t, m, k))"
  by (simp add: Let_def)

lemma ring_get:
  assumes "ring_at m k t (x # q)" and "\<forall>j. a \<noteq> ring_slot k j"
  shows "m (buf_out_p k) = x" and
    "ring_at (m(a := y))
      (k\<lparr>buf_out_p := (if buf_end_p k \<le> buf_out_p k + 1 then buf_start_p k else buf_out_p k + 1),
         data_size := data_size k - 1\<rparr>) (Suc t) q"
proof -
  let ?k = "k\<lparr>buf_out_p := (if buf_end_p k \<le> buf_out_p k + 1 then buf_start_p k else buf_out_p k + 1),
       data_size := data_size k - 1\<rparr>"
  have z: "0 < unat (buf_size k)" "unat (buf_start_p k) + unat (buf_size k) < 2 ^ 32"
    "buf_end_p k = buf_start_p k + buf_size k" "buf_out_p k = ring_slot k t"
    "unat (data_size k) = Suc (length q)"
    and d: "\<forall>i<Suc (length q). m (ring_slot k (t + i)) = (x # q) ! i"
    using assms(1) by (simp_all add: ring_at_def)
  have c: "ring_slot ?k i = ring_slot k i" for i by (rule ring_slot_cong) simp_all
  show "m (buf_out_p k) = x" using d [rule_format, of 0] z(4) by simp
  have "data_size k \<noteq> 0" using z(5) by auto
  then have "unat (data_size k - 1) = length q" using z(5) by (simp add: unat_minus_one)
  moreover have "m (ring_slot k (Suc t + i)) = q ! i" if "i < length q" for i
    using d [rule_format, of "Suc i"] that by simp
  ultimately show "ring_at (m(a := y)) ?k (Suc t) q"
    using assms z ring_advance [OF z(1-3), of t] unfolding ring_at_def c by auto
qed

lemma udp_copy_out_ring:
  assumes "ring_at m k t q" and "\<forall>i<n. \<forall>j. a + of_nat i \<noteq> ring_slot k j" and "n < 2 ^ 32"
  shows "case udp_copy_out n a (m, k) of (c, m', k') \<Rightarrow>
    c = min n (length q) \<and> mem_bytes m' a c = take n q \<and> (\<exists>t'. ring_at m' k' t' (drop n q)) \<and>
    buf_start_p k' = buf_start_p k \<and> buf_size k' = buf_size k \<and>
    (\<forall>x. (\<forall>i<n. x \<noteq> a + of_nat i) \<longrightarrow> m' x = m x)"
  using assms
proof (induction n arbitrary: a m k t q)
  case 0
  then show ?case by auto
next
  case (Suc n)
  show ?case
  proof (cases q)
    case Nil
    then have "data_size k = 0" using Suc.prems(1) by (simp add: ring_at_def unat_eq_0)
    then show ?thesis using Nil Suc.prems(1) by auto
  next
    case (Cons x q')
    let ?m = "m(a := m (buf_out_p k))"
    let ?k = "k\<lparr>buf_out_p := (if buf_end_p k \<le> buf_out_p k + 1 then buf_start_p k else buf_out_p k + 1),
       data_size := data_size k - 1\<rparr>"
    have a: "\<forall>j. a \<noteq> ring_slot k j" using Suc.prems(2) [rule_format, of 0] by simp
    have c: "ring_slot ?k i = ring_slot k i" for i by (rule ring_slot_cong) simp_all
    have nz: "data_size k \<noteq> 0" using Suc.prems(1) Cons by (auto simp: ring_at_def)
    note g = ring_get [OF Suc.prems(1) [unfolded Cons] a]
    have out: "\<forall>i<n. \<forall>j. (a + 1) + of_nat i \<noteq> ring_slot ?k j"
    proof (intro allI impI)
      fix i j assume "i < n"
      then show "(a + 1) + of_nat i \<noteq> ring_slot ?k j"
        using Suc.prems(2) [rule_format, of "Suc i" j] unfolding c by (simp add: add.assoc)
    qed
    obtain c' m' k' where e: "udp_copy_out n (a + 1) (?m, ?k) = (c', m', k')" by (metis prod_cases3)
    have ih: "c' = min n (length q') \<and> mem_bytes m' (a + 1) c' = take n q' \<and>
        (\<exists>t'. ring_at m' k' t' (drop n q')) \<and> buf_start_p k' = buf_start_p k \<and> buf_size k' = buf_size k \<and>
        (\<forall>x. (\<forall>i<n. x \<noteq> a + 1 + of_nat i) \<longrightarrow> m' x = ?m x)"
    proof -
      have "n < 2 ^ 32" using Suc.prems(3) by simp
      from Suc.IH [OF g(2) [of "m (buf_out_p k)"] out this, unfolded e prod.case]
      show ?thesis by (elim conjE, intro conjI) simp_all
    qed
    have ne: "a \<noteq> a + 1 + of_nat i" if "i < n" for i
    proof
      assume "a = a + 1 + of_nat i"
      then have "(of_nat (Suc i) :: u32) = of_nat 0" by (simp add: add.assoc)
      then show False using word_of_nat_eq_iff_less [of "Suc i" 0, where 'a = 32] that Suc.prems(3) by simp
    qed
    have "m' a = x" using ih ne g(1) by auto
    have fr: "m' y = m y" if "\<forall>i<Suc n. y \<noteq> a + of_nat i" for y
    proof -
      have "y \<noteq> a" using that [rule_format, of 0] by simp
      moreover have "y \<noteq> a + 1 + of_nat i" if "i < n" for i
        using \<open>\<forall>i<Suc n. y \<noteq> a + of_nat i\<close> [rule_format, of "Suc i"] that by (simp add: algebra_simps)
      ultimately show ?thesis using ih by simp
    qed
    show ?thesis
    proof -
      have i1: "c' = min n (length q')" and i2: "mem_bytes m' (a + 1) (min n (length q')) = take n q'"
        using ih by metis+
      show ?thesis
        using ih \<open>m' a = x\<close> fr i2 unfolding udp_copy_out_Suc [OF nz] e Cons by (simp add: i1)
    qed
  qed
qed

section \<open>Ownership\<close>

lemma udp_input_owned:
  assumes "net_owned netbuf s rs hs" and "b \<in> set hs"
  shows "net_owned netbuf (udp_input E b s) rs (remove1 b hs)"
proof -
  have g: "net_owned netbuf (free_nb b (s\<lparr>mem := m\<rparr>)) rs (remove1 b hs)" for m
    by (rule free_nb_owned [OF _ assms(2)]) (simp add: assms(1))
  have h: "net_owned netbuf (free_nb b (s\<lparr>mem := m, udp_socks := u\<rparr>)) rs (remove1 b hs)" for m u
    by (rule free_nb_owned [OF _ assms(2)]) (simp add: assms(1))
  show ?thesis unfolding udp_input_def Let_def by (simp add: g h split: option.split prod.split)
qed

lemma udp_output_owned:
  assumes "net_owned netbuf s rs hs"
  shows "net_owned netbuf (snd (udp_output E d n host sp dp arp s)) rs hs"
proof -
  obtain b s1 where a: "alloc_nb s = (b, s1)" by (cases "alloc_nb s")
  show ?thesis
  proof (cases "b = 0")
    case True
    then show ?thesis using alloc_nb_owned(2) [OF assms a] a by (simp add: udp_output_def)
  next
    case False
    note o = alloc_nb_owned(1) [OF assms a False]
    have f: "net_owned netbuf (free_nb b s1) rs hs" using free_nb_owned [OF o, of b] by simp
    have "net_owned netbuf (ip_output E b host pr arp ((set_nb_len b k s1)\<lparr>mem := m\<rparr>)) rs (remove1 b (b # hs))" for pr k m
      by (rule ip_output_owned) (simp_all add: set_nb_len_owned [OF o])
    then show ?thesis using False a f by (simp add: udp_output_def Let_def)
  qed
qed

section \<open>Properties\<close>

lemma udp_copy_in_size: "data_size (snd (udp_copy_in n a (m, k))) = data_size k + of_nat n"
  by (induction n arbitrary: a m k) (simp_all add: Let_def)

text \<open>C8. The socket buffer is a byte queue.  When the buffer holds the bytes \<open>q\<close>, full or not, the
  loop of \<open>udp_recvfrom\<close> takes the first bytes out, in order, as many as asked for and there, stores
  them at the caller's address, changes no byte elsewhere, and leaves the rest in the buffer.  When
  there is room for \<open>n\<close> more, up to the last byte of the buffer, the receive loop appends the \<open>n\<close>
  bytes of a datagram that lies outside the buffer.\<close>

theorem udp_ring_queue:
  assumes "ring m k q" and "max_size < 2 ^ 32"
    and "\<forall>i<max_size. \<forall>j. d + of_nat i \<noteq> ring_slot k j" and "\<forall>i<n. \<forall>j. a + of_nat i \<noteq> ring_slot k j"
  shows "(let (c, m', k') = udp_copy_out max_size d (m, k) in
        c = min max_size (length q) \<and> mem_bytes m' d c = take max_size q \<and> ring m' k' (drop max_size q) \<and>
        (\<forall>x. (\<forall>i<max_size. x \<noteq> d + of_nat i) \<longrightarrow> m' x = m x)) \<and>
     (length q + n \<le> unat (buf_size k) \<longrightarrow>
        (let (m', k') = udp_copy_in n a (m, k) in ring m' k' (q @ mem_bytes m a n)))"
proof (intro conjI impI)
  obtain t where t: "ring_at m k t q" using assms(1) by (auto simp: ring_def)
  show "let (m', k') = udp_copy_in n a (m, k) in ring m' k' (q @ mem_bytes m a n)" if "length q + n \<le> unat (buf_size k)"
    using udp_copy_in_ring [OF t that assms(4)] by (auto simp: ring_def Let_def split_beta)
  obtain c m' k' where e: "udp_copy_out max_size d (m, k) = (c, m', k')" by (metis prod_cases3)
  show "let (c, m', k') = udp_copy_out max_size d (m, k) in
      c = min max_size (length q) \<and> mem_bytes m' d c = take max_size q \<and> ring m' k' (drop max_size q) \<and>
      (\<forall>x. (\<forall>i<max_size. x \<noteq> d + of_nat i) \<longrightarrow> m' x = m x)"
    using udp_copy_out_ring [OF t assms(3,2)] unfolding e Let_def prod.case ring_def by blast
qed

definition demo_sock :: udp_sock where
  "demo_sock = cleared_sock\<lparr>buf_size := 4, buf_start_p := 0x100, buf_end_p := 0x104, buf_in_p := 0x102,
     buf_out_p := 0x103, data_size := 3\<rparr>"

definition demo_full :: udp_sock where
  "demo_full = demo_sock\<lparr>buf_in_p := 0x103, data_size := 4\<rparr>"

definition demo_ring_mem :: mem where
  "demo_ring_mem = (\<lambda>_. 0)(0x103 := 1, 0x100 := 2, 0x101 := 3, 0x102 := 4, 0x200 := 7)"

lemma demo_ring: "ring_at ((\<lambda>_. 0)(0x103 := 1, 0x100 := 2, 0x101 := 3)) demo_sock 3 [1, 2, 3]"
  by (auto simp: ring_at_def demo_sock_def ring_slot_def cleared_sock_def less_Suc_eq)

lemma demo_rings: "ring demo_ring_mem demo_sock [1, 2, 3]" "ring demo_ring_mem demo_full [1, 2, 3, 4]"
proof -
  have "ring_at demo_ring_mem demo_sock 3 [1, 2, 3]" "ring_at demo_ring_mem demo_full 3 [1, 2, 3, 4]"
    by (auto simp: ring_at_def demo_sock_def demo_full_def demo_ring_mem_def ring_slot_def cleared_sock_def less_Suc_eq)
  then show "ring demo_ring_mem demo_sock [1, 2, 3]" "ring demo_ring_mem demo_full [1, 2, 3, 4]"
    unfolding ring_def by blast+
qed

lemma demo_slots:
  assumes "0x104 \<le> unat a"
  shows "a \<noteq> ring_slot demo_sock j" and "a \<noteq> ring_slot demo_full j"
proof -
  have "unat (ring_slot demo_sock j) = 0x100 + j mod 4"
    by (subst unat_ring_slot) (simp_all add: demo_sock_def)
  moreover have "j mod 4 < 4" by simp
  ultimately show s: "a \<noteq> ring_slot demo_sock j" using assms by auto
  have "ring_slot demo_full j = ring_slot demo_sock j" by (rule ring_slot_cong) (simp_all add: demo_full_def)
  with s show "a \<noteq> ring_slot demo_full j" by simp
qed

text \<open>The full buffer is emptied over its end by a call that asks for more than is there, and the last free
  byte of the other one is filled.\<close>

theorem udp_ring_queue_witness:
  "(let (c, m', k') = udp_copy_out 5 0x300 (demo_ring_mem, demo_full) in
      c = 4 \<and> mem_bytes m' 0x300 4 = [1, 2, 3, 4] \<and> ring m' k' []) \<and>
   (let (m', k') = udp_copy_in 1 0x200 (demo_ring_mem, demo_sock) in ring m' k' [1, 2, 3, 7])"
proof
  have f: "\<forall>i<5. \<forall>j. 0x300 + of_nat i \<noteq> ring_slot demo_full j"
  proof (intro allI impI)
    fix i j :: nat assume "i < 5"
    then have "i = 0 \<or> i = 1 \<or> i = 2 \<or> i = 3 \<or> i = 4" by linarith
    then show "0x300 + of_nat i \<noteq> ring_slot demo_full j" by (elim disjE) (simp_all add: demo_slots)
  qed
  show "let (c, m', k') = udp_copy_out 5 0x300 (demo_ring_mem, demo_full) in
      c = 4 \<and> mem_bytes m' 0x300 4 = [1, 2, 3, 4] \<and> ring m' k' []"
  proof -
    obtain c m' k' where e: "udp_copy_out 5 0x300 (demo_ring_mem, demo_full) = (c, m', k')" by (metis prod_cases3)
    note q = conjunct1 [OF udp_ring_queue [OF demo_rings(2) _ f, of 0 0], unfolded e Let_def prod.case]
    then have c: "c = 4" by auto
    moreover have "mem_bytes m' 0x300 4 = [1, 2, 3, 4]" "ring m' k' []"
      using q c by (auto simp del: mem_bytes.simps simp: min_def)
    ultimately show ?thesis unfolding e Let_def prod.case by blast
  qed
  have s: "\<forall>i<1. \<forall>j. 0x200 + of_nat i \<noteq> ring_slot demo_sock j" by (simp add: demo_slots)
  show "let (m', k') = udp_copy_in 1 0x200 (demo_ring_mem, demo_sock) in ring m' k' [1, 2, 3, 7]"
    using conjunct2 [OF udp_ring_queue [OF demo_rings(1) _ _ s, of 0 0]] by (simp add: demo_sock_def demo_ring_mem_def)
qed

text \<open>C34. A datagram that does not fit is refused as a whole: when its bytes and those already
  buffered exceed the buffer, no byte is stored, the buffer keeps its contents and the socket's
  error code becomes \<open>UDP_ERROR_OVERFLOW\<close>; a socket without a buffer gets \<open>UDP_ERROR_NO_BUF\<close>.\<close>

theorem udp_deliver_overflow:
  assumes "ring m k q" and "unat (buf_size k) < 2 ^ 30" and "unat n < 2 ^ 16"
    and "unat (buf_size k) < length q + unat n"
  shows "(buf_start_p k \<noteq> 0 \<longrightarrow>
      (let (m', k') = udp_deliver sport a n (m, k) in m' = m \<and> ring m' k' q \<and> error_code k' = UDP_ERROR_OVERFLOW)) \<and>
    (buf_start_p k = 0 \<longrightarrow>
      (let (m', k') = udp_deliver sport a n (m, k) in m' = m \<and> error_code k' = UDP_ERROR_NO_BUF))"
proof -
  obtain t where t: "ring_at m k t q" using assms(1) by (auto simp: ring_def)
  then have d: "unat (data_size k) = length q" "length q \<le> unat (buf_size k)" by (simp_all add: ring_at_def)
  have "unat (data_size k + n) = length q + unat n"
    using d assms(2,3) by (simp add: unat_word_ariths)
  then have "sint (data_size k + n) = int (length q + unat n)" "sint (buf_size k) = int (unat (buf_size k))"
    using sint_small [of "data_size k + n"] sint_small [of "buf_size k"] d assms(2,3) by simp_all
  then have l: "buf_size k <s data_size k + n" using assms(4) unfolding word_sless_alt by (simp only:)
  have c: "ring_slot (k\<lparr>from_port := p, error_code := e\<rparr>) i = ring_slot k i" for p e i
    by (rule ring_slot_cong) simp_all
  have "ring m (k\<lparr>from_port := p, error_code := e\<rparr>) q" for p e
    using t unfolding ring_def ring_at_def c by auto
  then show ?thesis using l by (simp add: udp_deliver_def Let_def)
qed

theorem udp_deliver_overflow_witness:
  "let (m', k') = udp_deliver 0 0x200 2 ((\<lambda>_. 0)(0x103 := 1, 0x100 := 2, 0x101 := 3), demo_sock)
   in error_code k' = UDP_ERROR_OVERFLOW"
proof -
  have "ring ((\<lambda>_. 0)(0x103 := 1, 0x100 := 2, 0x101 := 3)) demo_sock [1, 2, 3]"
    using demo_ring by (auto simp: ring_def)
  then show ?thesis
    using udp_deliver_overflow [of _ demo_sock "[1, 2, 3]" 2 0 "0x200"] by (simp add: demo_sock_def Let_def split_beta)
qed

text \<open>A length field below 8 is not caught.  For a datagram with the length field \<open>8 - d\<close>, \<open>d\<close> from
  1 to 8, that arrives at a socket with an empty buffer, the copy loop runs \<open>2^32 - d\<close> times instead of
  not at all, and the socket is left with the data size \<open>-d\<close>.\<close>

lemma udp_deliver_short_length:
  assumes "1 \<le> d" and "d \<le> 8" and "data_size k = 0" and "buf_start_p k \<noteq> 0" and "0 \<le> sint (buf_size k)"
  shows "udp_deliver sport a (ucast (8 - of_nat d :: u16) - UDP_HDR_SIZE) (m, k) =
      udp_copy_in (2 ^ 32 - d) a (m, k\<lparr>from_port := ntohs sport\<rparr>) \<and>
    data_size (snd (udp_deliver sport a (ucast (8 - of_nat d :: u16) - UDP_HDR_SIZE) (m, k))) = - of_nat d"
proof -
  have "(8 - of_nat d :: u16) = of_nat (8 - d)" using assms(2) by (simp add: of_nat_diff)
  then have "(ucast (8 - of_nat d :: u16) :: u32) = of_nat (8 - d)"
    by (simp only: unsigned_of_nat) (simp add: take_bit_nat_eq_self)
  then have n: "(ucast (8 - of_nat d :: u16) - UDP_HDR_SIZE :: u32) = - of_nat d"
    using assms(2) by (simp add: of_nat_diff UDP_HDR_SIZE_def)
  have w: "(of_nat (2 ^ 32 - d) :: u32) = - of_nat d"
    using assms(2) by (simp add: of_nat_diff)
  then have u: "unat (- of_nat d :: u32) = 2 ^ 32 - d"
    using assms(1,2) unfolding w [symmetric] by (subst unat_of_nat) simp
  have "sint (- of_nat d :: u32) = - int d"
    using assms(1,2) by (subst of_int_of_nat_eq [symmetric], subst of_int_minus [symmetric])
      (simp only: signed_of_int, simp add: signed_take_bit_int_eq_self)
  then have "\<not> buf_size k <s - of_nat d" using assms(1,5) by (simp add: word_sless_alt)
  then show ?thesis
    using assms(3,4) u w by (simp add: n udp_deliver_def Let_def udp_copy_in_size del: of_nat_diff)
qed

lemma udp_deliver_short_length_example:
  "data_size (snd (udp_deliver 0 0x200 (ucast (8 - of_nat 1 :: u16) - UDP_HDR_SIZE)
     ((\<lambda>_. 0), demo_sock\<lparr>data_size := 0\<rparr>))) = - 1"
proof -
  have "data_size (demo_sock\<lparr>data_size := 0\<rparr>) = 0" "buf_start_p (demo_sock\<lparr>data_size := 0\<rparr>) \<noteq> 0"
    "0 \<le> sint (buf_size (demo_sock\<lparr>data_size := 0\<rparr>))" "1 \<le> (1 :: nat)" "1 \<le> (8 :: nat)"
    by (simp_all add: demo_sock_def)
  from conjunct2 [OF udp_deliver_short_length [OF this(4,5,1,2,3), of 0 "0x200" "\<lambda>_. 0"]]
  show ?thesis by simp
qed

end
