(* ===== verification/Enet.thy ===== *)
theory Enet
  imports Udp "HOL-Library.Signed_Division"
begin


text \<open>
  The receive path of the network and everything that waits for it: \<open>enet_input\<close> and
  \<open>enet_poll\<close> of \<open>src/src/net/enet.c\<close>, \<open>ip_input\<close> of \<open>ip.c\<close>, \<open>arp_request\<close> and \<open>arp_lookup\<close> of
  \<open>arp.c\<close>, \<open>icmp_ping\<close> of \<open>icmp.c\<close>, \<open>udp_sendto\<close> and \<open>udp_recvfrom\<close> of \<open>udp.c\<close>, \<open>net_init\<close> of
  \<open>net_main.c\<close> and \<open>sys_sleep\<close> of \<open>src/src/sys/sys_timer.c\<close>.

  The loops that poll end only when the tick counter advances, so they are partial functions;
  \<open>ticking E\<close> says that the counter reaches every value again and again.  A frame or a ping that runs over
  the end of its buffer has no result; \<open>frames_fit E\<close> says that no frame does.
\<close>

section \<open>The receive path\<close>

definition IP_PKT_SIZE :: u32 where "IP_PKT_SIZE = IP_HDR_SIZE + ETH_HDR_SIZE"
definition IP_MF :: u16 where "IP_MF = 0x2000"
definition BOARD_TPS :: u32 where "BOARD_TPS = 100"

text \<open>\<open>ihl\<close> is the low half of the first byte, \<open>version\<close> the high one.\<close>

definition ip_input :: "env \<Rightarrow> addr \<Rightarrow> net \<Rightarrow> net" where
  "ip_input E b s =
     (let iph = nb_data s b + ETH_HDR_SIZE; m = mem s; ihl = m iph AND 0xf; version = drop_bit 4 (m iph) in
      if ihl < 5 \<or> version \<noteq> 4 then free_nb b s
      else if nb_len s b < IP_PKT_SIZE then free_nb b s
      else if mem_le32 m (iph + 16) \<noteq> 0xffffffff \<and> mem_le32 m (iph + 16) \<noteq> htonl (my_ip E) then free_nb b s
      else if mem_le16 m (iph + 6) AND htons IP_MF \<noteq> 0 then free_nb b s
      else if ip_csum m iph (push_bit 2 (ucast ihl)) 0 \<noteq> 0 then free_nb b s
      else if m (iph + 9) = IP_PROTO_ICMP then icmp_input E b s
      else if m (iph + 9) = IP_PROTO_UDP then udp_input E b s
      else free_nb b s)"

text \<open>The bytes of a buffer behind its header.  The next buffer, and its header first, lies behind them, so
  a copy that is longer destroys the tag and the links of that buffer; such a copy has no result (\<open>None\<close>).\<close>

definition nb_room :: nat where "nb_room = unat (NETBUF_SIZE - NETBUF_HDR_SIZE)"

text \<open>\<open>enet_input\<close> is called by the driver for each received frame.  Its check compares the size with
  \<open>NETBUF_SIZE\<close>, header included.\<close>

definition enet_input :: "u8 list \<Rightarrow> net \<Rightarrow> net option" where
  "enet_input frame s =
     (if length frame > unat NETBUF_SIZE \<or> length frame < unat ETH_HDR_SIZE then Some s
      else
        (let (b, s) = alloc_nb s in
         if b = 0 then Some s
         else if length frame > nb_room then None
         else
           (let s = set_nb_len b (of_nat (length frame)) (s\<lparr>mem := put_bytes (mem s) (nb_data s b) frame\<rparr>)
            in Some (s\<lparr>bufs := net_put_rcvq b (bufs s)\<rparr>))))"

fun enet_inputs :: "u8 list list \<Rightarrow> net \<Rightarrow> net option" where
  "enet_inputs [] s = Some s"
| "enet_inputs (f # fr) s = Option.bind (enet_input f s) (enet_inputs fr)"

definition sl2312_emac_deliver :: "env \<Rightarrow> net \<Rightarrow> net option" where
  "sl2312_emac_deliver E s = enet_inputs (rx_frames E (rx_calls s)) (s\<lparr>rx_calls := rx_calls s + 1\<rparr>)"

definition enet_dispatch :: "env \<Rightarrow> addr \<Rightarrow> net \<Rightarrow> net" where
  "enet_dispatch E b s =
     (let eth_type = ntohs (mem_le16 (mem s) (nb_data s b + 12)) in
      if eth_type = ETH_TYPE_IP then ip_input E b s
      else if eth_type = ETH_TYPE_ARP then arp_input E b s
      else free_nb b s)"

partial_function (option) enet_loop :: "env \<Rightarrow> net \<Rightarrow> net option" where
  "enet_loop E s =
     (if net_peek_rcvq (bufs s) = 0 then Some s
      else
        (let (b, bs) = net_get_rcvq (bufs s); s = s\<lparr>bufs := bs\<rparr> in
         if b = 0 then Some s else enet_loop E (enet_dispatch E b s)))"

definition enet_poll :: "env \<Rightarrow> net \<Rightarrow> net option" where
  "enet_poll E s = (if \<not> enet_initialized s then Some s else Option.bind (sl2312_emac_deliver E s) (enet_loop E))"

definition enet_init :: "net \<Rightarrow> net" where
  "enet_init s = s\<lparr>enet_initialized := True\<rparr>"

text \<open>\<open>net_init\<close>: the flag \<open>net_initialized\<close> and the state.\<close>

definition net_init :: "addr \<Rightarrow> bool \<times> net \<Rightarrow> bool \<times> net" where
  "net_init netbuf = (\<lambda>(net_initialized, s).
     if net_initialized then (True, s)
     else (True, udp_init (enet_init (s\<lparr>bufs := net_init_buf netbuf (bufs s)\<rparr>))))"

section \<open>Waiting\<close>

text \<open>The delay of \<open>ms\<close> milliseconds in ticks, and the loop
  \<open>while (sys_get_ticks() < delay_time) { enet_poll(); if (arrived) ... }\<close>; the flag of the result
  says that the loop was left because of \<open>arrived\<close>.\<close>

definition delay_ticks :: "u32 \<Rightarrow> u64" where
  "delay_ticks ms = (let d = ms * BOARD_TPS div 1000 in ucast (if d = 0 then 1 else d))"

partial_function (option) poll_until :: "env \<Rightarrow> (net \<Rightarrow> bool) \<Rightarrow> u64 \<Rightarrow> net \<Rightarrow> (bool \<times> net) option" where
  "poll_until E arrived delay_time s =
     (let (now, s) = sys_get_ticks E s in
      if now < delay_time then
        Option.bind (enet_poll E s) (\<lambda>s. if arrived s then Some (True, s) else poll_until E arrived delay_time s)
      else Some (False, s))"

definition sys_sleep :: "env \<Rightarrow> u32 \<Rightarrow> net \<Rightarrow> net option" where
  "sys_sleep E ms s =
     (let (now, s) = sys_get_ticks E s in map_option snd (poll_until E (\<lambda>_. False) (now + delay_ticks ms) s))"

section \<open>Address lookup\<close>

text \<open>The broadcast packet of \<open>arp_request\<close>, field after field.\<close>

definition arp_request_packet :: "env \<Rightarrow> u32 \<Rightarrow> addr \<Rightarrow> mem \<Rightarrow> mem" where
  "arp_request_packet E ipaddr arp m =
     (let m = put16 m (arp + 6) (htons 1);
          m = put16 m arp (htons 1);
          m = put16 m (arp + 2) (htons 0x800);
          m = put_bytes m (arp + 4) [6];
          m = put_bytes m (arp + 5) [4];
          m = put32 m (arp + 14) (htonl (my_ip E));
          m = put_bytes m (arp + 8) (src_mac E);
          m = put32 m (arp + 24) (htonl ipaddr)
      in put_bytes m (arp + 18) (replicate 6 0))"

text \<open>The result is the index of the cache entry, \<open>None\<close> for the null pointer.\<close>

fun arp_request_loop :: "env \<Rightarrow> u32 \<Rightarrow> nat \<Rightarrow> net \<Rightarrow> (nat option \<times> net) option" where
  "arp_request_loop E ipaddr 0 s = Some (None, s)"
| "arp_request_loop E ipaddr (Suc retry) s =
     (let (b, s) = alloc_nb s in
      if b = 0 then Some (None, s)
      else
        (let s = s\<lparr>mem := arp_request_packet E ipaddr (nb_data s b + ETH_HDR_SIZE) (mem s), arp_listen_handler := True\<rparr>;
             s = enet_send E b (replicate 6 255) ETH_TYPE_ARP (set_nb_len b 28 s);
             (now, s) = sys_get_ticks E s in
         Option.bind (poll_until E (\<lambda>s. arp_chk_entry ipaddr s \<noteq> None) (now + ucast BOARD_TPS) s) (\<lambda>(found, s).
           (let r = arp_chk_entry ipaddr s; s = s\<lparr>arp_listen_handler := False\<rparr> in
            if found then Some (r, s) else arp_request_loop E ipaddr retry s))))"

definition arp_request :: "env \<Rightarrow> u32 \<Rightarrow> net \<Rightarrow> (nat option \<times> net) option" where
  "arp_request E ipaddr s = arp_request_loop E ipaddr 3 s"

definition arp_lookup :: "env \<Rightarrow> u32 \<Rightarrow> net \<Rightarrow> (nat option \<times> net) option" where
  "arp_lookup E ipaddr s =
     (case arp_chk_entry ipaddr s of
        Some i \<Rightarrow> Some (Some i, s)
      | None \<Rightarrow>
          (let s = (if arp_cache_num s = int ARP_MAX_CACHE_NUM then arp_flush_cache s else s)
           in arp_request E (if \<not> ip_is_local_net E ipaddr then my_gateway E else ipaddr) s))"

section \<open>Ping\<close>

text \<open>A pointer to a cache entry is read; the null pointer reads the memory from address 0 on
  (\<open>ip_addr\<close> at 0, \<open>mac_addr\<close> at 4, \<open>used\<close> at 12).\<close>

definition arp_deref :: "nat option \<Rightarrow> net \<Rightarrow> arp_entry" where
  "arp_deref r s =
     (case r of
        Some i \<Rightarrow> arp_cache_tbl s ! i
      | None \<Rightarrow> \<lparr>ip_addr = mem_le32 (mem s) 0, mac_addr = mem_bytes (mem s) 4 6, used = (mem_le32 (mem s) 12 \<noteq> 0)\<rparr>)"

datatype ping_msg = Host_not_found u32 | Time_out | Incorrect_data | Reply u32 u32 u32 int

definition ICMP_HDR_SIZE :: u32 where "ICMP_HDR_SIZE = 8"

definition ping_packet :: "u32 \<Rightarrow> u32 \<Rightarrow> addr \<Rightarrow> net \<Rightarrow> mem" where
  "ping_packet num n icmp s =
     (let m = put_bytes (mem s) icmp [8];
          m = put_bytes m (icmp + 1) [0];
          m = put16 m (icmp + 2) 0;
          m = put16 m (icmp + 4) (htons (word_of_int (icmp_ident s)));
          m = put16 m (icmp + 6) (htons (ucast (num + 1)));
          m = put_bytes m (icmp + 8) (map (\<lambda>i. 97 + of_nat i) [0..<unat n]);
          cksum = ip_csum m icmp (n + ICMP_HDR_SIZE) 0
      in put16 m (icmp + 2) (htons cksum))"

text \<open>One round after the packet is sent: wait, report, stop listening, next identification.
  \<open>int time = (response_time - start_time); time = (time * 1000) / BOARD_TPS\<close>.\<close>

definition ping_report :: "u32 \<Rightarrow> u32 \<Rightarrow> u32 \<Rightarrow> u64 \<Rightarrow> u64 \<Rightarrow> net \<Rightarrow> ping_msg" where
  "ping_report num host n start_time response_time s =
     (if icmp_arg s = icmp_ident s then Time_out
      else if icmp_arg s \<noteq> 0 then Incorrect_data
      else Reply (num + 1) host n
        (sint (ucast (response_time - start_time) * 1000 :: u32) sdiv int (unat BOARD_TPS)))"

definition ping_prepare :: "u32 \<Rightarrow> u32 \<Rightarrow> addr \<Rightarrow> net \<Rightarrow> net" where
  "ping_prepare num n b s =
     (let s = set_nb_len b (n + ICMP_HDR_SIZE) s;
          s = s\<lparr>mem := ping_packet num n (nb_data s b + ETH_HDR_SIZE + IP_HDR_SIZE) s\<rparr>
      in icmp_register_listener (icmp_ident s) s)"

definition ping_finish :: "env \<Rightarrow> u32 \<Rightarrow> u32 \<Rightarrow> u32 \<Rightarrow> u64 \<Rightarrow> bool \<times> net \<Rightarrow> ping_msg \<times> net" where
  "ping_finish E num host n start_time = (\<lambda>(left, s).
     (let (response_time, s) = (if left then sys_get_ticks E s else (0, s));
          msg = ping_report num host n start_time response_time s;
          s = icmp_deregister_listener s
      in (msg, s\<lparr>icmp_ident := icmp_ident s + 1\<rparr>)))"

text \<open>The packet with its headers must fit the buffer; \<open>icmp_ping\<close> leaves this to its callers, and a longer
  one runs over the next buffer (\<open>None\<close>).\<close>

definition ping_round :: "env \<Rightarrow> u32 \<Rightarrow> u32 \<Rightarrow> u32 \<Rightarrow> u32 \<Rightarrow> arp_entry \<Rightarrow> addr \<Rightarrow> net \<Rightarrow> (ping_msg \<times> net) option" where
  "ping_round E num host n timeout_ms arp b s =
     (if unat (ETH_HDR_SIZE + IP_HDR_SIZE + ICMP_HDR_SIZE) + unat n > nb_room then None
      else
        (let (start_time, s) = sys_get_ticks E (ping_prepare num n b s) in
         map_option (ping_finish E num host n start_time)
           (poll_until E (\<lambda>s. icmp_arg s \<noteq> icmp_ident s) (start_time + delay_ticks timeout_ms)
              (ip_output E b host IP_PROTO_ICMP arp s))))"

text \<open>The loop \<open>for (num = 0; !count || num < count; num++)\<close>; the messages in order.\<close>

partial_function (option) ping_loop ::
  "env \<Rightarrow> u32 \<Rightarrow> u32 \<Rightarrow> u32 \<Rightarrow> u32 \<Rightarrow> u32 \<Rightarrow> net \<Rightarrow> (ping_msg list \<times> net) option" where
  "ping_loop E host count n timeout_ms num s =
     (if \<not> (count = 0 \<or> num < count) then Some ([], s)
      else
        Option.bind (arp_lookup E host s) (\<lambda>(arp, s).
          (let msgs = (if arp = None then [Host_not_found host] else []);
               (key, s) = uart_scanc E s in
           if key = Some 0x1b \<or> key = Some 3 then Some (msgs, s)
           else
             (let (b, s) = alloc_nb s in
              if b = 0 then Some (msgs, s)
              else
                Option.bind (ping_round E num host n timeout_ms (arp_deref arp s) b s) (\<lambda>(msg, s).
                  Option.bind (ping_loop E host count n timeout_ms (num + 1) s) (\<lambda>(rest, s).
                    Some (msgs @ msg # rest, s)))))))"

definition icmp_ping :: "env \<Rightarrow> u32 \<Rightarrow> u32 \<Rightarrow> u32 \<Rightarrow> u32 \<Rightarrow> net \<Rightarrow> (ping_msg list \<times> net) option" where
  "icmp_ping E host count n timeout_ms s =
     Option.bind (arp_lookup E host (arp_flush_cache s)) (\<lambda>(arp, s).
       if arp = None then Some ([Host_not_found host], s)
       else ping_loop E host count n timeout_ms 0 s)"

section \<open>Sending and receiving datagrams\<close>

text \<open>\<open>udp_sendto\<close> has no \<open>return\<close> after the call of \<open>udp_output\<close>; its callers find the result of
  \<open>udp_output\<close> in the result register.\<close>

definition udp_sendto ::
  "env \<Rightarrow> addr \<Rightarrow> u32 \<Rightarrow> u32 \<Rightarrow> u16 \<Rightarrow> u16 \<Rightarrow> net \<Rightarrow> (int \<times> net) option" where
  "udp_sendto E data n host sport dport s =
     Option.bind (arp_lookup E host s) (\<lambda>(arp, s).
       if arp = None then Some (-1, s)
       else Some (udp_output E data n host sport dport (arp_deref arp s) s))"

text \<open>The wait loop of \<open>udp_recvfrom\<close>; \<open>Some e\<close> is the return of an error code.\<close>

partial_function (option) recv_wait :: "env \<Rightarrow> nat \<Rightarrow> u64 \<Rightarrow> net \<Rightarrow> (int option \<times> net) option" where
  "recv_wait E i delay_time s =
     (if data_size (udp_socks s ! i) \<noteq> 0 then Some (None, s)
      else
        Option.bind (enet_poll E s) (\<lambda>s.
          if error_code (udp_socks s ! i) < 0 then Some (Some (error_code (udp_socks s ! i)), s)
          else if data_size (udp_socks s ! i) \<noteq> 0 then Some (None, s)
          else
            (let (now, s) = sys_get_ticks E s in
             if delay_time < now then Some (None, s) else recv_wait E i delay_time s)))"

text \<open>The result is the returned number and, unless an error is returned, the port stored through
  \<open>server_port\<close>; \<open>max_size\<close> is counted down to 0, so a negative one never stops the copy.\<close>

definition udp_recvfrom ::
  "env \<Rightarrow> int \<Rightarrow> addr \<Rightarrow> u16 \<Rightarrow> u32 \<Rightarrow> u32 \<Rightarrow> net \<Rightarrow> (int \<times> u16 option \<times> net) option" where
  "udp_recvfrom E sd data listen max_size timeout_ms s =
     (if sd < 0 \<or> int UDP_SOCKET_MAX_NUM \<le> sd then Some (-1, None, s)
      else
        (let i = nat sd;
             d = word_of_int (sint (timeout_ms * BOARD_TPS) sdiv 1000) :: u32;
             (now, s) = sys_get_ticks E s;
             delay_time = now + ucast (if d = 0 then 1 else d);
             s = s\<lparr>udp_socks := (udp_socks s)[i := (udp_socks s ! i)\<lparr>listen_port := htons listen\<rparr>]\<rparr> in
         Option.bind (recv_wait E i delay_time s) (\<lambda>(e, s).
           case e of
             Some c \<Rightarrow> Some (c, None, s)
           | None \<Rightarrow>
               (let port = from_port (udp_socks s ! i);
                    (total, m, k) = udp_copy_out (unat max_size) data (mem s, udp_socks s ! i)
                in Some (int total, Some port, s\<lparr>mem := m, udp_socks := (udp_socks s)[i := k]\<rparr>)))))"

section \<open>The contract of a packet handler\<close>

text \<open>What the handlers do not touch, and the well-formedness of the state of the protocols: the
  cache invariant, hardware addresses of six bytes, and the fixed number of sockets.\<close>

definition outer :: "net \<Rightarrow> nat \<times> nat \<times> nat \<times> bool \<times> heap \<times> mem_info" where
  "outer s = (rx_calls s, tick_reads s, key_scans s, enet_initialized s, heap s, minfo s)"

definition net_wf :: "net \<Rightarrow> bool" where
  "net_wf s \<longleftrightarrow> arp_inv s \<and> (\<forall>e\<in>set (arp_cache_tbl s). used e \<longrightarrow> length (mac_addr e) = 6) \<and>
     length (udp_socks s) = UDP_SOCKET_MAX_NUM"

locale packet_handler =
  fixes handle :: "addr \<Rightarrow> net \<Rightarrow> net"
  assumes owned: "net_owned netbuf s rs hs \<Longrightarrow> b \<in> set hs \<Longrightarrow> net_owned netbuf (handle b s) rs (remove1 b hs)"
    and outer: "outer (handle b s) = outer s"
    and wf: "net_wf s \<Longrightarrow> net_wf (handle b s)"
begin

text \<open>Taking one buffer from the receive queue and handling it.\<close>

lemma consume:
  assumes "net_owned netbuf s (a # rs) hs"
  shows "net_peek_rcvq (bufs s) \<noteq> 0" and "fst (net_get_rcvq (bufs s)) = a" and "a \<noteq> 0"
    and "net_owned netbuf (handle a (s\<lparr>bufs := snd (net_get_rcvq (bufs s))\<rparr>)) rs hs"
proof -
  obtain fs where o: "owned netbuf (bufs s) fs (a # rs) hs" using assms by (auto simp: net_owned_def)
  have "distinct (a # rs)" "set (a # rs) \<subseteq> set (all_bufs netbuf)" using o by (auto simp: owned_def)
  then have "length (a # rs) \<le> card (set (all_bufs netbuf))" by (metis card_mono distinct_card List.finite_set)
  also have "\<dots> \<le> 100" using card_length [of "all_bufs netbuf"] by (simp add: all_bufs_def NET_BUF_NUM_def)
  finally have "length rs < 100" by simp
  then have "(of_nat (length (a # rs)) :: u32) \<noteq> of_nat 0"
    using word_of_nat_eq_iff_less [of "length (a # rs)" 0, where 'a = 32] by simp
  then show "net_peek_rcvq (bufs s) \<noteq> 0" using o by (simp add: net_peek_rcvq_def owned_def queue_holds_def)
  show "fst (net_get_rcvq (bufs s)) = a" using owned_get [OF o] by simp
  show "a \<noteq> 0" using o by (auto simp: owned_def legal_def)
  have "net_owned netbuf (s\<lparr>bufs := snd (net_get_rcvq (bufs s))\<rparr>) rs (a # hs)"
    using owned_get [OF o] by (auto simp: net_owned_def)
  then show "net_owned netbuf (handle a (s\<lparr>bufs := snd (net_get_rcvq (bufs s))\<rparr>)) rs hs"
    using owned [of netbuf _ rs "a # hs" a] by simp
qed

end

lemma net_wf_cong:
  "arp_cache_tbl s' = arp_cache_tbl s \<Longrightarrow> arp_cache_num s' = arp_cache_num s \<Longrightarrow>
   length (udp_socks s') = length (udp_socks s) \<Longrightarrow> net_wf s' = net_wf s"
  by (simp add: net_wf_def arp_inv_def)

lemma outer_simps [simp]:
  "outer (free_nb b s) = outer s" "outer (set_nb_len b n s) = outer s" "outer (enet_send E b d t s) = outer s"
  "outer (s\<lparr>mem := m\<rparr>) = outer s" "outer (s\<lparr>icmp_arg := i\<rparr>) = outer s" "outer (s\<lparr>ip_ident := j\<rparr>) = outer s"
  "outer (s\<lparr>arp_cache_tbl := tbl\<rparr>) = outer s" "outer (s\<lparr>arp_cache_tbl := tbl, arp_cache_num := k\<rparr>) = outer s"
  "outer (s\<lparr>mem := m, udp_socks := u\<rparr>) = outer s" "outer (s\<lparr>bufs := q\<rparr>) = outer s"
  "outer (s\<lparr>udp_socks := u\<rparr>) = outer s" "outer (s\<lparr>ip_ident := j, mem := m\<rparr>) = outer s"
  "outer (s\<lparr>arp_listen_handler := f\<rparr>) = outer s" "outer (s\<lparr>icmp_listen_handler := f\<rparr>) = outer s"
  "outer (s\<lparr>icmp_listen_handler := f, icmp_arg := i\<rparr>) = outer s" "outer (s\<lparr>icmp_ident := i\<rparr>) = outer s"
  by (simp_all add: outer_def free_nb_def set_nb_len_def enet_send_def Let_def)

lemma net_wf_simps [simp]:
  "net_wf (free_nb b s) = net_wf s" "net_wf (set_nb_len b n s) = net_wf s" "net_wf (enet_send E b d t s) = net_wf s"
  "net_wf (s\<lparr>mem := m\<rparr>) = net_wf s" "net_wf (s\<lparr>icmp_arg := i\<rparr>) = net_wf s" "net_wf (s\<lparr>ip_ident := j\<rparr>) = net_wf s"
  "net_wf (s\<lparr>ip_ident := j, mem := m\<rparr>) = net_wf s" "net_wf (s\<lparr>bufs := q\<rparr>) = net_wf s"
  "net_wf (s\<lparr>arp_listen_handler := f\<rparr>) = net_wf s" "net_wf (s\<lparr>icmp_listen_handler := f\<rparr>) = net_wf s"
  "net_wf (s\<lparr>icmp_listen_handler := f, icmp_arg := i\<rparr>) = net_wf s" "net_wf (s\<lparr>icmp_ident := i\<rparr>) = net_wf s"
  "net_wf (s\<lparr>tick_reads := k\<rparr>) = net_wf s" "net_wf (s\<lparr>rx_calls := k\<rparr>) = net_wf s" "net_wf (s\<lparr>key_scans := k\<rparr>) = net_wf s"
  "net_wf (s\<lparr>mem := m, udp_socks := (udp_socks s)[i1 := k1]\<rparr>) = net_wf s"
  "net_wf (s\<lparr>udp_socks := (udp_socks s)[i1 := k1]\<rparr>) = net_wf s"
  by (rule net_wf_cong; simp add: free_nb_def set_nb_len_def enet_send_def Let_def)+

lemma ip_output_keeps [simp]:
  "outer (ip_output E b h p a s) = outer s" "net_wf (ip_output E b h p a s) = net_wf s"
  by (simp_all add: ip_output_def Let_def)

lemma arp_input_wf:
  assumes "net_wf s"
  shows "net_wf (arp_input E b s)"
proof -
  have m: "\<forall>e\<in>set (arp_cache_tbl (arp_reply_listener b arp s)). used e \<longrightarrow> length (mac_addr e) = 6" for arp
    using assms by (auto simp: arp_reply_listener_def Let_def net_wf_def dest!: set_update_subset_insert [THEN subsetD]
        split: sum.split option.split dest: arp_listen_loop_Inl)
  have u: "length (udp_socks (arp_reply_listener b arp s)) = length (udp_socks s)" for arp
    by (simp add: arp_reply_listener_def Let_def split: sum.split option.split)
  have "net_wf (arp_reply_listener b arp s)" for arp
    using arp_reply_listener_map [of s b arp] m u assms by (simp add: net_wf_def)
  then show ?thesis using assms by (simp add: arp_input_def Let_def)
qed

interpretation arp_handler: packet_handler "arp_input E" for E
proof
  fix b s
  have "outer (arp_reply_listener b arp s) = outer s" for arp
    by (simp add: arp_reply_listener_def Let_def split: sum.split option.split)
  then show "outer (arp_input E b s) = outer s" by (simp add: arp_input_def Let_def)
qed (simp_all add: arp_input_owned arp_input_wf)

interpretation icmp_handler: packet_handler "icmp_input E" for E
proof
  fix b s
  show "outer (icmp_input E b s) = outer s" "net_wf s \<Longrightarrow> net_wf (icmp_input E b s)"
    by (simp_all add: icmp_input_def icmp_ping_listener_def Let_def)
qed (rule icmp_input_owned)

interpretation udp_handler: packet_handler "udp_input E" for E
proof
  fix b s
  show "outer (udp_input E b s) = outer s" "net_wf s \<Longrightarrow> net_wf (udp_input E b s)"
    by (simp_all add: udp_input_def Let_def split: option.split prod.split)
qed (rule udp_input_owned)

interpretation ip_handler: packet_handler "ip_input E" for E
  by unfold_locales
    (simp_all add: ip_input_def Let_def free_nb_owned icmp_handler.owned udp_handler.owned
       icmp_handler.outer udp_handler.outer icmp_handler.wf udp_handler.wf)

interpretation dispatch: packet_handler "enet_dispatch E" for E
  by unfold_locales
    (simp_all add: enet_dispatch_def Let_def free_nb_owned ip_handler.owned arp_handler.owned
       ip_handler.outer arp_handler.outer ip_handler.wf arp_handler.wf)

section \<open>Polling\<close>

declare enet_loop.simps [code] poll_until.simps [code] recv_wait.simps [code] ping_loop.simps [code]

lemma enet_loop_total:
  "net_owned netbuf s rs hs \<Longrightarrow>
   \<exists>s'. enet_loop E s = Some s' \<and> net_owned netbuf s' [] hs \<and> outer s' = outer s \<and> (net_wf s \<longrightarrow> net_wf s')"
proof (induction rs arbitrary: s)
  case Nil
  then have "net_peek_rcvq (bufs s) = 0"
    by (auto simp: net_owned_def owned_def net_peek_rcvq_def dest: queue_holds_total)
  then show ?case using Nil by (subst enet_loop.simps) simp
next
  case (Cons a rs)
  let ?s = "enet_dispatch E a (s\<lparr>bufs := snd (net_get_rcvq (bufs s))\<rparr>)"
  note c = dispatch.consume(1-3) [OF Cons.prems] and d = dispatch.consume(4) [OF Cons.prems, of E]
  have "enet_loop E s = enet_loop E ?s"
    using c by (subst enet_loop.simps) (simp add: split_beta Let_def)
  moreover have "outer ?s = outer s" "net_wf s \<longrightarrow> net_wf ?s" by (simp_all add: dispatch.outer dispatch.wf)
  ultimately show ?case using Cons.IH [OF d] by auto
qed

text \<open>A frame that is refused or fits its buffer.\<close>

definition frame_ok :: "u8 list \<Rightarrow> bool" where
  "frame_ok f \<longleftrightarrow> length f \<le> 2048 \<or> 2080 < length f"

definition frames_fit :: "env \<Rightarrow> bool" where
  "frames_fit E \<longleftrightarrow> (\<forall>n. \<forall>f\<in>set (rx_frames E n). frame_ok f)"

lemma nb_sizes [simp]: "nb_room = 2048" "unat NETBUF_SIZE = 2080"
  by (simp_all add: nb_room_def NETBUF_SIZE_def NETBUF_HDR_SIZE_def)

lemma enet_input_keeps:
  assumes "net_owned netbuf s rs hs" and "frame_ok f"
  shows "\<exists>s' rs'. enet_input f s = Some s' \<and> net_owned netbuf s' rs' hs \<and> outer s' = outer s \<and> net_wf s' = net_wf s"
proof -
  obtain b s1 where a: "alloc_nb s = (b, s1)" by (cases "alloc_nb s")
  have s1: "outer s1 = outer s" "net_wf s1 = net_wf s" using a by (auto simp: alloc_nb_def split: prod.splits)
  let ?s = "set_nb_len b (of_nat (length f)) (s1\<lparr>mem := put_bytes (mem s1) (nb_data s1 b) f\<rparr>)"
  have "\<exists>rs'. net_owned netbuf (?s\<lparr>bufs := net_put_rcvq b (bufs ?s)\<rparr>) rs' hs" if "b \<noteq> 0"
  proof -
    have "net_owned netbuf ?s rs (b # hs)"
      using alloc_nb_owned(1) [OF assms(1) a that] by (intro set_nb_len_owned) simp_all
    then obtain fs where "owned netbuf (bufs ?s) fs rs (b # hs)" by (auto simp: net_owned_def)
    from owned_put [OF this, of b] show ?thesis by (auto simp: net_owned_def)
  qed
  then show ?thesis
    using assms s1 alloc_nb_owned(2) [OF assms(1) a] by (auto simp: enet_input_def a Let_def frame_ok_def)
qed

lemma enet_inputs_keeps:
  "net_owned netbuf s rs hs \<Longrightarrow> \<forall>f\<in>set fr. frame_ok f \<Longrightarrow>
   \<exists>s' rs'. enet_inputs fr s = Some s' \<and> net_owned netbuf s' rs' hs \<and> outer s' = outer s \<and> net_wf s' = net_wf s"
proof (induction fr arbitrary: s rs)
  case (Cons f fr)
  obtain s1 rs1 where f: "enet_input f s = Some s1" "net_owned netbuf s1 rs1 hs" "outer s1 = outer s" "net_wf s1 = net_wf s"
    using enet_input_keeps [OF Cons.prems(1), of f] Cons.prems(2) by auto
  from Cons.IH [OF f(2)] Cons.prems(2) show ?case using f by simp
qed auto

lemma deliver_keeps:
  assumes "net_owned netbuf s rs hs" and "\<forall>f\<in>set (rx_frames E (rx_calls s)). frame_ok f"
  shows "\<exists>s' rs'. sl2312_emac_deliver E s = Some s' \<and> net_owned netbuf s' rs' hs \<and>
    outer s' = outer (s\<lparr>rx_calls := rx_calls s + 1\<rparr>) \<and> net_wf s' = net_wf s"
proof -
  have "net_owned netbuf (s\<lparr>rx_calls := rx_calls s + 1\<rparr>) rs hs" using assms(1) by (simp add: net_owned_def)
  from enet_inputs_keeps [OF this assms(2)] show ?thesis by (simp add: sl2312_emac_deliver_def)
qed

text \<open>The overrun: a frame that passes the check and does not fit.\<close>

lemma enet_input_overrun:
  assumes "2048 < length f" and "length f \<le> 2080" and "fst (alloc_nb s) \<noteq> 0"
  shows "enet_input f s = None"
  using assms by (simp add: enet_input_def split_beta ETH_HDR_SIZE_def)

lemma outer_ticks: "outer s' = outer s \<Longrightarrow> tick_reads s' = tick_reads s"
  by (simp add: outer_def)

lemma enet_poll_total:
  assumes "net_owned netbuf s [] hs" and "frames_fit E"
  shows "\<exists>s'. enet_poll E s = Some s' \<and> net_owned netbuf s' [] hs \<and> tick_reads s' = tick_reads s \<and>
    (net_wf s \<longrightarrow> net_wf s')"
proof (cases "enet_initialized s")
  case True
  have "\<forall>f\<in>set (rx_frames E (rx_calls s)). frame_ok f" using assms(2) by (simp add: frames_fit_def)
  from deliver_keeps [OF assms(1) this] obtain s1 rs where
    d: "sl2312_emac_deliver E s = Some s1" "net_owned netbuf s1 rs hs" "outer s1 = outer (s\<lparr>rx_calls := rx_calls s + 1\<rparr>)"
      "net_wf s1 = net_wf s"
    by blast
  then have "tick_reads s1 = tick_reads s" by (simp add: outer_def)
  then show ?thesis
    using enet_loop_total [OF d(2), of E] d True
    by (auto simp: enet_poll_def dest: outer_ticks)
qed (use assms in \<open>simp add: enet_poll_def\<close>)

definition ticking :: "env \<Rightarrow> bool" where
  "ticking E \<longleftrightarrow> (\<forall>t k. \<exists>n\<ge>k. t \<le> clock E n)"

text \<open>What the calls that wait need of the board: the counter runs and no frame overruns its buffer.\<close>

definition env_ok :: "env \<Rightarrow> bool" where
  "env_ok E \<longleftrightarrow> ticking E \<and> frames_fit E"

lemma poll_until_total:
  assumes "env_ok E" and "net_owned netbuf s [] hs" and "net_wf s"
  shows "\<exists>r s'. poll_until E arrived t s = Some (r, s') \<and> net_owned netbuf s' [] hs \<and> net_wf s' \<and> (r \<longrightarrow> arrived s')"
proof -
  obtain n where n: "tick_reads s \<le> n" "t \<le> clock E n" using assms(1) by (auto simp: env_ok_def ticking_def)
  then show ?thesis using assms(2,3)
  proof (induction "n - tick_reads s" arbitrary: s rule: less_induct)
    case less
    let ?s = "s\<lparr>tick_reads := tick_reads s + 1\<rparr>"
    have o: "net_owned netbuf ?s [] hs" using less.prems by (simp add: net_owned_def)
    show ?case
    proof (cases "clock E (tick_reads s) < t")
      case False
      then show ?thesis using o less.prems by (subst poll_until.simps) (auto simp: sys_get_ticks_def)
    next
      case True
      then have "tick_reads s < n" using less.prems by (metis le_neq_implies_less leD)
      obtain s2 where s2: "enet_poll E ?s = Some s2" "net_owned netbuf s2 [] hs" "tick_reads s2 = tick_reads s + 1" "net_wf s2"
        using enet_poll_total [OF o, of E] less.prems assms(1) by (auto simp: env_ok_def)
      show ?thesis
        using True s2 less.hyps [of s2] less.prems \<open>tick_reads s < n\<close>
        by (subst poll_until.simps) (auto simp: sys_get_ticks_def)
    qed
  qed
qed

section \<open>Lookup\<close>

lemma arp_chk_entry_Some:
  assumes "arp_chk_entry ip s = Some i"
  shows "i < length (arp_cache_tbl s) \<and> used (arp_cache_tbl s ! i) \<and> ip_addr (arp_cache_tbl s ! i) = ip"
  using arp_chk_loop_Some [of ip 0 "arp_cache_tbl s" i] assms
  by (auto simp: arp_chk_entry_def find_Some_iff)

lemma sys_get_ticks_keeps:
  assumes "sys_get_ticks E s = (now, s')"
  shows "net_owned netbuf s' rs hs = net_owned netbuf s rs hs" and "net_wf s' = net_wf s"
    and "mem s' = mem s" and "udp_socks s' = udp_socks s" and "arp_cache_tbl s' = arp_cache_tbl s"
    and "bufs s' = bufs s" and "rx_calls s' = rx_calls s" and "enet_initialized s' = enet_initialized s"
  using assms by (auto simp: sys_get_ticks_def net_owned_def)

lemma net_owned_upd3 [simp]:
  "net_owned netbuf (s\<lparr>mem := m, arp_listen_handler := f\<rparr>) rs hs = net_owned netbuf s rs hs"
  "net_owned netbuf (s\<lparr>arp_listen_handler := f\<rparr>) rs hs = net_owned netbuf s rs hs"
  "net_owned netbuf (s\<lparr>icmp_listen_handler := f\<rparr>) rs hs = net_owned netbuf s rs hs"
  "net_owned netbuf (s\<lparr>icmp_listen_handler := f, icmp_arg := i\<rparr>) rs hs = net_owned netbuf s rs hs"
  "net_owned netbuf (s\<lparr>icmp_ident := i\<rparr>) rs hs = net_owned netbuf s rs hs"
  "net_owned netbuf (s\<lparr>key_scans := k\<rparr>) rs hs = net_owned netbuf s rs hs"
  by (simp_all add: net_owned_def)

lemma net_wf_upd3 [simp]: "net_wf (s\<lparr>mem := m, arp_listen_handler := f\<rparr>) = net_wf s"
  by (rule net_wf_cong) simp_all

text \<open>The state in which the request has been sent.\<close>

definition arp_asked :: "env \<Rightarrow> u32 \<Rightarrow> addr \<Rightarrow> net \<Rightarrow> net" where
  "arp_asked E ipaddr b s =
     (let s = s\<lparr>mem := arp_request_packet E ipaddr (nb_data s b + ETH_HDR_SIZE) (mem s), arp_listen_handler := True\<rparr>
      in enet_send E b (replicate 6 255) ETH_TYPE_ARP (set_nb_len b 28 s))"

lemma arp_request_loop_Suc:
  "alloc_nb s = (b, s1) \<Longrightarrow> b \<noteq> 0 \<Longrightarrow> sys_get_ticks E (arp_asked E ip b s1) = (now, s2) \<Longrightarrow>
   arp_request_loop E ip (Suc n) s =
     Option.bind (poll_until E (\<lambda>s. arp_chk_entry ip s \<noteq> None) (now + ucast BOARD_TPS) s2) (\<lambda>(found, s).
       if found then Some (arp_chk_entry ip s, s\<lparr>arp_listen_handler := False\<rparr>)
       else arp_request_loop E ip n (s\<lparr>arp_listen_handler := False\<rparr>))"
  by (auto simp: arp_asked_def Let_def split_beta intro!: arg_cong [where f = "Option.bind x" for x] ext)

lemma arp_asked_keeps:
  assumes "net_owned netbuf s [] hs" and "net_wf s" and "alloc_nb s = (b, s1)" and "b \<noteq> 0"
  shows "net_owned netbuf (arp_asked E ip b s1) [] hs" and "net_wf (arp_asked E ip b s1)"
proof -
  note o = alloc_nb_owned(1) [OF assms(1,3,4)]
  have "net_owned netbuf (arp_asked E ip b s1) [] (remove1 b (b # hs))"
    unfolding arp_asked_def Let_def by (intro enet_send_owned set_nb_len_owned) (simp_all add: o)
  then show "net_owned netbuf (arp_asked E ip b s1) [] hs" by simp
  show "net_wf (arp_asked E ip b s1)"
    using assms(2,3) by (auto simp: arp_asked_def Let_def alloc_nb_def split: prod.splits)
qed

lemma arp_request_loop_total:
  assumes "env_ok E"
  shows "net_owned netbuf s [] hs \<Longrightarrow> net_wf s \<Longrightarrow>
    \<exists>r s'. arp_request_loop E ip n s = Some (r, s') \<and> net_owned netbuf s' [] hs \<and> net_wf s' \<and>
      (r \<noteq> None \<longrightarrow> r = arp_chk_entry ip s')"
proof (induction n arbitrary: s)
  case (Suc n)
  obtain b s1 where a: "alloc_nb s = (b, s1)" by (cases "alloc_nb s")
  show ?case
  proof (cases "b = 0")
    case True
    then have "net_owned netbuf s1 [] hs" "net_wf s1"
      using alloc_nb_owned(2) [OF Suc.prems(1) a] Suc.prems(2) a by (auto simp: alloc_nb_def split: prod.splits)
    then show ?thesis using True by (auto simp: a)
  next
    case False
    obtain now s2 where t: "sys_get_ticks E (arp_asked E ip b s1) = (now, s2)" by fastforce
    have s2: "net_owned netbuf s2 [] hs" "net_wf s2"
      using arp_asked_keeps [OF Suc.prems a False, of E ip] by (simp_all add: sys_get_ticks_keeps [OF t])
    obtain f s3 where p: "poll_until E (\<lambda>s. arp_chk_entry ip s \<noteq> None) (now + ucast BOARD_TPS) s2 = Some (f, s3)"
      "net_owned netbuf s3 [] hs" "net_wf s3"
      using poll_until_total [OF assms s2] by blast
    have "\<exists>r s'. arp_request_loop E ip n (s3\<lparr>arp_listen_handler := False\<rparr>) = Some (r, s') \<and>
        net_owned netbuf s' [] hs \<and> net_wf s' \<and> (r \<noteq> None \<longrightarrow> r = arp_chk_entry ip s')"
      using p by (intro Suc.IH) simp_all
    moreover have "arp_chk_entry ip (s3\<lparr>arp_listen_handler := False\<rparr>) = arp_chk_entry ip s3"
      by (simp add: arp_chk_entry_def)
    ultimately show ?thesis
      using p by (simp only: arp_request_loop_Suc [OF a False t] bind.simps prod.case) (cases f; simp)
  qed
qed simp

lemma arp_lookup_total:
  assumes "env_ok E" and "net_owned netbuf s [] hs" and "net_wf s"
  shows "\<exists>r s'. arp_lookup E ip s = Some (r, s') \<and> net_owned netbuf s' [] hs \<and> net_wf s' \<and>
    (r \<noteq> None \<longrightarrow> r = arp_chk_entry (if arp_chk_entry ip s = None \<and> \<not> ip_is_local_net E ip then my_gateway E else ip) s')"
proof (cases "arp_chk_entry ip s")
  case None
  define s1 where "s1 = (if arp_cache_num s = int ARP_MAX_CACHE_NUM then arp_flush_cache s else s)"
  have "net_owned netbuf s1 [] hs" using assms(2) by (simp add: s1_def arp_flush_cache_def)
  moreover have "net_wf s1"
    using assms(3) arp_flush_inv [of s] by (auto simp: s1_def net_wf_def) (auto simp: arp_flush_cache_def)
  ultimately show ?thesis
    using arp_request_loop_total [OF assms(1), of netbuf s1 hs _ 3] None
    by (simp add: arp_lookup_def arp_request_def s1_def [symmetric])
qed (use assms in \<open>simp add: arp_lookup_def\<close>)

section \<open>Calls that wait\<close>

lemma sys_sleep_total:
  assumes "env_ok E" and "net_owned netbuf s [] hs" and "net_wf s"
  shows "\<exists>s'. sys_sleep E ms s = Some s' \<and> net_owned netbuf s' [] hs \<and> net_wf s'"
proof -
  obtain now s1 where t: "sys_get_ticks E s = (now, s1)" by fastforce
  have "net_owned netbuf s1 [] hs" "net_wf s1" using assms(2,3) by (simp_all add: sys_get_ticks_keeps [OF t])
  from poll_until_total [OF assms(1) this, of "\<lambda>_. False" "now + delay_ticks ms"]
  show ?thesis by (auto simp: sys_sleep_def t)
qed

lemma udp_output_wf: "net_wf s \<Longrightarrow> net_wf (snd (udp_output E d n h sp dp arp s))"
  by (auto simp: udp_output_def Let_def alloc_nb_def split: prod.split)

lemma udp_sendto_total:
  assumes "env_ok E" and "net_owned netbuf s [] hs" and "net_wf s"
  shows "\<exists>r s'. udp_sendto E d n h sp dp s = Some (r, s') \<and> net_owned netbuf s' [] hs \<and> net_wf s'"
proof -
  obtain r s1 where l: "arp_lookup E h s = Some (r, s1)" "net_owned netbuf s1 [] hs" "net_wf s1"
    using arp_lookup_total [OF assms, of h] by blast
  then have u: "net_owned netbuf (snd (udp_output E d n h sp dp arp s1)) [] hs"
    "net_wf (snd (udp_output E d n h sp dp arp s1))" for arp
    by (simp_all add: udp_output_owned udp_output_wf)
  have "\<exists>r' s'. (if r = None then Some (-1, s1) else Some (udp_output E d n h sp dp (arp_deref r s1) s1)) = Some (r', s') \<and>
      net_owned netbuf s' [] hs \<and> net_wf s'"
    using l u [of "arp_deref r s1"] by (cases "udp_output E d n h sp dp (arp_deref r s1) s1") auto
  then show ?thesis by (simp add: udp_sendto_def l(1))
qed

lemma recv_wait_total:
  assumes "env_ok E" and "t \<noteq> -1" and "net_owned netbuf s [] hs" and "net_wf s"
  shows "\<exists>e s'. recv_wait E i t s = Some (e, s') \<and> net_owned netbuf s' [] hs \<and> net_wf s' \<and> (\<forall>c. e = Some c \<longrightarrow> c < 0)"
proof -
  have "t < t + 1"
  proof -
    have "unat t \<noteq> unat (-1 :: u64)" using assms(2) word_unat_eq_iff by blast
    moreover have "unat (-1 :: u64) = 2 ^ 64 - 1" by (simp add: unsigned_minus_1_eq_mask mask_eq_exp_minus_1)
    ultimately have "unat t < 2 ^ 64 - 1" using unsigned_less [of t, where 'a = nat] by simp
    then show ?thesis by (simp add: word_less_nat_alt unat_word_ariths)
  qed
  moreover obtain n where "tick_reads s \<le> n" "t + 1 \<le> clock E n" using assms(1) by (auto simp: env_ok_def ticking_def)
  ultimately have n: "tick_reads s \<le> n" "t < clock E n" by auto
  then show ?thesis using assms(3,4)
  proof (induction "n - tick_reads s" arbitrary: s rule: less_induct)
    case less
    obtain s2 where s2: "enet_poll E s = Some s2" "net_owned netbuf s2 [] hs" "tick_reads s2 = tick_reads s" "net_wf s2"
      using enet_poll_total [of netbuf s hs E] less.prems assms(1) by (auto simp: env_ok_def)
    let ?s = "s2\<lparr>tick_reads := tick_reads s + 1\<rparr>"
    have o: "net_owned netbuf ?s [] hs" "net_wf ?s" using s2 by (simp_all add: net_owned_def)
    show ?case
    proof (cases "data_size (udp_socks s ! i) \<noteq> 0 \<or> error_code (udp_socks s2 ! i) < 0 \<or>
        data_size (udp_socks s2 ! i) \<noteq> 0 \<or> t < clock E (tick_reads s)")
      case True
      then show ?thesis
        using o s2 less.prems by (subst recv_wait.simps) (auto simp: sys_get_ticks_def)
    next
      case False
      then have "tick_reads s < n" using less.prems by (metis le_neq_implies_less)
      then have "\<exists>e s'. recv_wait E i t ?s = Some (e, s') \<and> net_owned netbuf s' [] hs \<and> net_wf s' \<and> (\<forall>c. e = Some c \<longrightarrow> c < 0)"
        using o less.prems by (intro less.hyps) auto
      then show ?thesis
        using False s2 by (subst recv_wait.simps) (auto simp: sys_get_ticks_def)
    qed
  qed
qed

lemma udp_recvfrom_total:
  assumes "env_ok E" and "\<forall>k. clock E k + 300 \<noteq> -1" and "net_owned netbuf s [] hs" and "net_wf s"
  shows "\<exists>r p s'. udp_recvfrom E sd data lp mx 3000 s = Some (r, p, s') \<and> net_owned netbuf s' [] hs \<and> net_wf s' \<and>
    (0 \<le> r \<longrightarrow> r \<le> int (unat mx) \<and> p \<noteq> None)"
proof (cases "sd < 0 \<or> int UDP_SOCKET_MAX_NUM \<le> sd")
  case False
  let ?i = "nat sd"
  let ?s = "s\<lparr>tick_reads := tick_reads s + 1, udp_socks := (udp_socks s)[?i := (udp_socks s ! ?i)\<lparr>listen_port := htons lp\<rparr>]\<rparr>"
  define t where "t = clock E (tick_reads s) + 300"
  have t: "t \<noteq> -1" using assms(2) by (simp add: t_def)
  have s: "net_owned netbuf ?s [] hs" "net_wf ?s"
  proof -
    show "net_wf ?s" by (subst net_wf_cong [of _ s]) (simp_all add: assms(4))
  qed (use assms(3) in \<open>simp add: net_owned_def\<close>)
  obtain e s1 where w: "recv_wait E ?i t ?s = Some (e, s1)" "net_owned netbuf s1 [] hs" "net_wf s1" "\<forall>c. e = Some c \<longrightarrow> c < 0"
    using recv_wait_total [OF assms(1) t s] by blast
  have n: "fst (udp_copy_out n a (m, k)) \<le> n" for n a m k
    by (induction n arbitrary: a m k) (simp_all add: Let_def split_beta)
  have d: "(word_of_int (sint (3000 * BOARD_TPS :: u32) sdiv 1000) :: u32) = 300"
    by (simp add: BOARD_TPS_def signed_divide_int_def)
  have eq: "udp_recvfrom E sd data lp mx 3000 s = Option.bind (recv_wait E ?i t ?s) (\<lambda>(e, s).
       case e of Some c \<Rightarrow> Some (c, None, s)
       | None \<Rightarrow> (let port = from_port (udp_socks s ! ?i);
                    (total, m, k) = udp_copy_out (unat mx) data (mem s, udp_socks s ! ?i)
                in Some (int total, Some port, s\<lparr>mem := m, udp_socks := (udp_socks s)[?i := k]\<rparr>)))"
    using False unfolding udp_recvfrom_def d by (simp add: sys_get_ticks_def t_def Let_def)
  show ?thesis
  proof (cases e)
    case (Some c)
    then show ?thesis using w by (auto simp: eq)
  next
    case None
    then show ?thesis
      using w of_nat_mono [OF n [of "unat mx" data "mem s1" "udp_socks s1 ! ?i"], where 'a = int]
      by (auto simp: eq Let_def split_beta)
  qed
qed (use assms in auto, simp_all add: udp_recvfrom_def)

text \<open>One frame arrives while the receive queue is empty and a buffer is free.\<close>

lemma enet_poll_one:
  assumes "net_owned netbuf s [] hs" and "enet_initialized s" and "rx_frames E (rx_calls s) = [f]"
    and "14 \<le> length f" and "length f \<le> 2048" and "fst (alloc_nb s) \<noteq> 0"
  shows "\<exists>b s'. enet_poll E s = Some (enet_dispatch E b s') \<and> mem_bytes (mem s') (nb_data s' b) (length f) = f \<and>
    nb_len s' b = of_nat (length f) \<and> arp_cache_tbl s' = arp_cache_tbl s \<and> arp_cache_num s' = arp_cache_num s \<and>
    arp_listen_handler s' = arp_listen_handler s \<and> udp_socks s' = udp_socks s"
proof -
  let ?r = "s\<lparr>rx_calls := rx_calls s + 1\<rparr>"
  obtain b s1 where a: "alloc_nb ?r = (b, s1)" by (cases "alloc_nb ?r")
  have b: "b \<noteq> 0" using assms(6) a by (simp add: alloc_nb_def split_beta)
  have s1: "arp_cache_tbl s1 = arp_cache_tbl s" "arp_cache_num s1 = arp_cache_num s"
    "arp_listen_handler s1 = arp_listen_handler s" "udp_socks s1 = udp_socks s"
    using a by (auto simp: alloc_nb_def split: prod.splits)
  define s2 where "s2 = set_nb_len b (of_nat (length f)) (s1\<lparr>mem := put_bytes (mem s1) (nb_data s1 b) f\<rparr>)"
  define s3 where "s3 = s2\<lparr>bufs := net_put_rcvq b (bufs s2)\<rparr>"
  have d: "sl2312_emac_deliver E s = Some s3"
    using assms(3-5) b
    by (simp add: sl2312_emac_deliver_def enet_input_def a [simplified] s2_def s3_def Let_def ETH_HDR_SIZE_def)
  have "net_owned netbuf ?r [] hs" using assms(1) by (simp add: net_owned_def)
  from alloc_nb_owned(1) [OF this a b] have "net_owned netbuf s2 [] (b # hs)"
    unfolding s2_def by (intro set_nb_len_owned) simp_all
  then obtain fs where o2: "owned netbuf (bufs s2) fs [] (b # hs)" by (auto simp: net_owned_def)
  have o3: "net_owned netbuf s3 [b] hs"
    using owned_put [OF o2, of b] by (auto simp: s3_def net_owned_def)
  let ?s' = "s3\<lparr>bufs := snd (net_get_rcvq (bufs s3))\<rparr>"
  note c = dispatch.consume(1-3) [OF o3] and e = dispatch.consume(4) [OF o3, of E]
  have "enet_poll E s = enet_loop E (enet_dispatch E b ?s')"
    using c assms(2) d by (simp add: enet_poll_def) (subst enet_loop.simps, simp add: split_beta Let_def)
  also have "\<dots> = Some (enet_dispatch E b ?s')"
  proof -
    have "net_peek_rcvq (bufs (enet_dispatch E b ?s')) = 0"
      using e by (auto simp: net_owned_def owned_def net_peek_rcvq_def dest: queue_holds_total)
    then show ?thesis by (subst enet_loop.simps) simp
  qed
  finally have p: "enet_poll E s = Some (enet_dispatch E b ?s')" .
  have h: "datap (hdrs (net_put_rcvq b q) x) = datap (hdrs q x)" "len (hdrs (net_put_rcvq b q) x) = len (hdrs q x)" for q x
    by (simp_all add: net_put_rcvq_def net_insert_queue_tail_def set_next_buf_def Let_def)
  have n: "nb_data ?s' b = nb_data s1 b" "nb_len ?s' b = of_nat (length f)" "mem ?s' = put_bytes (mem s1) (nb_data s1 b) f"
    by (simp_all add: s3_def s2_def nb_data_def nb_len_def set_nb_len_def alloc_fields h)
  show ?thesis
    using p n s1 assms(5)
    by (intro exI [of _ b] exI [of _ ?s']) (simp add: s3_def s2_def set_nb_len_def mem_bytes_put_bytes)
qed

section \<open>A lookup that is answered\<close>

lemma alloc_free:
  assumes "net_owned netbuf s [] hs" and "b \<in> set (all_bufs netbuf)" and "b \<notin> set hs"
  shows "fst (alloc_nb s) \<noteq> 0"
proof -
  obtain fs where o: "owned netbuf (bufs s) fs [] hs" using assms(1) by (auto simp: net_owned_def)
  then have "fs \<noteq> []" using assms(2,3) by (auto simp: owned_def)
  then show ?thesis
    using free_queue.get_none_iff [of "bufs s" fs] o by (simp add: owned_def alloc_nb_def split_beta)
qed

text \<open>The handler given a reply to this host.\<close>

lemma dispatch_reply:
  fixes s :: net and b :: addr and f :: "u8 list"
  assumes "mem_bytes (mem s) (nb_data s b) (length f) = f" and "nb_len s b = of_nat (length f)"
    and "42 \<le> length f" and "length f \<le> 2048"
    and "slice 12 2 f = be16 0x806" and "slice 14 2 f = be16 1" and "slice 16 2 f = be16 0x800"
    and "slice 20 2 f = be16 2" and "slice 38 4 f = be32 (my_ip E)" and "arp_listen_handler s"
  shows "enet_dispatch E b s = arp_reply_listener b (nb_data s b + 14) s"
proof -
  let ?p = "nb_data s b"
  have f: "mem_bytes (mem s) (?p + 12) 2 = slice 12 2 f" "mem_bytes (mem s) (?p + 14) 2 = slice 14 2 f"
    "mem_bytes (mem s) (?p + 16) 2 = slice 16 2 f"
    "mem_bytes (mem s) (?p + 20) 2 = slice 20 2 f" "mem_bytes (mem s) (?p + 38) 4 = slice 38 4 f"
    using assms(3) by (subst mem_bytes_slice_num [where N = "length f"], simp_all add: assms(1))+
  have h: "ntohs (mem_le16 (mem s) (?p + 12)) = 0x806" "ntohs (mem_le16 (mem s) (?p + 14)) = 1"
    "ntohs (mem_le16 (mem s) (?p + 16)) = 0x800"
    "ntohs (mem_le16 (mem s) (?p + 20)) = 2" "mem_le32 (mem s) (?p + 38) = htonl (my_ip E)"
    unfolding ntohs_field htonl_field f using assms by simp_all
  have n: "\<not> nb_len s b < ARP_PKT_SIZE"
    using assms(2-4) by (simp add: ARP_PKT_SIZE_def ETH_HDR_SIZE_def not_less word_le_nat_alt unat_of_nat)
  show ?thesis
    using n h assms(10)
    by (simp add: enet_dispatch_def arp_input_def Let_def ETH_TYPE_IP_def ETH_TYPE_ARP_def ETH_HDR_SIZE_def add.assoc)
qed

lemma arp_chk_entry_of_map: "arp_map (arp_cache_tbl s) ip = Some m \<Longrightarrow>
   \<exists>i. arp_chk_entry ip s = Some i \<and> mac_addr (arp_cache_tbl s ! i) = m"
  using arp_chk_entry_map [of s ip] by (auto split: option.splits)

text \<open>A frame that answers the question for \<open>ip\<close>: a reply over Ethernet and IP, from \<open>ip\<close>, to this host.\<close>

definition arp_answers :: "env \<Rightarrow> u32 \<Rightarrow> u8 list \<Rightarrow> bool" where
  "arp_answers E ip f \<longleftrightarrow> 42 \<le> length f \<and> length f \<le> 2048 \<and>
     slice 12 2 f = be16 0x806 \<and> slice 14 2 f = be16 1 \<and> slice 16 2 f = be16 0x800 \<and>
     slice 20 2 f = be16 2 \<and> slice 28 4 f = be32 ip \<and> slice 38 4 f = be32 (my_ip E)"

lemma poll_quiet:
  assumes "net_owned netbuf s [] hs" and "enet_initialized s" and "rx_frames E (rx_calls s) = []"
  shows "enet_poll E s = Some (s\<lparr>rx_calls := rx_calls s + 1\<rparr>)"
proof -
  have "net_peek_rcvq (bufs s) = 0"
    using assms(1) by (auto simp: net_owned_def owned_def net_peek_rcvq_def dest: queue_holds_total)
  then show ?thesis using assms(2,3) by (simp add: enet_poll_def sl2312_emac_deliver_def) (subst enet_loop.simps, simp)
qed

text \<open>The poll that delivers the answer enters it into the cache.\<close>

lemma poll_answered:
  assumes o: "net_owned netbuf s [] hs" and wf: "net_wf s" and "enet_initialized s" and "arp_listen_handler s"
    and num: "arp_cache_num s < 4" and free: "fst (alloc_nb s) \<noteq> 0"
    and "rx_frames E (rx_calls s) = [f]" and f: "arp_answers E ip f"
  shows "\<exists>i s'. enet_poll E s = Some s' \<and> arp_chk_entry ip s' = Some i \<and> mac_addr (arp_cache_tbl s' ! i) = slice 22 6 f"
proof -
  have l: "42 \<le> length f" "length f \<le> 2048" using f by (simp_all add: arp_answers_def)
  obtain c s2 where p: "enet_poll E s = Some (enet_dispatch E c s2)"
    "mem_bytes (mem s2) (nb_data s2 c) (length f) = f" "nb_len s2 c = of_nat (length f)"
    "arp_cache_tbl s2 = arp_cache_tbl s" "arp_cache_num s2 = arp_cache_num s" "arp_listen_handler s2"
    using enet_poll_one [OF o, of E f] assms(3,4,6,7) l by auto
  let ?r = "arp_reply_listener c (nb_data s2 c + 14) s2"
  have d: "enet_dispatch E c s2 = ?r"
    using dispatch_reply [of s2 c f E] f p(2,3,6) by (simp add: arp_answers_def)
  have sip: "slice 28 4 f = be32 ip" using f by (simp add: arp_answers_def)
  have "mem_bytes (mem s2) (nb_data s2 c + 28) 4 = be32 ip"
    using l by (subst mem_bytes_slice_num [where N = "length f"]) (simp_all add: p sip)
  then have "ntohl (mem_le32 (mem s2) (nb_data s2 c + 28)) = ip" unfolding htonl_field [symmetric] by simp
  moreover have "mem_bytes (mem s2) (nb_data s2 c + 22) 6 = slice 22 6 f"
    using l by (subst mem_bytes_slice_num [where N = "length f"]) (simp_all add: p)
  moreover have "arp_inv s2" using wf p by (simp add: net_wf_def arp_inv_def)
  ultimately have "arp_map (arp_cache_tbl ?r) ip = Some (slice 22 6 f)"
    using arp_reply_listener_map [of s2 c "nb_data s2 c + 14"] num p by (simp add: add.assoc)
  then show ?thesis using arp_chk_entry_of_map [of ?r] p(1) d by auto
qed

lemma poll_until_owned:
  "poll_until E arrived t s = Some r \<Longrightarrow> net_owned netbuf s [] hs \<Longrightarrow> frames_fit E \<Longrightarrow> net_owned netbuf (snd r) [] hs"
proof (induction rule: poll_until.raw_induct [rotated, consumes 1])
  case (1 loop E arrived t s r)
  let ?s = "s\<lparr>tick_reads := tick_reads s + 1\<rparr>"
  have "net_owned netbuf ?s [] hs" using 1(3) by (simp add: net_owned_def)
  from enet_poll_total [OF this 1(4)] obtain s2 where "enet_poll E ?s = Some s2" "net_owned netbuf s2 [] hs" by blast
  then show ?case
    using 1 \<open>net_owned netbuf ?s [] hs\<close> by (cases r) (auto simp: sys_get_ticks_def split: if_splits)
qed

text \<open>The wait loop polls until the answer is there.\<close>

lemma wait_answered:
  "net_owned netbuf s [] hs \<Longrightarrow> net_wf s \<Longrightarrow> enet_initialized s \<Longrightarrow> arp_listen_handler s \<Longrightarrow>
   arp_cache_num s < 4 \<Longrightarrow> fst (alloc_nb s) \<noteq> 0 \<Longrightarrow> arp_chk_entry ip s = None \<Longrightarrow>
   \<forall>j<k. rx_frames E (rx_calls s + j) = [] \<Longrightarrow> rx_frames E (rx_calls s + k) = [f] \<Longrightarrow> arp_answers E ip f \<Longrightarrow>
   \<forall>j\<le>k. clock E (tick_reads s + j) < t \<Longrightarrow>
   \<exists>i s'. poll_until E (\<lambda>s. arp_chk_entry ip s \<noteq> None) t s = Some (True, s') \<and> arp_chk_entry ip s' = Some i \<and>
     mac_addr (arp_cache_tbl s' ! i) = slice 22 6 f"
proof (induction k arbitrary: s)
  case 0
  let ?s = "s\<lparr>tick_reads := tick_reads s + 1\<rparr>"
  have "net_owned netbuf ?s [] hs" "fst (alloc_nb ?s) \<noteq> 0"
    using 0 by (simp_all add: net_owned_def alloc_nb_def split_beta)
  then obtain i s' where "enet_poll E ?s = Some s'" "arp_chk_entry ip s' = Some i" "mac_addr (arp_cache_tbl s' ! i) = slice 22 6 f"
    using poll_answered [of netbuf ?s hs E f ip] 0 by auto
  then show ?case using 0 by (subst poll_until.simps) (simp add: sys_get_ticks_def)
next
  case (Suc k)
  let ?s = "s\<lparr>tick_reads := tick_reads s + 1\<rparr>"
  let ?t = "?s\<lparr>rx_calls := rx_calls s + 1\<rparr>"
  have o: "net_owned netbuf ?s [] hs" "net_owned netbuf ?t [] hs" "fst (alloc_nb ?t) \<noteq> 0"
    using Suc.prems by (simp_all add: net_owned_def alloc_nb_def split_beta)
  have n: "arp_chk_entry ip ?t = None" using Suc.prems(7) by (simp add: arp_chk_entry_def)
  have p: "enet_poll E ?s = Some ?t" using poll_quiet [OF o(1), of E] Suc.prems(3) Suc.prems(8) [rule_format, of 0] by simp
  have c: "clock E (tick_reads s) < t" using Suc.prems(11) [rule_format, of 0] by simp
  have "poll_until E (\<lambda>s. arp_chk_entry ip s \<noteq> None) t s = poll_until E (\<lambda>s. arp_chk_entry ip s \<noteq> None) t ?t"
    using p c n by (subst poll_until.simps) (simp add: sys_get_ticks_def)
  moreover have "\<forall>j<k. rx_frames E (rx_calls ?t + j) = []" "rx_frames E (rx_calls ?t + k) = [f]"
    "\<forall>j\<le>k. clock E (tick_reads ?t + j) < t"
    using Suc.prems(8) [rule_format, of "Suc j" for j] Suc.prems(9) Suc.prems(11) [rule_format, of "Suc j" for j] by simp_all
  ultimately show ?case
    using Suc.IH [OF o(2) _ _ _ _ o(3) n] Suc.prems(2-5,10) by simp
qed

section \<open>Well-formedness\<close>

lemma enet_loop_wf: "enet_loop E s = Some s' \<Longrightarrow> net_wf s \<Longrightarrow> net_wf s'"
proof (induction rule: enet_loop.raw_induct [rotated, consumes 1])
  case (1 loop E s s')
  then show ?case by (auto simp: split_beta Let_def dispatch.wf split: if_splits)
qed

lemma enet_input_wf: "enet_input f s = Some s' \<Longrightarrow> net_wf s \<Longrightarrow> net_wf s'"
  by (auto simp: enet_input_def alloc_nb_def Let_def split: prod.splits if_splits)

lemma enet_inputs_wf: "enet_inputs fr s = Some s' \<Longrightarrow> net_wf s \<Longrightarrow> net_wf s'"
  by (induction fr arbitrary: s) (auto simp: Option.bind_eq_Some_conv dest: enet_input_wf)

lemma enet_poll_wf: "enet_poll E s = Some s' \<Longrightarrow> net_wf s \<Longrightarrow> net_wf s'"
  by (auto simp: enet_poll_def sl2312_emac_deliver_def Option.bind_eq_Some_conv dest: enet_loop_wf enet_inputs_wf
      split: if_splits)

lemma poll_until_wf: "poll_until E arrived t s = Some r \<Longrightarrow> net_wf s \<Longrightarrow> net_wf (snd r)"
proof (induction rule: poll_until.raw_induct [rotated, consumes 1])
  case (1 loop E arrived t s r)
  then show ?case
    by (cases r) (auto simp: sys_get_ticks_def Option.bind_eq_Some_conv dest: enet_poll_wf split: if_splits prod.splits)
qed

lemma arp_request_loop_wf: "arp_request_loop E ip n s = Some r \<Longrightarrow> net_wf s \<Longrightarrow> net_wf (snd r)"
proof (induction n arbitrary: s)
  case (Suc n)
  obtain b s1 where a: "alloc_nb s = (b, s1)" by (cases "alloc_nb s")
  then have w: "net_wf s1" using Suc.prems(2) by (auto simp: alloc_nb_def split: prod.splits)
  obtain now s2 where t: "sys_get_ticks E (arp_asked E ip b s1) = (now, s2)" by fastforce
  have w2: "net_wf s2" using w by (simp add: sys_get_ticks_keeps [OF t] arp_asked_def Let_def)
  show ?case
  proof (cases "b = 0")
    case False
    with Suc.prems(1) w2 show ?thesis
      by (auto simp: arp_request_loop_Suc [OF a False t] Option.bind_eq_Some_conv simp del: arp_request_loop.simps
          dest!: poll_until_wf Suc.IH split: if_splits)
  qed (use Suc.prems w in \<open>auto simp: a\<close>)
qed auto

lemma arp_flush_wf: "net_wf s \<Longrightarrow> net_wf (arp_flush_cache s)"
  using arp_flush_inv [of s] by (auto simp: net_wf_def) (auto simp: arp_flush_cache_def)

lemma arp_lookup_wf: "arp_lookup E ip s = Some r \<Longrightarrow> net_wf s \<Longrightarrow> net_wf (snd r)"
  using arp_flush_wf [of s]
  by (auto simp: arp_lookup_def arp_request_def Let_def dest!: arp_request_loop_wf split: option.splits if_splits)

lemma recv_wait_wf: "recv_wait E i t s = Some r \<Longrightarrow> net_wf s \<Longrightarrow> net_wf (snd r)"
proof (induction rule: recv_wait.raw_induct [rotated, consumes 1])
  case (1 loop E i t s r)
  then show ?case
    by (cases r) (auto simp: sys_get_ticks_def Option.bind_eq_Some_conv dest: enet_poll_wf split: if_splits prod.splits)
qed

lemma udp_recvfrom_wf: "udp_recvfrom E sd data lp mx ms s = Some (r, p, s') \<Longrightarrow> net_wf s \<Longrightarrow> net_wf s'"
proof -
  assume r: "udp_recvfrom E sd data lp mx ms s = Some (r, p, s')" and w: "net_wf s"
  let ?s = "s\<lparr>tick_reads := tick_reads s + 1, udp_socks := (udp_socks s)[nat sd := (udp_socks s ! nat sd)\<lparr>listen_port := htons lp\<rparr>]\<rparr>"
  have w1: "net_wf ?s" by (subst net_wf_cong [of _ s]) (simp_all add: w)
  show "net_wf s'"
  proof (cases "sd < 0 \<or> int UDP_SOCKET_MAX_NUM \<le> sd")
    case False
    with r obtain e s1 where e: "recv_wait E (nat sd) (clock E (tick_reads s) + ucast (if (word_of_int (sint (ms * BOARD_TPS) sdiv 1000) :: u32) = 0
        then 1 else word_of_int (sint (ms * BOARD_TPS) sdiv 1000) :: u32)) ?s = Some (e, s1)"
      and s': "s' = s1 \<or> (\<exists>m k. s' = s1\<lparr>mem := m, udp_socks := (udp_socks s1)[nat sd := k]\<rparr>)"
      by (auto simp: udp_recvfrom_def Let_def sys_get_ticks_def Option.bind_eq_Some_conv split: option.splits prod.splits)
    have "net_wf s1" using recv_wait_wf [OF e w1] by simp
    with s' show ?thesis by auto
  qed (use r w in \<open>auto simp: udp_recvfrom_def\<close>)
qed

lemma ping_prepare_wf [simp]: "net_wf (ping_prepare num n b s) = net_wf s"
  by (simp add: ping_prepare_def Let_def icmp_register_listener_def)

lemma ping_finish_wf: "net_wf s \<Longrightarrow> net_wf (snd (ping_finish E num h n t (left, s)))"
  by (simp add: ping_finish_def Let_def split_beta sys_get_ticks_def icmp_deregister_listener_def)

lemma ping_round_wf: "ping_round E num h n ms arp b s = Some r \<Longrightarrow> net_wf s \<Longrightarrow> net_wf (snd r)"
  by (auto simp: ping_round_def sys_get_ticks_def dest!: poll_until_wf intro: ping_finish_wf split: if_splits)

lemma alloc_nb_wf [simp]: "net_wf (snd (alloc_nb s)) = net_wf s"
  by (simp add: alloc_nb_def split_beta)

lemma ping_loop_wf: "ping_loop E h c n ms num s = Some r \<Longrightarrow> net_wf s \<Longrightarrow> net_wf (snd r)"
proof (induction rule: ping_loop.raw_induct [rotated, consumes 1])
  case (1 loop E h c n ms num s r)
  show ?case
  proof (cases "c = 0 \<or> num < c")
    case True
    with 1(2) obtain arp s1 where l: "arp_lookup E h s = Some (arp, s1)" by (auto simp: Option.bind_eq_Some_conv)
    let ?s2 = "snd (alloc_nb (s1\<lparr>key_scans := key_scans s1 + 1\<rparr>))"
    have w: "net_wf s1" "net_wf ?s2" using arp_lookup_wf [OF l] 1(3) by simp_all
    have "r = ([], s1\<lparr>key_scans := key_scans s1 + 1\<rparr>) \<or> snd r = s1\<lparr>key_scans := key_scans s1 + 1\<rparr> \<or> snd r = ?s2 \<or>
      (\<exists>arp b msg s3 r'. ping_round E num h n ms arp b ?s2 = Some (msg, s3) \<and> loop E h c n ms (num + 1) s3 = Some r' \<and> snd r = snd r')"
      using 1(2) True by (force simp: l uart_scanc_def split_beta Let_def Option.bind_eq_Some_conv split: if_splits)
    then show ?thesis using w ping_round_wf 1(1) by (metis net_wf_simps(15) snd_conv)
  qed (use 1 in \<open>auto\<close>)
qed

lemma ping_prepare_owned:
  "net_owned netbuf s rs hs \<Longrightarrow> b \<in> set hs \<Longrightarrow> net_owned netbuf (ping_prepare num n b s) rs hs"
  by (simp add: ping_prepare_def Let_def icmp_register_listener_def set_nb_len_owned)

lemma ping_finish_owned:
  "net_owned netbuf s rs hs \<Longrightarrow> net_owned netbuf (snd (ping_finish E num h n t (left, s))) rs hs"
  by (simp add: ping_finish_def Let_def split_beta sys_get_ticks_def icmp_deregister_listener_def net_owned_def)

text \<open>The largest ping that fits.\<close>

definition ping_fits :: "u32 \<Rightarrow> bool" where
  "ping_fits n \<longleftrightarrow> 42 + unat n \<le> 2048"

lemma ping_room: "unat (ETH_HDR_SIZE + IP_HDR_SIZE + ICMP_HDR_SIZE) + unat n > nb_room \<longleftrightarrow> \<not> ping_fits n"
  by (auto simp: ping_fits_def ETH_HDR_SIZE_def IP_HDR_SIZE_def ICMP_HDR_SIZE_def)

lemma ping_round_total:
  assumes "env_ok E" and "net_owned netbuf s [] (b # hs)" and "net_wf s" and "ping_fits n"
  shows "\<exists>msg s'. ping_round E num h n ms arp b s = Some (msg, s') \<and> net_owned netbuf s' [] hs \<and> net_wf s'"
proof -
  let ?s = "ping_prepare num n b s"
  let ?t = "?s\<lparr>tick_reads := tick_reads ?s + 1\<rparr>"
  have "net_owned netbuf ?t [] (b # hs)"
    using ping_prepare_owned [OF assms(2), of b] by (simp add: net_owned_def)
  from ip_output_owned [OF this, of b] have "net_owned netbuf (ip_output E b h IP_PROTO_ICMP arp ?t) [] hs" by simp
  from poll_until_total [OF assms(1) this, of "\<lambda>s. icmp_arg s \<noteq> icmp_ident s"
      "clock E (tick_reads ?s) + delay_ticks ms"] assms(3)
  obtain r s' where p: "poll_until E (\<lambda>s. icmp_arg s \<noteq> icmp_ident s) (clock E (tick_reads ?s) + delay_ticks ms)
      (ip_output E b h IP_PROTO_ICMP arp ?t) = Some (r, s')" "net_owned netbuf s' [] hs" "net_wf s'"
    by auto
  let ?f = "ping_finish E num h n (clock E (tick_reads ?s)) (r, s')"
  have "ping_round E num h n ms arp b s = Some ?f" using p(1) assms(4) unfolding ping_round_def ping_room by (simp add: sys_get_ticks_def)
  then show ?thesis
    using ping_finish_owned [OF p(2)] ping_finish_wf [OF p(3)] by (cases ?f) (metis snd_conv)
qed

lemma ping_loop_total:
  assumes "env_ok E" and "c \<noteq> 0" and "ping_fits n"
  shows "net_owned netbuf s [] hs \<Longrightarrow> net_wf s \<Longrightarrow>
    \<exists>msgs s'. ping_loop E h c n ms num s = Some (msgs, s') \<and> net_owned netbuf s' [] hs \<and> net_wf s'"
proof (induction "unat c - unat num" arbitrary: num s rule: less_induct)
  case less
  show ?case
  proof (cases "num < c")
    case False
    then show ?thesis using less.prems assms(2) by (subst ping_loop.simps) simp
  next
    case True
    obtain arp s1 where l: "arp_lookup E h s = Some (arp, s1)" "net_owned netbuf s1 [] hs" "net_wf s1"
      using arp_lookup_total [OF assms(1) less.prems, of h] by blast
    let ?s1 = "s1\<lparr>key_scans := key_scans s1 + 1\<rparr>"
    obtain b s2 where a: "alloc_nb ?s1 = (b, s2)" by (cases "alloc_nb ?s1")
    have o1: "net_owned netbuf ?s1 [] hs" using l by simp
    have w2: "net_wf s2" using a alloc_nb_wf [of ?s1] l(3) by simp
    note un = ping_loop.simps [of E h c n ms num s]
    show ?thesis
    proof (cases "b = 0 \<or> keys E (key_scans s1) = Some 0x1b \<or> keys E (key_scans s1) = Some 3")
      case True
      then show ?thesis
        using \<open>num < c\<close> l o1 w2 alloc_nb_owned(2) [OF o1 a] a by (subst un) (auto simp: uart_scanc_def Let_def)
    next
      case False
      then have o2: "net_owned netbuf s2 [] (b # hs)" using alloc_nb_owned(1) [OF o1 a] by simp
      obtain msg s3 where r: "ping_round E num h n ms (arp_deref arp s2) b s2 = Some (msg, s3)"
        "net_owned netbuf s3 [] hs" "net_wf s3"
        using ping_round_total [OF assms(1) o2 w2 assms(3)] by blast
      have "unat (num + 1) = unat num + 1"
        using True unsigned_less [of c, where 'a = nat] by (simp add: word_less_nat_alt unat_word_ariths)
      then have "unat c - unat (num + 1) < unat c - unat num" using True by (simp add: word_less_nat_alt)
      from less.hyps [OF this r(2,3)] obtain msgs s' where
        i: "ping_loop E h c n ms (num + 1) s3 = Some (msgs, s')" "net_owned netbuf s' [] hs" "net_wf s'"
        by blast
      show ?thesis using False True l a r i by (subst un) (auto simp: uart_scanc_def Let_def)
    qed
  qed
qed

lemma icmp_ping_total:
  assumes "env_ok E" and "c \<noteq> 0" and "net_owned netbuf s [] hs" and "net_wf s" and "ping_fits n"
  shows "\<exists>msgs s'. icmp_ping E h c n ms s = Some (msgs, s') \<and> net_owned netbuf s' [] hs \<and> net_wf s'"
proof -
  have "net_owned netbuf (arp_flush_cache s) [] hs" using assms(3) by (simp add: arp_flush_cache_def)
  from arp_lookup_total [OF assms(1) this arp_flush_wf [OF assms(4)], of h] obtain arp s1 where
    l: "arp_lookup E h (arp_flush_cache s) = Some (arp, s1)" "net_owned netbuf s1 [] hs" "net_wf s1" by blast
  then show ?thesis using ping_loop_total [OF assms(1,2,5) l(2,3), of h ms 0] by (auto simp: icmp_ping_def)
qed

section \<open>Properties\<close>

text \<open>C3. A poll ends and loses no buffer.  From every state in which the buffers are owned, with
  any packets waiting in the receive queue and any frames delivered by the driver that are refused
  (more than 2080 bytes) or fit a buffer (at most 2048 bytes), \<open>enet_poll\<close> returns, the receive
  queue is empty afterwards, and every buffer that is not held by a caller is free again: each
  handler gave its buffer back exactly once.\<close>

theorem enet_poll_drains:
  assumes "net_owned netbuf s rs hs" and "enet_initialized s"
    and "\<forall>f\<in>set (rx_frames E (rx_calls s)). length f \<le> 2048 \<or> 2080 < length f"
  shows "\<exists>s'. enet_poll E s = Some s' \<and> net_owned netbuf s' [] hs \<and> net_peek_rcvq (bufs s') = 0"
proof -
  obtain s1 rs' where d: "sl2312_emac_deliver E s = Some s1" "net_owned netbuf s1 rs' hs"
    using deliver_keeps [OF assms(1), of E] assms(3) by (auto simp: frame_ok_def)
  from enet_loop_total [OF d(2), of E] obtain s' where
    "enet_loop E s1 = Some s'" "net_owned netbuf s' [] hs" by blast
  then show ?thesis
    using assms(2) d(1)
    by (auto simp: enet_poll_def net_owned_def owned_def net_peek_rcvq_def dest: queue_holds_total)
qed

definition demo_live :: net where
  "demo_live = (demo_net [])\<lparr>bufs := net_init_buf 0x100000 (bufs (demo_net []))\<rparr>"

lemma demo_live_owned: "net_owned 0x100000 demo_live [] []"
  using owned_init [of "0x100000" "bufs (demo_net [])"]
  by (auto simp: net_owned_def demo_live_def)

lemma demo_live_wf: "net_wf demo_live"
  by (simp add: net_wf_def arp_inv_def demo_live_def demo_net_def ARP_MAX_CACHE_NUM_def UDP_SOCKET_MAX_NUM_def)

lemma demo_live_init: "enet_initialized demo_live"
  by (simp add: demo_live_def demo_net_def)

lemma demo_ticking: "ticking demo_env"
  unfolding ticking_def
proof (intro allI exI conjI)
  fix t :: u64 and k :: nat
  show "k \<le> unat t + 2 ^ 64 * k" by simp
  have "(2 :: u64) ^ 64 = 0" by simp
  then have "(of_nat (unat t + 2 ^ 64 * k) :: u64) = t" by (simp only: of_nat_add of_nat_mult of_nat_power of_nat_numeral) simp
  then show "t \<le> clock demo_env (unat t + 2 ^ 64 * k)" by (simp add: demo_env_def)
qed

definition demo_arp_answer :: "u8 list" where
  "demo_arp_answer =
     [0, 1, 2, 3, 4, 5, 9, 9, 9, 9, 9, 9, 8, 6] @ [0, 1, 8, 0, 6, 4, 0, 2] @
     [9, 9, 9, 9, 9, 9, 192, 168, 0, 7] @ [0, 1, 2, 3, 4, 5, 192, 168, 0, 1]"

text \<open>A board to which the answer comes with the third poll, and one on which every poll brings three frames, the first too long.\<close>

definition demo_answered :: env where
  "demo_answered = demo_env\<lparr>rx_frames := \<lambda>n. if n = 2 then [demo_arp_answer] else []\<rparr>"

definition demo_noisy :: env where
  "demo_noisy = demo_env\<lparr>rx_frames := \<lambda>n. [replicate 2081 0, demo_arp_answer, replicate 60 0]\<rparr>"

lemma demo_ok: "frames_fit demo_env" "frames_fit demo_noisy" "env_ok demo_env" "ticking demo_noisy"
  using demo_ticking
  by (simp_all add: frames_fit_def frame_ok_def env_ok_def demo_env_def demo_noisy_def demo_arp_answer_def ticking_def)

theorem enet_poll_drains_witness: "\<exists>s'. enet_poll demo_noisy demo_live = Some s' \<and> net_peek_rcvq (bufs s') = 0"
  using enet_poll_drains [OF demo_live_owned demo_live_init, of demo_noisy] demo_ok(2)
  unfolding frames_fit_def frame_ok_def by blast

text \<open>C16. The calls that wait for the network return.  When the tick counter reaches every value
  again and again, buffers are owned by the queues and the caller, and no frame is of the 2049 to
  2080 bytes that are accepted and overrun a buffer, then \<open>sys_sleep\<close>, \<open>arp_lookup\<close>, \<open>udp_sendto\<close>,
  and \<open>icmp_ping\<close> with a positive count and a size that fits a buffer, return whatever frames
  arrive, and give back every buffer they took; an entry that \<open>arp_lookup\<close> returns is one of the
  address asked for, or of the gateway when the address was not in the cache and is not on the
  local net.\<close>

theorem network_calls_return:
  assumes "ticking E" and "frames_fit E" and "net_owned netbuf s [] hs" and "net_wf s"
    and "count \<noteq> 0" and "42 + unat bytes \<le> 2048"
  shows "(\<exists>s'. sys_sleep E ms s = Some s' \<and> net_owned netbuf s' [] hs) \<and>
    (\<exists>r s'. arp_lookup E ip s = Some (r, s') \<and> net_owned netbuf s' [] hs \<and>
       (\<forall>i. r = Some i \<longrightarrow> i < ARP_MAX_CACHE_NUM \<and> used (arp_cache_tbl s' ! i) \<and> ip_addr (arp_cache_tbl s' ! i) =
          (if arp_chk_entry ip s = None \<and> \<not> ip_is_local_net E ip then my_gateway E else ip))) \<and>
    (\<exists>r s'. udp_sendto E data n ip sport dport s = Some (r, s') \<and> net_owned netbuf s' [] hs) \<and>
    (\<exists>msgs s'. icmp_ping E ip count bytes ms s = Some (msgs, s') \<and> net_owned netbuf s' [] hs)"
proof -
  have E: "env_ok E" and fit: "ping_fits bytes" using assms by (simp_all add: env_ok_def ping_fits_def)
  obtain r s' where l: "arp_lookup E ip s = Some (r, s')" "net_owned netbuf s' [] hs" "net_wf s'"
    "r \<noteq> None \<longrightarrow> r = arp_chk_entry (if arp_chk_entry ip s = None \<and> \<not> ip_is_local_net E ip then my_gateway E else ip) s'"
    using arp_lookup_total [OF E assms(3,4)] by blast
  have i: "i < ARP_MAX_CACHE_NUM \<and> used (arp_cache_tbl s' ! i) \<and> ip_addr (arp_cache_tbl s' ! i) =
      (if arp_chk_entry ip s = None \<and> \<not> ip_is_local_net E ip then my_gateway E else ip)" if "r = Some i" for i
  proof -
    have "length (arp_cache_tbl s') = ARP_MAX_CACHE_NUM" using l(3) by (simp add: net_wf_def arp_inv_def)
    then show ?thesis using arp_chk_entry_Some [OF l(4) [unfolded that, simplified, symmetric]] by simp
  qed
  show ?thesis
  proof (intro conjI)
    show "\<exists>r s'. arp_lookup E ip s = Some (r, s') \<and> net_owned netbuf s' [] hs \<and>
       (\<forall>i. r = Some i \<longrightarrow> i < ARP_MAX_CACHE_NUM \<and> used (arp_cache_tbl s' ! i) \<and> ip_addr (arp_cache_tbl s' ! i) =
          (if arp_chk_entry ip s = None \<and> \<not> ip_is_local_net E ip then my_gateway E else ip))"
      using l(1,2) i by (intro exI [of _ r] exI [of _ s']) simp
    show "\<exists>s'. sys_sleep E ms s = Some s' \<and> net_owned netbuf s' [] hs"
      using sys_sleep_total [OF E assms(3,4), of ms] by blast
    show "\<exists>r s'. udp_sendto E data n ip sport dport s = Some (r, s') \<and> net_owned netbuf s' [] hs"
      using udp_sendto_total [OF E assms(3,4), of data n ip sport dport] by blast
    show "\<exists>msgs s'. icmp_ping E ip count bytes ms s = Some (msgs, s') \<and> net_owned netbuf s' [] hs"
      using icmp_ping_total [OF E assms(5,3,4) fit, of ip ms] by blast
  qed
qed

theorem network_calls_return_witness:
  "(\<exists>r s'. arp_lookup demo_noisy 0xc0a80007 demo_live = Some (r, s') \<and> net_owned 0x100000 s' [] []) \<and>
   (\<exists>msgs s'. icmp_ping demo_noisy 0xc0a80007 4 56 1000 demo_live = Some (msgs, s') \<and> net_owned 0x100000 s' [] [])"
  using network_calls_return [OF demo_ok(4,2) demo_live_owned demo_live_wf, of 4 56 1000 "0xc0a80007"] by fastforce

text \<open>C22. An answered lookup finds the host.  When an address of the local net is not in the cache,
  the cache has room, a buffer is free, and the first frame that the driver delivers is a reply from
  this address to this host, with any of the polls made while the tick counter is below the
  deadline of the request, then \<open>arp_lookup\<close> goes on polling until it has arrived and returns an
  entry with the hardware address of the reply; the listener is removed and no buffer is kept.\<close>

theorem arp_lookup_answered:
  assumes "net_owned netbuf s [] hs" and "net_wf s" and "enet_initialized s"
    and "arp_chk_entry ip s = None" and "ip_is_local_net E ip" and "arp_cache_num s < 4"
    and "fst (alloc_nb s) \<noteq> 0" and "frames_fit E"
    and "\<forall>j<k. rx_frames E (rx_calls s + j) = []" and "rx_frames E (rx_calls s + k) = [f]" and "arp_answers E ip f"
    and "\<forall>j\<le>k. clock E (tick_reads s + 1 + j) < clock E (tick_reads s) + 100"
  shows "\<exists>i s'. arp_lookup E ip s = Some (Some i, s') \<and> mac_addr (arp_cache_tbl s' ! i) = slice 22 6 f \<and>
    \<not> arp_listen_handler s' \<and> net_owned netbuf s' [] hs"
proof -
  obtain b s1 where a: "alloc_nb s = (b, s1)" by (cases "alloc_nb s")
  have b: "b \<noteq> 0" using assms(7) a by simp
  let ?a = "arp_asked E ip b s1"
  let ?t = "?a\<lparr>tick_reads := tick_reads ?a + 1\<rparr>"
  have k: "tick_reads ?a = tick_reads s" "rx_calls ?a = rx_calls s" "enet_initialized ?a = enet_initialized s"
    "arp_cache_tbl ?a = arp_cache_tbl s" "arp_cache_num ?a = arp_cache_num s" "arp_listen_handler ?a"
    using a by (auto simp: arp_asked_def enet_send_def set_nb_len_def free_nb_def alloc_nb_def Let_def split: prod.splits)
  have o: "net_owned netbuf ?t [] hs" and w: "net_wf ?t"
    using arp_asked_keeps [OF assms(1,2) a b, of E ip] by (simp_all add: net_owned_def)
  have "b \<in> set (all_bufs netbuf)" "b \<notin> set hs"
    using alloc_nb_owned(1) [OF assms(1) a b] by (auto simp: net_owned_def owned_def)
  note fr = alloc_free [OF o this]
  have n: "arp_chk_entry ip ?t = None" using assms(4) k by (simp add: arp_chk_entry_def)
  have t: "sys_get_ticks E ?a = (clock E (tick_reads s), ?t)" by (simp add: sys_get_ticks_def k)
  obtain i s2 where p: "poll_until E (\<lambda>s. arp_chk_entry ip s \<noteq> None) (clock E (tick_reads s) + ucast BOARD_TPS) ?t = Some (True, s2)"
    "arp_chk_entry ip s2 = Some i" "mac_addr (arp_cache_tbl s2 ! i) = slice 22 6 f"
    using wait_answered [OF o w _ _ _ fr n, of k E f "clock E (tick_reads s) + ucast BOARD_TPS"] assms k
    by (auto simp: BOARD_TPS_def)
  then have "arp_request E ip s = Some (Some i, s2\<lparr>arp_listen_handler := False\<rparr>)"
    by (simp add: arp_request_def numeral_3_eq_3 arp_request_loop_Suc [OF a b t] del: arp_request_loop.simps)
  moreover have "arp_cache_num s \<noteq> int ARP_MAX_CACHE_NUM" using assms(6) by (simp add: ARP_MAX_CACHE_NUM_def)
  ultimately have l: "arp_lookup E ip s = Some (Some i, s2\<lparr>arp_listen_handler := False\<rparr>)"
    using assms(4,5) by (simp add: arp_lookup_def)
  have "net_owned netbuf s2 [] hs" using poll_until_owned [OF p(1) o assms(8)] by simp
  then show ?thesis using l p(3) by (intro exI [of _ i]) simp
qed

theorem arp_lookup_answered_witness:
  "\<exists>i s'. arp_lookup demo_answered 0xc0a80007 demo_live = Some (Some i, s') \<and>
     mac_addr (arp_cache_tbl s' ! i) = [9, 9, 9, 9, 9, 9]"
proof -
  let ?E = demo_answered
  have f: "arp_answers ?E 0xc0a80007 demo_arp_answer" "slice 22 6 demo_arp_answer = [9, 9, 9, 9, 9, 9]"
    by (simp_all add: arp_answers_def demo_answered_def demo_env_def demo_arp_answer_def slice_def be16_def be32_def)
  have z: "rx_calls demo_live = 0" "tick_reads demo_live = 0" by (simp_all add: demo_live_def demo_net_def)
  have e: "\<forall>j<2. rx_frames ?E (rx_calls demo_live + j) = []" "rx_frames ?E (rx_calls demo_live + 2) = [demo_arp_answer]"
    "ip_is_local_net ?E 0xc0a80007" "frames_fit ?E"
    by (simp_all add: z demo_answered_def demo_env_def ip_is_local_net_def frames_fit_def frame_ok_def demo_arp_answer_def)
  have c: "\<forall>j\<le>2. clock ?E (tick_reads demo_live + 1 + j) < clock ?E (tick_reads demo_live) + 100"
  proof (intro allI impI)
    fix j :: nat assume "j \<le> 2"
    then have "j = 0 \<or> j = 1 \<or> j = 2" by linarith
    then show "clock ?E (tick_reads demo_live + 1 + j) < clock ?E (tick_reads demo_live) + 100"
      unfolding z demo_answered_def demo_env_def by (elim disjE) simp_all
  qed
  have s: "arp_chk_entry 0xc0a80007 demo_live = None" "arp_cache_num demo_live < 4"
    by (simp_all add: arp_chk_entry_def demo_live_def demo_net_def eval_nat_numeral)
  have "buf_at 0x100000 0 \<in> set (all_bufs 0x100000)" by (simp add: all_bufs_def NET_BUF_NUM_def)
  from alloc_free [OF demo_live_owned this] have "fst (alloc_nb demo_live) \<noteq> 0" by simp
  from arp_lookup_answered [OF demo_live_owned demo_live_wf demo_live_init s(1) e(3) s(2) this e(4,1,2) f(1) c]
  show ?thesis using f(2) by auto
qed

text \<open>C25. The state of the protocols stays well formed: the cache has four entries with hardware
  addresses of six bytes, no address twice and the right counter, and there is one socket, after a
  poll, a lookup, a ping, and a receive call, whatever arrives and whoever owns the buffers.\<close>

theorem network_state_type:
  assumes "net_wf s"
  shows "(\<forall>s'. enet_poll E s = Some s' \<longrightarrow> net_wf s') \<and>
    (\<forall>r s'. arp_lookup E ip s = Some (r, s') \<longrightarrow> net_wf s') \<and>
    (\<forall>m s'. icmp_ping E ip count n ms s = Some (m, s') \<longrightarrow> net_wf s') \<and>
    (\<forall>r s'. udp_sendto E data n ip sport dport s = Some (r, s') \<longrightarrow> net_wf s') \<and>
    (\<forall>r p s'. udp_recvfrom E sd data lp mx ms s = Some (r, p, s') \<longrightarrow> net_wf s')"
proof (intro conjI allI impI)
  fix s' assume "enet_poll E s = Some s'"
  then show "net_wf s'" using assms by (rule enet_poll_wf)
next
  fix r s' assume "arp_lookup E ip s = Some (r, s')"
  from arp_lookup_wf [OF this assms] show "net_wf s'" by simp
next
  fix m s' assume "icmp_ping E ip count n ms s = Some (m, s')"
  then show "net_wf s'"
    using arp_flush_wf [OF assms]
    by (auto simp: icmp_ping_def Option.bind_eq_Some_conv dest!: arp_lookup_wf ping_loop_wf split: if_splits)
next
  fix r s' assume "udp_sendto E data n ip sport dport s = Some (r, s')"
  then obtain a s1 where "arp_lookup E ip s = Some (a, s1)"
    "s' = s1 \<or> s' = snd (udp_output E data n ip sport dport (arp_deref a s1) s1)"
    by (auto simp: udp_sendto_def Option.bind_eq_Some_conv split: if_splits)
  then show "net_wf s'" using arp_lookup_wf [OF _ assms] udp_output_wf by fastforce
next
  fix r p s' assume "udp_recvfrom E sd data lp mx ms s = Some (r, p, s')"
  then show "net_wf s'" using assms by (rule udp_recvfrom_wf)
qed

theorem network_state_type_witness: "\<exists>s'. enet_poll demo_env demo_live = Some s' \<and> net_wf s'"
  using network_state_type [OF demo_live_wf, of demo_env] enet_poll_total [OF demo_live_owned demo_ok(1)] by meson

end
