(* ===== verification/Tftp.thy ===== *)
theory Tftp
  imports Enet
begin

text \<open>
  The TFTP client, \<open>src/src/net/tftp_client.c\<close>, on the sockets of theories Udp and Enet.  The
  buffer \<open>tftp\<close> holds the packet sent or received: opcode at 0, block number or error code at 2,
  data from 4 on.  Both transfers are loops of rounds that send, wait and decide; a round either
  ends the transfer with a code or goes on with a new state.

  The port counter \<open>tftp_sport\<close> and \<open>wait_time\<close> are passed along with the network state.  Printed
  dots are not modelled.
\<close>

section \<open>The code\<close>

definition TFTP_PORT :: u16 where "TFTP_PORT = 69"
definition TFTP_BUF_SIZE :: int where "TFTP_BUF_SIZE = 512"
definition TFTP_HDR_SIZE :: u32 where "TFTP_HDR_SIZE = 4"
definition TFTP_PKT_SIZE :: u32 where "TFTP_PKT_SIZE = TFTP_HDR_SIZE + 512"
definition TFTP_TIMEOUT_NUM :: int where "TFTP_TIMEOUT_NUM = 5"
definition TFTP_RRQ :: u16 where "TFTP_RRQ = 1"
definition TFTP_WRQ :: u16 where "TFTP_WRQ = 2"
definition TFTP_DATA :: u16 where "TFTP_DATA = 3"
definition TFTP_ACK :: u16 where "TFTP_ACK = 4"
definition TFTP_ERROR :: u16 where "TFTP_ERROR = 5"
definition TFTP_NO_BUF :: int where "TFTP_NO_BUF = -1"
definition TFTP_NET_ERR :: int where "TFTP_NET_ERR = -2"
definition TFTP_TIMEOUT :: int where "TFTP_TIMEOUT = -3"
definition TFTP_TOO_LARGE :: int where "TFTP_TOO_LARGE = -4"
definition TFTP_UNKNOWN :: int where "TFTP_UNKNOWN = -5"

text \<open>The static counter of source ports.\<close>

definition tftpc_get_sport :: "int \<Rightarrow> u16 \<times> int" where
  "tftpc_get_sport tftp_sport =
     (let p = tftp_sport + 1; p = (if p \<ge> 7800 then 7700 else p) in (word_of_int p, p))"

definition show_waiting_char :: "env \<Rightarrow> u64 \<times> net \<Rightarrow> u64 \<times> net" where
  "show_waiting_char E = (\<lambda>(wait_time, s).
     let (current_time, s) = sys_get_ticks E s
     in (if current_time - wait_time > ucast (BOARD_TPS div 4) then current_time else wait_time, s))"

text \<open>The request packet: opcode, file name, mode.  The result is the memory and the length.  The name is
  copied without a bound; a request that runs over the end of the packet buffer, into the header of
  the next heap block, has no result.\<close>

definition tftp_request :: "u16 \<Rightarrow> addr \<Rightarrow> addr \<Rightarrow> mem \<Rightarrow> (mem \<times> u32) option" where
  "tftp_request opcode filename tftp m =
     (let m = put16 m tftp (htons opcode); cp = tftp + 2 in
      Option.bind (sys_strlen m filename) (\<lambda>file_len.
        if 2 + (unat file_len + 1) + 6 > unat TFTP_PKT_SIZE then None
        else
          (let m = memcpy_loop m cp filename (unat (file_len + 1));
               cp = cp + file_len + 1;
               m = put_bytes m cp [0x4f, 0x43, 0x54, 0x45, 0x54, 0];
               m = put_bytes m (cp + 5) [0]
           in Some (m, 2 + (file_len + 1) + 6))))"

definition tftp_op :: "addr \<Rightarrow> mem \<Rightarrow> u16" where "tftp_op tftp m = ntohs (mem_le16 m tftp)"
definition tftp_block :: "addr \<Rightarrow> mem \<Rightarrow> int" where "tftp_block tftp m = uint (ntohs (mem_le16 m (tftp + 2)))"

definition tftp_ack :: "env \<Rightarrow> addr \<Rightarrow> u32 \<Rightarrow> u16 \<Rightarrow> u16 \<Rightarrow> int \<Rightarrow> net \<Rightarrow> (int \<times> net) option" where
  "tftp_ack E tftp server sport server_port last_good_block s =
     (let m = put16 (mem s) tftp (htons TFTP_ACK);
          m = put16 m (tftp + 2) (htons (word_of_int last_good_block))
      in udp_sendto E tftp 4 server sport server_port (s\<lparr>mem := m\<rparr>))"

text \<open>The state of a read: where the next byte goes, the room that is left, the bytes counted, the
  last block and the timeouts.\<close>

record tftp_get =
  get_fp :: addr
  get_len :: int
  get_total :: int
  last_good_block :: int
  total_timeouts :: int

text \<open>The loop \<open>while (data_len-- > 0)\<close>; the flag says that the file is too large.\<close>

fun get_copy :: "nat \<Rightarrow> addr \<Rightarrow> addr \<Rightarrow> int \<Rightarrow> mem \<Rightarrow> bool \<times> addr \<times> int \<times> mem" where
  "get_copy 0 cp fp n m = (False, fp, n, m)"
| "get_copy (Suc data_len) cp fp n m =
     (let (m, cp, fp) = (if n > 0 then (m(fp := m cp), cp + 1, fp + 1) else (m, cp, fp)); n = n - 1 in
      if n \<le> 0 \<and> data_len > 0 then (True, fp, n, m) else get_copy data_len cp fp n m)"

text \<open>A data packet of \<open>rc\<close> bytes: whether the file is too large (the bytes copied so far stay in the
  memory), the new memory and state, and \<open>actual_len\<close>.\<close>

definition get_data :: "addr \<Rightarrow> int \<Rightarrow> mem \<Rightarrow> tftp_get \<Rightarrow> bool \<times> mem \<times> tftp_get \<times> int" where
  "get_data tftp rc m g =
     (if tftp_block tftp m = last_good_block g + 1 then
        (let data_len = rc - 4; actual_len = data_len; g = g\<lparr>get_total := get_total g + actual_len\<rparr>;
             (large, fp, n, m) = get_copy (nat data_len) (tftp + 4) (get_fp g) (get_len g) m
         in if large then (True, m, g, actual_len)
            else (False, m, g\<lparr>get_fp := fp, get_len := n, last_good_block := last_good_block g + 1\<rparr>, actual_len))
      else (False, m, g, TFTP_BUF_SIZE))"

text \<open>The two calls \<open>free(tftp); udp_close(s);\<close> of an exit.\<close>

definition tftp_end :: "int \<Rightarrow> addr \<Rightarrow> net \<Rightarrow> net option" where
  "tftp_end sd tftp s =
     Option.bind (sys_free tftp (heap s)) (\<lambda>h. map_option snd (udp_close sd (s\<lparr>heap := h\<rparr>)))"

text \<open>What a round does after \<open>udp_recvfrom\<close> returned \<open>rc\<close>: \<open>Inl\<close> the code and the size when the
  transfer ends.  Each of its exits makes the two calls itself.\<close>

definition get_round ::
  "env \<Rightarrow> int \<Rightarrow> addr \<Rightarrow> u32 \<Rightarrow> u16 \<Rightarrow> int \<Rightarrow> u16 \<Rightarrow> tftp_get \<Rightarrow> net \<Rightarrow> ((int \<times> int + tftp_get) \<times> net) option" where
  "get_round E sd tftp server sport rc server_port g s =
     (if rc < 0 then map_option (\<lambda>s. (Inl (TFTP_NET_ERR, 0), s)) (tftp_end sd tftp s)
      else if rc = 0 then
        (let g = g\<lparr>total_timeouts := total_timeouts g + 1\<rparr> in
         if total_timeouts g > TFTP_TIMEOUT_NUM \<or> last_good_block g = 0 then
           map_option (\<lambda>s. (Inl (TFTP_TIMEOUT, 0), s)) (tftp_end sd tftp s)
         else
           Option.bind (tftp_ack E tftp server sport server_port (last_good_block g) s) (\<lambda>(r, s).
             if r < 0 then map_option (\<lambda>s. (Inl (TFTP_NET_ERR, 0), s)) (tftp_end sd tftp s)
             else Some (Inr g, s)))
      else if tftp_op tftp (mem s) = TFTP_DATA then
        (let (large, m, g, actual_len) = get_data tftp rc (mem s) g; s = s\<lparr>mem := m\<rparr> in
         if large then map_option (\<lambda>s. (Inl (TFTP_TOO_LARGE, 0), s)) (tftp_end sd tftp s)
         else
           Option.bind (tftp_ack E tftp server sport server_port (last_good_block g) s) (\<lambda>(r, s).
             if r < 0 then map_option (\<lambda>s. (Inl (TFTP_NET_ERR, 0), s)) (tftp_end sd tftp s)
             else if get_len g = 0 \<or> (actual_len \<ge> 0 \<and> actual_len < TFTP_BUF_SIZE) then
               map_option (\<lambda>s. (Inl (0, get_total g), s)) (tftp_end sd tftp s)
             else Some (Inr g, s)))
      else if tftp_op tftp (mem s) = TFTP_ERROR then
        (let err = tftp_block tftp (mem s)
         in map_option (\<lambda>s. (Inl (err, 0), s)) (tftp_end sd tftp s))
      else map_option (\<lambda>s. (Inl (TFTP_UNKNOWN, 0), s)) (tftp_end sd tftp s))"

partial_function (option) get_loop ::
  "env \<Rightarrow> int \<Rightarrow> addr \<Rightarrow> u32 \<Rightarrow> u16 \<Rightarrow> tftp_get \<Rightarrow> u64 \<Rightarrow> net \<Rightarrow> ((int \<times> int) \<times> u64 \<times> net) option" where
  "get_loop E sd tftp server sport g wait_time s =
     Option.bind (udp_recvfrom E sd tftp sport TFTP_PKT_SIZE 3000 s) (\<lambda>(rc, port, s).
       Option.bind (get_round E sd tftp server sport rc (case port of None \<Rightarrow> 0 | Some p \<Rightarrow> p) g s) (\<lambda>(r, s).
         case r of
           Inl res \<Rightarrow> Some (res, wait_time, s)
         | Inr g \<Rightarrow>
             (let (wait_time, s) = show_waiting_char E (wait_time, s)
              in get_loop E sd tftp server sport g wait_time s)))"

text \<open>The static variables of the client.\<close>

record tftp_vars =
  tftp_sport :: int
  wait_time :: u64

definition tftpc_get ::
  "env \<Rightarrow> addr \<Rightarrow> u32 \<Rightarrow> addr \<Rightarrow> int \<Rightarrow> tftp_vars \<Rightarrow> net \<Rightarrow> ((int \<times> int) \<times> tftp_vars \<times> net) option" where
  "tftpc_get E filename server buf n v s =
     Option.bind (udp_socket server s) (\<lambda>(sd, s).
       if sd < 0 then Some ((TFTP_NET_ERR, 0), v, s)
       else
         Option.bind (sys_malloc (minfo s) TFTP_PKT_SIZE (heap s)) (\<lambda>(tftp, h).
           if tftp = 0 then
             map_option (\<lambda>(_, s). ((TFTP_NO_BUF, 0), v, s)) (udp_close sd (s\<lparr>heap := h\<rparr>))
           else
             Option.bind (tftp_request TFTP_RRQ filename tftp (mem s)) (\<lambda>(m, data_len).
               (let (sport, p) = tftpc_get_sport (tftp_sport v); v = v\<lparr>tftp_sport := p\<rparr> in
                Option.bind (udp_sendto E tftp data_len server sport TFTP_PORT (s\<lparr>heap := h, mem := m\<rparr>)) (\<lambda>(r, s).
                  if r < 0 then map_option (\<lambda>s. ((TFTP_NET_ERR, 0), v, s)) (tftp_end sd tftp s)
                  else
                    map_option (\<lambda>(res, w, s). (res, v\<lparr>wait_time := w\<rparr>, s))
                      (get_loop E sd tftp server sport
                        \<lparr>get_fp = buf, get_len = n, get_total = 0, last_good_block = 0, total_timeouts = 0\<rparr>
                        (wait_time v) s))))))"

text \<open>The first loop of \<open>tftpc_put\<close> repeats the request until it is acknowledged; \<open>Inr\<close> is the two
  ports, \<open>Inl\<close> the code with which \<open>tftpc_put\<close> has returned.\<close>

partial_function (option) put_request ::
  "env \<Rightarrow> int \<Rightarrow> addr \<Rightarrow> addr \<Rightarrow> u32 \<Rightarrow> int \<Rightarrow> tftp_vars \<Rightarrow> net \<Rightarrow>
   ((int + u16 \<times> u16) \<times> tftp_vars \<times> net) option" where
  "put_request E sd tftp filename server timeouts v s =
     Option.bind (tftp_request TFTP_WRQ filename tftp (mem s)) (\<lambda>(m, data_len).
       (let (sport, p) = tftpc_get_sport (tftp_sport v); v = v\<lparr>tftp_sport := p\<rparr> in
        Option.bind (udp_sendto E tftp data_len server sport TFTP_PORT (s\<lparr>mem := m\<rparr>)) (\<lambda>(r, s).
          if r < 0 then map_option (\<lambda>s. (Inl TFTP_NET_ERR, v, s)) (tftp_end sd tftp s)
          else
            Option.bind (udp_recvfrom E sd tftp sport TFTP_PKT_SIZE 3000 s) (\<lambda>(rc, port, s).
              if rc < 0 then map_option (\<lambda>s. (Inl TFTP_NET_ERR, v, s)) (tftp_end sd tftp s)
              else if rc = 0 \<and> timeouts + 1 > TFTP_TIMEOUT_NUM then
                map_option (\<lambda>s. (Inl TFTP_TIMEOUT, v, s)) (tftp_end sd tftp s)
              else if rc = 0 then
                (let (w, s) = show_waiting_char E (wait_time v, s)
                 in put_request E sd tftp filename server (timeouts + 1) (v\<lparr>wait_time := w\<rparr>) s)
              else if tftp_op tftp (mem s) = TFTP_ACK then Some (Inr (sport, case port of None \<Rightarrow> 0 | Some p \<Rightarrow> p), v, s)
              else if tftp_op tftp (mem s) = TFTP_ERROR then
                (let err = tftp_block tftp (mem s)
                 in map_option (\<lambda>s. (Inl err, v, s)) (tftp_end sd tftp s))
              else map_option (\<lambda>s. (Inl TFTP_UNKNOWN, v, s)) (tftp_end sd tftp s)))))"

record tftp_put =
  put_sfp :: addr
  put_total :: int
  put_block :: int
  put_timeouts :: int

text \<open>The packet with the next block; the result is the memory and \<open>data_len\<close>.\<close>

definition put_data :: "addr \<Rightarrow> int \<Rightarrow> tftp_put \<Rightarrow> mem \<Rightarrow> mem \<times> int" where
  "put_data tftp n g m =
     (let data_len = min TFTP_BUF_SIZE (n - put_total g);
          m = put16 m tftp (htons TFTP_DATA);
          m = put16 m (tftp + 2) (htons (word_of_int (put_block g)))
      in (memcpy_loop m (tftp + 4) (put_sfp g) (nat data_len), data_len))"

definition put_acked :: "addr \<Rightarrow> mem \<Rightarrow> int \<Rightarrow> tftp_put \<Rightarrow> tftp_put" where
  "put_acked tftp m data_len g =
     (if tftp_block tftp m = put_block g then
        g\<lparr>put_sfp := put_sfp g + word_of_int data_len, put_total := put_total g + data_len,
          put_block := put_block g + 1\<rparr>
      else g)"

text \<open>The label \<open>put_end\<close>.\<close>

definition put_end :: "int \<Rightarrow> addr \<Rightarrow> tftp_put \<Rightarrow> u64 \<Rightarrow> net \<Rightarrow> ((int \<times> int) \<times> u64 \<times> net) option" where
  "put_end sd tftp g w s = map_option (\<lambda>s. ((0, put_total g), w, s)) (tftp_end sd tftp s)"

text \<open>The second loop sends the blocks.\<close>

partial_function (option) put_loop ::
  "env \<Rightarrow> int \<Rightarrow> addr \<Rightarrow> u32 \<Rightarrow> u16 \<Rightarrow> u16 \<Rightarrow> int \<Rightarrow> tftp_put \<Rightarrow> u64 \<Rightarrow> net \<Rightarrow> ((int \<times> int) \<times> u64 \<times> net) option" where
  "put_loop E sd tftp server sport server_port n g w s =
     (if put_total g > n then put_end sd tftp g w s
      else
        (let (m, data_len) = put_data tftp n g (mem s) in
         Option.bind (udp_sendto E tftp (word_of_int (data_len + 4)) server sport server_port (s\<lparr>mem := m\<rparr>)) (\<lambda>(r, s).
           if r < 0 then map_option (\<lambda>s. ((TFTP_NET_ERR, 0), w, s)) (tftp_end sd tftp s)
           else if data_len = 0 then put_end sd tftp g w s
           else
             Option.bind (udp_recvfrom E sd tftp sport TFTP_PKT_SIZE 3000 s) (\<lambda>(rc, port, s).
               let server_port = (case port of None \<Rightarrow> 0 | Some p \<Rightarrow> p) in
               if rc < 0 then map_option (\<lambda>s. ((TFTP_NET_ERR, 0), w, s)) (tftp_end sd tftp s)
               else if rc = 0 \<and> put_timeouts g + 1 > TFTP_TIMEOUT_NUM then
                 map_option (\<lambda>s. ((TFTP_TIMEOUT, 0), w, s)) (tftp_end sd tftp s)
               else if rc = 0 then
                 (let (w, s) = show_waiting_char E (w, s)
                  in put_loop E sd tftp server sport server_port n (g\<lparr>put_timeouts := put_timeouts g + 1\<rparr>) w s)
               else if tftp_op tftp (mem s) = TFTP_ACK then
                 (let g = put_acked tftp (mem s) data_len (g\<lparr>put_timeouts := 0\<rparr>);
                      (w, s) = show_waiting_char E (w, s)
                  in put_loop E sd tftp server sport server_port n g w s)
               else if tftp_op tftp (mem s) = TFTP_ERROR then
                 (let err = tftp_block tftp (mem s)
                  in map_option (\<lambda>s. ((err, 0), w, s)) (tftp_end sd tftp s))
               else map_option (\<lambda>s. ((TFTP_UNKNOWN, 0), w, s)) (tftp_end sd tftp s)))))"

definition tftpc_put ::
  "env \<Rightarrow> addr \<Rightarrow> u32 \<Rightarrow> addr \<Rightarrow> int \<Rightarrow> tftp_vars \<Rightarrow> net \<Rightarrow> ((int \<times> int) \<times> tftp_vars \<times> net) option" where
  "tftpc_put E filename server buf n v s =
     Option.bind (udp_socket server s) (\<lambda>(sd, s).
       if sd < 0 then Some ((TFTP_NET_ERR, 0), v, s)
       else
         Option.bind (sys_malloc (minfo s) TFTP_PKT_SIZE (heap s)) (\<lambda>(tftp, h).
           if tftp = 0 then
             map_option (\<lambda>(_, s). ((TFTP_NO_BUF, 0), v, s)) (udp_close sd (s\<lparr>heap := h\<rparr>))
           else
             Option.bind (put_request E sd tftp filename server 0 v (s\<lparr>heap := h\<rparr>)) (\<lambda>(r, v, s).
               case r of
                 Inl e \<Rightarrow> Some ((e, 0), v, s)
               | Inr (sport, server_port) \<Rightarrow>
                   map_option (\<lambda>(res, w, s). (res, v\<lparr>wait_time := w\<rparr>, s))
                     (put_loop E sd tftp server sport server_port n
                       \<lparr>put_sfp = buf, put_total = 0, put_block = 1, put_timeouts = 0\<rparr> (wait_time v) s))))"

definition tftp_err_msg :: "int \<Rightarrow> string" where
  "tftp_err_msg code =
     (if code = TFTP_NO_BUF then ''no free buffer'' else if code = TFTP_NET_ERR then ''network error''
      else if code = TFTP_TIMEOUT then ''timeout'' else if code = TFTP_TOO_LARGE then ''File is too large''
      else if code = 0 then ''not defined'' else if code = 1 then ''file not found''
      else if code = 2 then ''access violation'' else if code = 3 then ''disk full or allocation exceeded''
      else if code = 4 then ''illegal TFTP operation'' else if code = 5 then ''unknown transfer ID''
      else if code = 6 then ''file already exists'' else if code = 7 then ''no such user'' else ''Unknown!'')"

section \<open>Reassembly\<close>

declare get_loop.simps [code] put_request.simps [code] put_loop.simps [code]

lemma get_copy_fits:
  "int k \<le> n \<Longrightarrow> get_copy k cp fp n m = (False, fp + of_nat k, n - int k, memcpy_loop m fp cp k)"
  by (induction k arbitrary: cp fp n m) (simp_all add: Let_def add.assoc)

lemma get_copy_large: "0 < n \<Longrightarrow> n < int k \<Longrightarrow> fst (get_copy k cp fp n m)"
proof (induction k arbitrary: cp fp n m)
  case (Suc k)
  then show ?case by (cases "n = 1") (auto simp: Let_def)
qed simp

text \<open>\<open>get_holds m buf cap g F\<close>: the bytes of \<open>F\<close> have been stored at \<open>buf\<close>, where \<open>cap\<close> bytes fit.\<close>

definition get_holds :: "mem \<Rightarrow> addr \<Rightarrow> nat \<Rightarrow> tftp_get \<Rightarrow> u8 list \<Rightarrow> bool" where
  "get_holds m buf cap g F \<longleftrightarrow> mem_bytes m buf (length F) = F \<and> get_fp g = buf + of_nat (length F) \<and>
     get_total g = int (length F) \<and> get_len g = int cap - int (length F) \<and> length F \<le> cap \<and> cap \<le> 2 ^ 32"

lemma get_data_step:
  assumes "get_holds m buf cap g F" and "mem_bytes m (tftp + 4) (length D) = D"
    and "\<forall>i<length D. \<forall>j<cap. tftp + 4 + of_nat i \<noteq> buf + of_nat j"
    and "tftp_block tftp m = last_good_block g + 1" and "length F + length D \<le> cap"
  shows "\<exists>m' g'. get_data tftp (4 + int (length D)) m g = (False, m', g', int (length D)) \<and>
    get_holds m' buf cap g' (F @ D) \<and> last_good_block g' = last_good_block g + 1"
proof -
  let ?k = "length D"
  have h: "mem_bytes m buf (length F) = F" "get_fp g = buf + of_nat (length F)" "get_len g = int cap - int (length F)"
    "get_total g = int (length F)" "cap \<le> 2 ^ 32"
    using assms(1) by (simp_all add: get_holds_def)
  have dis: "\<forall>i<?k. \<forall>j<?k. get_fp g + of_nat i \<noteq> (tftp + 4) + of_nat j"
  proof (intro allI impI notI)
    fix i j assume "i < ?k" "j < ?k" "get_fp g + of_nat i = tftp + 4 + of_nat j"
    then have "tftp + 4 + of_nat j = buf + of_nat (length F + i)" by (simp add: h(2) add.assoc)
    then show False using assms(3) [rule_format, of j "length F + i"] assms(5) \<open>i < ?k\<close> \<open>j < ?k\<close> by simp
  qed
  have c: "get_copy ?k (tftp + 4) (get_fp g) (get_len g) m =
      (False, get_fp g + of_nat ?k, get_len g - int ?k, put_bytes m (get_fp g) D)"
    using get_copy_fits [of ?k "get_len g" "tftp + 4" "get_fp g" m] memcpy_put_bytes [OF dis] assms(2,5) h(3) by simp
  have b: "mem_bytes (put_bytes m (get_fp g) D) buf (length (F @ D)) = F @ D"
  proof -
    have "mem_bytes (put_bytes m (buf + of_nat (length F)) D) buf (length F + ?k) =
        splice (length F) D (mem_bytes m buf (length F + ?k))"
      using assms(5) h(5) by (intro put_bytes_splice) simp_all
    also have "mem_bytes m buf (length F + ?k) = F @ mem_bytes m (buf + of_nat (length F)) ?k"
      by (simp add: mem_bytes_append [of m buf "length F" ?k] h(1))
    finally show ?thesis by (simp add: h(2) splice_def)
  qed
  show ?thesis
    using assms(4,5) c b h
    by (simp add: get_data_def Let_def get_holds_def add.assoc)
qed

lemma get_data_large:
  assumes "get_holds m buf cap g F" and "tftp_block tftp m = last_good_block g + 1"
    and "length F < cap" and "cap < length F + n"
  shows "fst (get_data tftp (4 + int n) m g)"
proof -
  have "fst (get_copy n (tftp + 4) (get_fp g) (get_len g) m)"
    using assms by (intro get_copy_large) (simp_all add: get_holds_def)
  then show ?thesis using assms(2) by (auto simp: get_data_def Let_def split: prod.split)
qed

text \<open>Packets arriving one after the other, each stored at \<open>tftp\<close> before it is handled.\<close>

fun get_packets :: "addr \<Rightarrow> (u16 \<times> u8 list) list \<Rightarrow> mem \<times> tftp_get \<Rightarrow> (mem \<times> tftp_get) option" where
  "get_packets tftp [] (m, g) = Some (m, g)"
| "get_packets tftp ((b, D) # ps) (m, g) =
     (case get_data tftp (4 + int (length D)) (put_bytes m tftp (be16 TFTP_DATA @ be16 b @ D)) g of
        (large, m, g, _) \<Rightarrow> if large then None else get_packets tftp ps (m, g))"

lemma put_bytes_frame: "(\<And>i. i < length xs \<Longrightarrow> a \<noteq> p + of_nat i) \<Longrightarrow> put_bytes m p xs a = m a"
proof (induction xs arbitrary: m p)
  case (Cons x xs)
  have "a \<noteq> (p + 1) + of_nat i" if "i < length xs" for i
    using Cons.prems [of "Suc i"] that by (simp add: algebra_simps)
  then have "put_bytes (m(p := x)) (p + 1) xs a = (m(p := x)) a" by (rule Cons.IH)
  then show ?case using Cons.prems [of 0] by simp
qed simp

lemma packet_fields:
  fixes D :: "u8 list" and m :: mem and tftp :: addr and op b :: u16
  assumes "length D \<le> 512"
  defines "m' \<equiv> put_bytes m tftp (be16 op @ be16 b @ D)"
  shows "tftp_op tftp m' = op" and "tftp_block tftp m' = uint b" and "mem_bytes m' (tftp + 4) (length D) = D"
proof -
  let ?P = "be16 op @ be16 b @ D"
  have l: "length ?P = 4 + length D" by simp
  have m: "mem_bytes m' tftp (4 + length D) = ?P"
    unfolding m'_def l [symmetric] using assms(1) by (intro mem_bytes_put_bytes) simp
  have "mem_bytes m' (tftp + of_nat 0) 2 = be16 op" "mem_bytes m' (tftp + of_nat 2) 2 = be16 b"
    using mem_bytes_slice [of 0 2 "4 + length D" m' tftp] mem_bytes_slice [of 2 2 "4 + length D" m' tftp]
    by (simp_all add: m slice_def be16_def)
  then show "tftp_op tftp m' = op" "tftp_block tftp m' = uint b"
    using ntohs_field [of m' tftp op] ntohs_field [of m' "tftp + 2" b] by (simp_all add: tftp_op_def tftp_block_def)
  have "mem_bytes m' (tftp + of_nat 4) (length D) = D"
    by (subst mem_bytes_slice [where N = "4 + length D"]) (simp_all add: m slice_def be16_def)
  then show "mem_bytes m' (tftp + 4) (length D) = D" by simp
qed

lemma get_holds_packet:
  assumes "get_holds m buf cap g F" and "length xs \<le> 516"
    and "\<forall>i<516. \<forall>j<cap. tftp + of_nat i \<noteq> buf + of_nat j"
  shows "get_holds (put_bytes m tftp xs) buf cap g F"
proof -
  have "mem_bytes (put_bytes m tftp xs) buf (length F) = mem_bytes m buf (length F)"
  proof (rule mem_bytes_cong, rule put_bytes_frame)
    fix i j assume "j < length F" "i < length xs"
    then have "i < 516" "j < cap" using assms(1,2) by (simp_all add: get_holds_def)
    then show "buf + of_nat j \<noteq> tftp + of_nat i" using assms(3) [rule_format, of i j] by simp
  qed
  then show ?thesis using assms(1) by (simp add: get_holds_def)
qed

lemma get_packets_holds:
  assumes dis: "\<forall>i<516. \<forall>j<cap. tftp + of_nat i \<noteq> buf + of_nat j"
    and cap: "length (concat Bs) \<le> cap"
  shows "get_holds m buf cap g (concat (take k Bs)) \<Longrightarrow> last_good_block g = int k \<Longrightarrow> k \<le> length Bs \<Longrightarrow>
    \<forall>(b, D)\<in>set ps. 1 \<le> unat b \<and> unat b \<le> length Bs \<and> D = Bs ! (unat b - 1) \<and> length D \<le> 512 \<Longrightarrow>
    \<exists>m' g' k'. get_packets tftp ps (m, g) = Some (m', g') \<and> k' \<le> length Bs \<and>
      k' = foldl (\<lambda>k (b, D). if unat b = k + 1 then k + 1 else k) k ps \<and>
      get_holds m' buf cap g' (concat (take k' Bs)) \<and> last_good_block g' = int k'"
proof (induction ps arbitrary: m g k)
  case (Cons p ps)
  obtain b D where p: "p = (b, D)" by (cases p)
  have D: "1 \<le> unat b" "unat b \<le> length Bs" "D = Bs ! (unat b - 1)" "length D \<le> 512"
    using Cons.prems(4) p by auto
  let ?m = "put_bytes m tftp (be16 TFTP_DATA @ be16 b @ D)"
  note f = packet_fields [OF D(4), where m = m and tftp = tftp and op = TFTP_DATA and b = b]
  have h: "get_holds ?m buf cap g (concat (take k Bs))"
    using D(4) by (intro get_holds_packet [OF Cons.prems(1) _ dis]) simp
  have ub: "uint b = int (unat b)" by simp
  show ?case
  proof (cases "unat b = k + 1")
    case True
    have "take (k + 1) Bs = take k Bs @ [D]" using True D by (simp add: take_Suc_conv_app_nth)
    then have t: "concat (take (k + 1) Bs) = concat (take k Bs) @ D" by simp
    have "concat Bs = concat (take (k + 1) Bs) @ concat (drop (k + 1) Bs)"
      by (metis append_take_drop_id concat_append)
    then have fit: "length (concat (take k Bs)) + length D \<le> cap"
      using cap unfolding t by (simp del: length_concat)
    have blk: "tftp_block tftp ?m = last_good_block g + 1" unfolding f(2) ub True Cons.prems(2) by simp
    have disD: "\<forall>i<length D. \<forall>j<cap. tftp + 4 + of_nat i \<noteq> buf + of_nat j"
    proof (intro allI impI)
      fix i j assume "i < length D" "j < cap"
      then show "tftp + 4 + of_nat i \<noteq> buf + of_nat j"
        using dis [rule_format, of "4 + i" j] D(4) by (simp add: add.assoc)
    qed
    obtain m' g' where s: "get_data tftp (4 + int (length D)) ?m g = (False, m', g', int (length D))"
      "get_holds m' buf cap g' (concat (take (k + 1) Bs))" "last_good_block g' = int (k + 1)"
      using get_data_step [OF h f(3) disD blk fit] Cons.prems(2) unfolding t by auto
    have "\<exists>m'' g'' k'. get_packets tftp ps (m', g') = Some (m'', g'') \<and> k' \<le> length Bs \<and>
      k' = foldl (\<lambda>k (b, D). if unat b = k + 1 then k + 1 else k) (k + 1) ps \<and>
      get_holds m'' buf cap g'' (concat (take k' Bs)) \<and> last_good_block g'' = int k'"
      using Cons.prems(4) True D by (intro Cons.IH s(2,3)) auto
    then show ?thesis using True s(1) by (simp add: p)
  next
    case False
    then have "tftp_block tftp ?m \<noteq> last_good_block g + 1"
      unfolding f(2) ub Cons.prems(2) by linarith
    then have "get_data tftp (4 + int (length D)) ?m g = (False, ?m, g, TFTP_BUF_SIZE)" by (simp add: get_data_def)
    moreover have "\<exists>m'' g'' k'. get_packets tftp ps (?m, g) = Some (m'', g'') \<and> k' \<le> length Bs \<and>
      k' = foldl (\<lambda>k (b, D). if unat b = k + 1 then k + 1 else k) k ps \<and>
      get_holds m'' buf cap g'' (concat (take k' Bs)) \<and> last_good_block g'' = int k'"
      using Cons.prems by (intro Cons.IH h) auto
    ultimately show ?thesis using False by (simp add: p)
  qed
qed simp

section \<open>Closing\<close>

lemma udp_close_unused:
  assumes "udp_close sd s = Some (r, s')" and "net_wf s" and "sd = 0"
  shows "net_wf s' \<and> (\<forall>k\<in>set (udp_socks s'). \<not> sock_used k \<and> listen_port k = 0)"
proof -
  have "length (udp_socks s) = 1" using assms(2) by (simp add: net_wf_def UDP_SOCKET_MAX_NUM_def)
  then obtain k where k: "udp_socks s = [k]" by (cases "udp_socks s") auto
  have "net_wf (s\<lparr>udp_socks := [k0]\<rparr>)" "net_wf (s\<lparr>udp_socks := [k0], heap := h\<rparr>)" for k0 h
    using assms(2) k by (auto simp: net_wf_def arp_inv_def)
  then show ?thesis
    using assms(1,3) k by (auto simp: udp_close_def Let_def UDP_SOCKET_MAX_NUM_def split: if_splits)
qed

lemma net_wf_heap [simp]: "net_wf (s\<lparr>heap := h\<rparr>) = net_wf s" "net_wf (s\<lparr>heap := h, mem := m\<rparr>) = net_wf s"
  by (rule net_wf_cong; simp)+

text \<open>The state after an exit: well formed, every socket unused and without a port.\<close>

definition closed :: "net \<Rightarrow> bool" where
  "closed s \<longleftrightarrow> net_wf s \<and> (\<forall>k\<in>set (udp_socks s). \<not> sock_used k \<and> listen_port k = 0)"

lemma tftp_end_closes: "tftp_end 0 tftp s = Some s' \<Longrightarrow> net_wf s \<Longrightarrow> closed s'"
  by (auto simp: tftp_end_def closed_def Option.bind_eq_Some_conv dest!: udp_close_unused)

lemma udp_socket_wf:
  assumes "udp_socket server s = Some (sd, s')" and "net_wf s"
  shows "net_wf s' \<and> sd \<le> 0"
proof -
  have "length (udp_socks s) = 1" using assms(2) by (simp add: net_wf_def UDP_SOCKET_MAX_NUM_def)
  then obtain k where k: "udp_socks s = [k]" by (cases "udp_socks s") auto
  have "net_wf (s\<lparr>heap := h, udp_socks := [k0]\<rparr>)" for k0 h
    using assms(2) k by (auto simp: net_wf_def arp_inv_def)
  then show ?thesis
    using assms k by (auto simp: udp_socket_def Let_def Option.bind_eq_Some_conv split: if_splits)
qed

lemma udp_sendto_wf: "udp_sendto E data n ip sp dp s = Some r \<Longrightarrow> net_wf s \<Longrightarrow> net_wf (snd r)"
  by (auto simp: udp_sendto_def Option.bind_eq_Some_conv dest!: arp_lookup_wf split: if_splits)
    (metis snd_conv udp_output_wf)+

lemma tftp_ack_wf: "tftp_ack E tftp server sp port b s = Some r \<Longrightarrow> net_wf s \<Longrightarrow> net_wf (snd r)"
  by (auto simp: tftp_ack_def Let_def dest!: udp_sendto_wf)

lemma get_round_closed:
  assumes "get_round E 0 tftp server sp rc port g s = Some (r, s')" and "net_wf s"
  shows "net_wf s' \<and> ((\<exists>x. r = Inl x) \<longrightarrow> closed s')"
proof -
  have c: "net_wf s' \<and> closed s'" if "tftp_end 0 tftp t = Some s'" "net_wf t" for t
    using tftp_end_closes [OF that] by (simp add: closed_def)
  show ?thesis
    using assms
    by (auto simp: get_round_def Let_def Option.bind_eq_Some_conv split_beta dest!: tftp_ack_wf dest: c split: if_splits)
qed

lemma show_waiting_char_wf: "net_wf s \<Longrightarrow> net_wf (snd (show_waiting_char E (w, s)))"
  by (simp add: show_waiting_char_def sys_get_ticks_def)

lemma get_loop_closed: "get_loop E sd tftp server sp g w s = Some r \<Longrightarrow> sd = 0 \<Longrightarrow> net_wf s \<Longrightarrow> closed (snd (snd r))"
proof (induction rule: get_loop.raw_induct [rotated, consumes 1])
  case (1 loop E sd tftp server sp g w s r)
  obtain rc port s1 where u: "udp_recvfrom E sd tftp sp TFTP_PKT_SIZE 3000 s = Some (rc, port, s1)"
    using 1(2) by (auto simp: Option.bind_eq_Some_conv)
  obtain x s2 where g: "get_round E sd tftp server sp rc (case port of None \<Rightarrow> 0 | Some p \<Rightarrow> p) g s1 = Some (x, s2)"
    using 1(2) u by (auto simp: Option.bind_eq_Some_conv)
  have w2: "net_wf s2 \<and> ((\<exists>y. x = Inl y) \<longrightarrow> closed s2)"
    using get_round_closed [OF g [unfolded 1(3)]] udp_recvfrom_wf [OF u 1(4)] by simp
  show ?case
  proof (cases x)
    case (Inl y)
    then show ?thesis using 1(2) u g w2 by auto
  next
    case (Inr g')
    then show ?thesis using 1(1) 1(2,3) u g w2 show_waiting_char_wf [of s2 E w] by (auto simp: split_beta)
  qed
qed

lemma put_request_closed:
  "put_request E sd tftp fn server n v s = Some r \<Longrightarrow> sd = 0 \<Longrightarrow> net_wf s \<Longrightarrow>
   net_wf (snd (snd r)) \<and> ((\<exists>x. fst r = Inl x) \<longrightarrow> closed (snd (snd r)))"
proof (induction rule: put_request.raw_induct [rotated, consumes 1])
  case (1 loop E sd tftp fn server n v s r)
  obtain m k where q: "tftp_request TFTP_WRQ fn tftp (mem s) = Some (m, k)" using 1(2) by (auto simp: Option.bind_eq_Some_conv)
  obtain sp p where sp: "tftpc_get_sport (tftp_sport v) = (sp, p)" by fastforce
  obtain a s1 where u: "udp_sendto E tftp k server sp TFTP_PORT (s\<lparr>mem := m\<rparr>) = Some (a, s1)"
    using 1(2) q sp by (auto simp: Let_def Option.bind_eq_Some_conv)
  have w1: "net_wf s1" using udp_sendto_wf [OF u] 1(4) by simp
  have c: "net_wf s' \<and> closed s'" if "tftp_end 0 tftp t = Some s'" "net_wf t" for t s'
    using tftp_end_closes [OF that] by (simp add: closed_def)
  show ?case
  proof (cases "a < 0")
    case True
    then show ?thesis using 1(2,3) q sp u w1 by (auto simp: Let_def dest: c)
  next
    case False
    obtain rc port s2 where g: "udp_recvfrom E sd tftp sp TFTP_PKT_SIZE 3000 s1 = Some (rc, port, s2)"
      using 1(2) q sp u False by (auto simp: Let_def Option.bind_eq_Some_conv)
    have w2: "net_wf s2" using udp_recvfrom_wf [OF g w1] .
    obtain w s3 where d: "show_waiting_char E (wait_time v, s2) = (w, s3)" by fastforce
    have w3: "net_wf s3" using show_waiting_char_wf [OF w2, of E "wait_time v"] d by simp
    show ?thesis using 1(1) 1(2,3) q sp u g d w2 w3 False by (auto simp: Let_def dest: c split: if_splits)
  qed
qed

lemma put_loop_closed: "put_loop E sd tftp server sp port n g w s = Some r \<Longrightarrow> sd = 0 \<Longrightarrow> net_wf s \<Longrightarrow> closed (snd (snd r))"
proof (induction rule: put_loop.raw_induct [rotated, consumes 1])
  case (1 loop E sd tftp server sp port n g w s r)
  show ?case
  proof (cases "put_total g > n")
    case True
    then show ?thesis using 1(2,3,4) tftp_end_closes by (auto simp: put_end_def)
  next
    case False
    obtain m k where q: "put_data tftp n g (mem s) = (m, k)" by fastforce
    obtain a s1 where u: "udp_sendto E tftp (word_of_int (k + 4)) server sp port (s\<lparr>mem := m\<rparr>) = Some (a, s1)"
      using 1(2) q False by (auto simp: Option.bind_eq_Some_conv)
    have w1: "net_wf s1" using udp_sendto_wf [OF u] 1(4) by simp
    show ?thesis
    proof (cases "a < 0 \<or> k = 0")
      case True
      then show ?thesis using 1(2,3) q u w1 False tftp_end_closes by (auto simp: put_end_def split: if_splits)
    next
      case a: False
      obtain rc po s2 where g: "udp_recvfrom E sd tftp sp TFTP_PKT_SIZE 3000 s1 = Some (rc, po, s2)"
        using 1(2) q u False a by (auto simp: Option.bind_eq_Some_conv)
      have w2: "net_wf s2" using udp_recvfrom_wf [OF g w1] .
      obtain w' s3 where c: "show_waiting_char E (w, s2) = (w', s3)" by fastforce
      have w3: "net_wf s3" using show_waiting_char_wf [OF w2, of E w] c by simp
      show ?thesis
        using 1(1) 1(2,3) q u g c w2 w3 False a by (auto simp: Let_def dest: tftp_end_closes split: if_splits)
    qed
  qed
qed

text \<open>What the client leaves: closed sockets, unless no socket could be opened.\<close>

definition left_closed :: "u32 \<Rightarrow> net \<Rightarrow> net \<Rightarrow> bool" where
  "left_closed server s s' \<longleftrightarrow> net_wf s' \<and>
     ((\<forall>k\<in>set (udp_socks s'). \<not> sock_used k \<and> listen_port k = 0) \<or> (\<exists>sd<0. udp_socket server s = Some (sd, s')))"

lemma closed_left: "closed s' \<Longrightarrow> left_closed server s s'"
  by (simp add: closed_def left_closed_def)

lemma udp_close_closed: "udp_close 0 s = Some (r, s') \<Longrightarrow> net_wf s \<Longrightarrow> closed s'"
  using udp_close_unused [of 0 s r s'] by (simp add: closed_def)

lemma tftpc_get_closed:
  assumes "tftpc_get E filename server buf n v s = Some (res, v', s')" and "net_wf s"
  shows "left_closed server s s'"
proof -
  obtain sd s1 where o: "udp_socket server s = Some (sd, s1)" using assms(1) by (auto simp: tftpc_get_def Option.bind_eq_Some_conv)
  note w1 = udp_socket_wf [OF o assms(2)]
  show ?thesis
  proof (cases "sd = 0")
    case False
    then show ?thesis using assms(1) o w1 by (auto simp: tftpc_get_def left_closed_def)
  next
    case True
    obtain p h where m: "sys_malloc (minfo s1) TFTP_PKT_SIZE (heap s1) = Some (p, h)"
      using assms(1) o True by (auto simp: tftpc_get_def Option.bind_eq_Some_conv)
    have "closed s'"
      using assms(1) o w1 True m
      by (auto simp: tftpc_get_def Let_def split_beta Option.bind_eq_Some_conv split: if_splits
          dest!: udp_sendto_wf dest: udp_close_closed get_loop_closed tftp_end_closes)
    then show ?thesis by (rule closed_left)
  qed
qed

lemma tftpc_put_closed:
  assumes "tftpc_put E filename server buf n v s = Some (res, v', s')" and "net_wf s"
  shows "left_closed server s s'"
proof -
  obtain sd s1 where o: "udp_socket server s = Some (sd, s1)" using assms(1) by (auto simp: tftpc_put_def Option.bind_eq_Some_conv)
  note w1 = udp_socket_wf [OF o assms(2)]
  show ?thesis
  proof (cases "sd = 0")
    case False
    then show ?thesis using assms(1) o w1 by (auto simp: tftpc_put_def left_closed_def)
  next
    case True
    obtain p h where m: "sys_malloc (minfo s1) TFTP_PKT_SIZE (heap s1) = Some (p, h)"
      using assms(1) o True by (auto simp: tftpc_put_def Option.bind_eq_Some_conv)
    show ?thesis
    proof (cases "p = 0")
      case p: True
      then show ?thesis
        using assms(1) o w1 True m by (auto simp: tftpc_put_def intro: closed_left dest: udp_close_closed)
    next
      case False
      obtain r v2 s2 where q: "put_request E 0 p filename server 0 v (s1\<lparr>heap := h\<rparr>) = Some (r, v2, s2)"
        using assms(1) o True m False by (auto simp: tftpc_put_def Option.bind_eq_Some_conv)
      have w2: "net_wf s2 \<and> ((\<exists>x. r = Inl x) \<longrightarrow> closed s2)" using put_request_closed [OF q] w1 by simp
      show ?thesis
        using assms(1) o True m False q w2
        by (cases r) (auto simp: tftpc_put_def intro!: closed_left dest!: put_loop_closed)
    qed
  qed
qed

section \<open>Properties\<close>

text \<open>C10. The file is reassembled whatever the order of the packets.  Let a file be cut into blocks
  that fit the buffer, and let packets of these blocks arrive in any order, repeated or too early.
  Then no packet is refused, the buffer always holds exactly the blocks up to the last one accepted,
  and a packet is accepted exactly when it is the successor of that one.\<close>

theorem tftp_reassembly:
  assumes "\<forall>i<516. \<forall>j<cap. tftp + of_nat i \<noteq> buf + of_nat j" and "length (concat Bs) \<le> cap"
    and "get_holds m buf cap g (concat (take k Bs))" and "last_good_block g = int k" and "k \<le> length Bs"
    and "\<forall>(b, D)\<in>set ps. 1 \<le> unat b \<and> unat b \<le> length Bs \<and> D = Bs ! (unat b - 1) \<and> length D \<le> 512"
  shows "\<exists>m' g' k'. get_packets tftp ps (m, g) = Some (m', g') \<and> k' \<le> length Bs \<and>
      k' = foldl (\<lambda>k (b, D). if unat b = k + 1 then k + 1 else k) k ps \<and>
      get_holds m' buf cap g' (concat (take k' Bs)) \<and> last_good_block g' = int k'"
  using get_packets_holds [OF assms] .

theorem tftp_reassembly_witness:
  "\<exists>m g. get_packets 0x1000 [(2, [7]), (1, [5, 6]), (1, [5, 6]), (2, [7])]
      ((\<lambda>_. 0), \<lparr>get_fp = 0x2000, get_len = 16, get_total = 0, last_good_block = 0, total_timeouts = 0\<rparr>) = Some (m, g) \<and>
     mem_bytes m 0x2000 3 = [5, 6, 7] \<and> get_total g = 3"
proof -
  let ?g = "\<lparr>get_fp = 0x2000, get_len = 16, get_total = 0, last_good_block = 0, total_timeouts = 0\<rparr> :: tftp_get"
  let ?Bs = "[[5, 6], [7]] :: u8 list list"
  have d: "\<forall>i<516. \<forall>j<16. (0x1000 :: addr) + of_nat i \<noteq> 0x2000 + of_nat j"
  proof (intro allI impI)
    fix i j :: nat assume "i < 516" "j < 16"
    then have "(of_nat (0x1000 + i) :: u32) \<noteq> of_nat (0x2000 + j)"
      using word_of_nat_eq_iff_less [of "0x1000 + i" "0x2000 + j", where 'a = 32] by simp
    then show "(0x1000 :: addr) + of_nat i \<noteq> 0x2000 + of_nat j" by simp
  qed
  have h: "get_holds (\<lambda>_. 0) 0x2000 16 ?g (concat (take 0 ?Bs))" by (simp add: get_holds_def)
  let ?ps = "[(2, [7]), (1, [5, 6]), (1, [5, 6]), (2, [7])] :: (u16 \<times> u8 list) list"
  have p: "\<forall>(b, D)\<in>set ?ps. 1 \<le> unat b \<and> unat b \<le> length ?Bs \<and> D = ?Bs ! (unat b - 1) \<and> length D \<le> 512" by simp
  have c: "length (concat ?Bs) \<le> 16" and l: "last_good_block ?g = int 0" and k: "0 \<le> length ?Bs" by simp_all
  have f: "foldl (\<lambda>k (b, D). if unat b = k + 1 then k + 1 else k) 0 ?ps = 2" by simp
  obtain m g where "get_packets 0x1000 ?ps ((\<lambda>_. 0), ?g) = Some (m, g)" "get_holds m 0x2000 16 g (concat (take 2 ?Bs))"
    using tftp_reassembly [OF d c h l k p, unfolded f] by blast
  moreover have "concat (take 2 ?Bs) = [5, 6, 7]" by simp
  ultimately show ?thesis by (intro exI [of _ m] exI [of _ g]) (simp add: get_holds_def numeral_3_eq_3)
qed

text \<open>C20. A transfer leaves the socket closed.  Whatever happens on the network, when \<open>tftpc_get\<close> or
  \<open>tftpc_put\<close> returns, on success and on each error, every socket is unused and without a port,
  unless \<open>udp_socket\<close> itself had failed; the protocol state stays well formed.\<close>

theorem tftp_closes_socket:
  assumes "net_wf s"
  shows "(\<forall>res v' s'. tftpc_get E filename server buf n v s = Some (res, v', s') \<longrightarrow> left_closed server s s') \<and>
    (\<forall>res v' s'. tftpc_put E filename server buf n v s = Some (res, v', s') \<longrightarrow> left_closed server s s')"
  using tftpc_get_closed [OF _ assms] tftpc_put_closed [OF _ assms] by blast

text \<open>A client that knows the server and has two buffers, a server that does not answer, and a client
  without a buffer.\<close>

declare strlen_loop.simps [code]

definition demo_client :: net where
  "demo_client = (demo_net [])\<lparr>mem := (\<lambda>_. 0)(0x500 := 0x61),
     bufs := \<lparr>hdrs = (\<lambda>b. \<lparr>tag = NET_BUF_TAG, next_buf = (if b = 0x8000 then 0x9000 else 0), len = 0, datap = b + 32\<rparr>),
       net_free_q = \<lparr>first = 0x8000, tail = 0x9000, total = 2\<rparr>, net_rcv_q = empty_queue\<rparr>,
     arp_cache_tbl := \<lparr>ip_addr = 0xc0a80007, mac_addr = [9, 9, 9, 9, 9, 9], used = True\<rparr> #
       replicate 3 \<lparr>ip_addr = 0, mac_addr = [], used = False\<rparr>, arp_cache_num := 1\<rparr>"

definition demo_silent :: env where
  "demo_silent = demo_env\<lparr>clock := \<lambda>n. if n = 0 then 0 else 1000\<rparr>"

lemma demo_client_wf: "net_wf demo_client" "net_wf (demo_net [])"
  by (auto simp: net_wf_def arp_inv_def demo_client_def demo_net_def ARP_MAX_CACHE_NUM_def UDP_SOCKET_MAX_NUM_def)

lemma demo_get_times_out:
  "map_option (\<lambda>(res, v, s). (res, map sock_used (udp_socks s), length (sent s)))
     (tftpc_get demo_silent 0x500 0xc0a80007 0x2000 16 \<lparr>tftp_sport = 7700, wait_time = 0\<rparr> demo_client) =
   Some ((TFTP_TIMEOUT, 0), [False], 1)"
  unfolding demo_client_def demo_silent_def by code_simp

lemma demo_put_no_buffer:
  "map_option (\<lambda>(res, v, s). (res, map sock_used (udp_socks s)))
     (tftpc_put demo_env 0x500 0xc0a80007 0x2000 16 \<lparr>tftp_sport = 7700, wait_time = 0\<rparr> (demo_net [])) =
   Some ((TFTP_NET_ERR, 0), [False])"
  by code_simp

theorem tftp_closes_socket_witness:
  "(\<exists>v s. tftpc_get demo_silent 0x500 0xc0a80007 0x2000 16 \<lparr>tftp_sport = 7700, wait_time = 0\<rparr> demo_client =
       Some ((TFTP_TIMEOUT, 0), v, s) \<and> left_closed 0xc0a80007 demo_client s \<and> map sock_used (udp_socks s) = [False]) \<and>
   (\<exists>v s. tftpc_put demo_env 0x500 0xc0a80007 0x2000 16 \<lparr>tftp_sport = 7700, wait_time = 0\<rparr> (demo_net []) =
       Some ((TFTP_NET_ERR, 0), v, s) \<and> left_closed 0xc0a80007 (demo_net []) s \<and> map sock_used (udp_socks s) = [False])"
proof
  obtain v s where g: "tftpc_get demo_silent 0x500 0xc0a80007 0x2000 16 \<lparr>tftp_sport = 7700, wait_time = 0\<rparr> demo_client =
      Some ((TFTP_TIMEOUT, 0), v, s)" "map sock_used (udp_socks s) = [False]"
    using demo_get_times_out by (auto split: prod.splits)
  with conjunct1 [OF tftp_closes_socket [OF demo_client_wf(1)]]
  show "\<exists>v s. tftpc_get demo_silent 0x500 0xc0a80007 0x2000 16 \<lparr>tftp_sport = 7700, wait_time = 0\<rparr> demo_client =
       Some ((TFTP_TIMEOUT, 0), v, s) \<and> left_closed 0xc0a80007 demo_client s \<and> map sock_used (udp_socks s) = [False]"
    by metis
  obtain v' s' where p: "tftpc_put demo_env 0x500 0xc0a80007 0x2000 16 \<lparr>tftp_sport = 7700, wait_time = 0\<rparr> (demo_net []) =
      Some ((TFTP_NET_ERR, 0), v', s')" "map sock_used (udp_socks s') = [False]"
    using demo_put_no_buffer by (auto split: prod.splits)
  with conjunct2 [OF tftp_closes_socket [OF demo_client_wf(2)]]
  show "\<exists>v s. tftpc_put demo_env 0x500 0xc0a80007 0x2000 16 \<lparr>tftp_sport = 7700, wait_time = 0\<rparr> (demo_net []) =
       Some ((TFTP_NET_ERR, 0), v, s) \<and> left_closed 0xc0a80007 (demo_net []) s \<and> map sock_used (udp_socks s) = [False]"
    by metis
qed

end
