(* ===== verification/Xmodem.thy ===== *)
theory Xmodem
  imports Enet Crc16
begin

text \<open>
  The Xmodem receiver, \<open>src/src/Xmodem/Xmodem.c\<close> and \<open>Xmodem_crc16.c\<close>: characters from the
  console with a timeout, packets with a checksum or the CRC that starts with the highest bit, and
  the reader that puts the blocks together.

  The buffer \<open>pkt\<close> of the structure is a list of 1024 bytes and \<open>bufp\<close> an offset in it.  \<open>out\<close> are the
  characters sent to the console; \<open>mach\<close> holds the memory, the tick counter and the console input.
  Delays have no effect on the state.
\<close>

section \<open>The CRC\<close>

definition Xmodem_crc16_tbl :: "u16 list" where
  "Xmodem_crc16_tbl =
    [0x0000, 0x1021, 0x2042, 0x3063, 0x4084, 0x50a5, 0x60c6, 0x70e7,
     0x8108, 0x9129, 0xa14a, 0xb16b, 0xc18c, 0xd1ad, 0xe1ce, 0xf1ef,
     0x1231, 0x0210, 0x3273, 0x2252, 0x52b5, 0x4294, 0x72f7, 0x62d6,
     0x9339, 0x8318, 0xb37b, 0xa35a, 0xd3bd, 0xc39c, 0xf3ff, 0xe3de,
     0x2462, 0x3443, 0x0420, 0x1401, 0x64e6, 0x74c7, 0x44a4, 0x5485,
     0xa56a, 0xb54b, 0x8528, 0x9509, 0xe5ee, 0xf5cf, 0xc5ac, 0xd58d,
     0x3653, 0x2672, 0x1611, 0x0630, 0x76d7, 0x66f6, 0x5695, 0x46b4,
     0xb75b, 0xa77a, 0x9719, 0x8738, 0xf7df, 0xe7fe, 0xd79d, 0xc7bc,
     0x48c4, 0x58e5, 0x6886, 0x78a7, 0x0840, 0x1861, 0x2802, 0x3823,
     0xc9cc, 0xd9ed, 0xe98e, 0xf9af, 0x8948, 0x9969, 0xa90a, 0xb92b,
     0x5af5, 0x4ad4, 0x7ab7, 0x6a96, 0x1a71, 0x0a50, 0x3a33, 0x2a12,
     0xdbfd, 0xcbdc, 0xfbbf, 0xeb9e, 0x9b79, 0x8b58, 0xbb3b, 0xab1a,
     0x6ca6, 0x7c87, 0x4ce4, 0x5cc5, 0x2c22, 0x3c03, 0x0c60, 0x1c41,
     0xedae, 0xfd8f, 0xcdec, 0xddcd, 0xad2a, 0xbd0b, 0x8d68, 0x9d49,
     0x7e97, 0x6eb6, 0x5ed5, 0x4ef4, 0x3e13, 0x2e32, 0x1e51, 0x0e70,
     0xff9f, 0xefbe, 0xdfdd, 0xcffc, 0xbf1b, 0xaf3a, 0x9f59, 0x8f78,
     0x9188, 0x81a9, 0xb1ca, 0xa1eb, 0xd10c, 0xc12d, 0xf14e, 0xe16f,
     0x1080, 0x00a1, 0x30c2, 0x20e3, 0x5004, 0x4025, 0x7046, 0x6067,
     0x83b9, 0x9398, 0xa3fb, 0xb3da, 0xc33d, 0xd31c, 0xe37f, 0xf35e,
     0x02b1, 0x1290, 0x22f3, 0x32d2, 0x4235, 0x5214, 0x6277, 0x7256,
     0xb5ea, 0xa5cb, 0x95a8, 0x8589, 0xf56e, 0xe54f, 0xd52c, 0xc50d,
     0x34e2, 0x24c3, 0x14a0, 0x0481, 0x7466, 0x6447, 0x5424, 0x4405,
     0xa7db, 0xb7fa, 0x8799, 0x97b8, 0xe75f, 0xf77e, 0xc71d, 0xd73c,
     0x26d3, 0x36f2, 0x0691, 0x16b0, 0x6657, 0x7676, 0x4615, 0x5634,
     0xd94c, 0xc96d, 0xf90e, 0xe92f, 0x99c8, 0x89e9, 0xb98a, 0xa9ab,
     0x5844, 0x4865, 0x7806, 0x6827, 0x18c0, 0x08e1, 0x3882, 0x28a3,
     0xcb7d, 0xdb5c, 0xeb3f, 0xfb1e, 0x8bf9, 0x9bd8, 0xabbb, 0xbb9a,
     0x4a75, 0x5a54, 0x6a37, 0x7a16, 0x0af1, 0x1ad0, 0x2ab3, 0x3a92,
     0xfd2e, 0xed0f, 0xdd6c, 0xcd4d, 0xbdaa, 0xad8b, 0x9de8, 0x8dc9,
     0x7c26, 0x6c07, 0x5c64, 0x4c45, 0x3ca2, 0x2c83, 0x1ce0, 0x0cc1,
     0xef1f, 0xff3e, 0xcf5d, 0xdf7c, 0xaf9b, 0xbfba, 0x8fd9, 0x9ff8,
     0x6e17, 0x7e36, 0x4e55, 0x5e74, 0x2e93, 0x3eb2, 0x0ed1, 0x1ef0]"

definition xmodem_crc_step :: "u16 \<Rightarrow> u8 \<Rightarrow> u16" where
  "xmodem_crc_step s b =
     Xmodem_crc16_tbl ! unat ((drop_bit 8 s XOR ucast b) AND 0xff) XOR push_bit 8 s"

text \<open>\<open>buf\<close> is the packet buffer, \<open>n\<close> the length.\<close>

definition Xmodem_crc16 :: "u8 list \<Rightarrow> int \<Rightarrow> u16" where
  "Xmodem_crc16 buf n = foldl xmodem_crc_step 0 (take (nat n) buf)"

text \<open>The reference, bit by bit.\<close>

definition xcrc_bit :: "u16 \<Rightarrow> u16" where
  "xcrc_bit c = (if bit c 15 then push_bit 1 c XOR 0x1021 else push_bit 1 c)"

definition xcrc_byte :: "u16 \<Rightarrow> u8 \<Rightarrow> u16" where
  "xcrc_byte c b = (xcrc_bit ^^ 8) (c XOR push_bit 8 (ucast b))"

lemmas xcrc_bit_eval =
  xcrc_bit_def [of "numeral k" for k] xcrc_bit_def [of 0] xcrc_bit_def [of 1]

lemma Xmodem_crc16_tbl_eq: "Xmodem_crc16_tbl = map (\<lambda>i. (xcrc_bit ^^ 8) (push_bit 8 (of_nat i))) [0..<256]"
  by (simp add: Xmodem_crc16_tbl_def funpow_8 upt_0_256 upt_rec_numeral xcrc_bit_eval)

lemma xcrc_bit_xor: "xcrc_bit (a XOR b) = xcrc_bit a XOR xcrc_bit b"
  by (auto simp: xcrc_bit_def bit_simps bit_eq_iff)

lemma xcrc_bit_pow_xor: "(xcrc_bit ^^ n) (a XOR b) = (xcrc_bit ^^ n) a XOR (xcrc_bit ^^ n) b"
  by (induction n) (simp_all add: xcrc_bit_xor)

lemma xcrc_bit_shift: "(\<forall>i. 16 - n \<le> i \<longrightarrow> \<not> bit a i) \<Longrightarrow> n \<le> 16 \<Longrightarrow> (xcrc_bit ^^ n) a = push_bit n a"
proof (induction n)
  case (Suc n)
  then have "(xcrc_bit ^^ n) a = push_bit n a" by simp
  moreover have "\<not> bit (push_bit n a) 15" using Suc.prems by (auto simp: bit_simps)
  ultimately show ?case by (simp add: xcrc_bit_def [of "push_bit n a"])
qed simp

lemma xmodem_crc_step_eq: "xmodem_crc_step c b = xcrc_byte c b"
proof -
  let ?x = "drop_bit 8 c XOR ucast b :: u16"
  have lt: "unat (?x AND 0xff) < 256" 
    by (simp only: and_ff unsigned_take_bit_eq) (use take_bit_nat_less_exp [of 8 "unat ?x"] in simp)
  have i: "?x AND 0xff = ?x"
    by (rule bit_word_eqI) (auto simp: bit_simps and_ff dest: bit_imp_le_length)
  have s: "c XOR push_bit 8 (ucast b) = push_bit 8 ?x XOR take_bit 8 c"
    by (rule bit_word_eqI) (auto simp: bit_simps)
  have "(xcrc_bit ^^ 8) (take_bit 8 c) = push_bit 8 (take_bit 8 c)"
    by (rule xcrc_bit_shift) (simp_all add: bit_simps)
  also have "\<dots> = push_bit 8 c" by (rule bit_word_eqI) (auto simp: bit_simps)
  finally have "xcrc_byte c b = (xcrc_bit ^^ 8) (push_bit 8 ?x) XOR push_bit 8 c"
    by (simp add: xcrc_byte_def s xcrc_bit_pow_xor)
  then show ?thesis
    using lt by (simp add: xmodem_crc_step_def Xmodem_crc16_tbl_eq i)
qed

lemma xcrc_bit_inj: "xcrc_bit a = xcrc_bit b \<Longrightarrow> a = b"
proof (rule bit_word_eqI)
  fix n assume h: "xcrc_bit a = xcrc_bit b" and n: "n < LENGTH(16)"
  have lsb: "bit (xcrc_bit c) 0 = bit c 15" for c
  proof -
    have "\<not> bit (push_bit 1 c) 0" "bit (0x1021 :: u16) 0" by (simp_all add: bit_0)
    then show ?thesis by (cases "bit c 15") (simp_all only: xcrc_bit_def if_True if_False bit_xor_iff simp_thms)
  qed
  have top: "bit a 15 = bit b 15" using arg_cong [OF h, of "\<lambda>x. bit x 0"] by (simp add: lsb)
  then have d: "push_bit 1 a = push_bit 1 b"
    using h by (simp add: xcrc_bit_def xor_cancel_right split: if_splits)
  have "bit a k = bit b k" if "k < 15" for k
    using arg_cong [OF d, of "\<lambda>x. bit x (Suc k)"] that by (simp only: bit_push_bit_iff) simp
  then show "bit a n = bit b n" using top n by (cases "n = 15") simp_all
qed

lemma xcrc_bit_pow_inj: "(xcrc_bit ^^ n) a = (xcrc_bit ^^ n) b \<Longrightarrow> a = b"
  by (induction n) (auto dest: xcrc_bit_inj)

interpretation xcrc: byte_crc xcrc_byte
proof unfold_locales
  fix c c' b b'
  show "xcrc_byte c b = xcrc_byte c' b \<Longrightarrow> c = c'"
    unfolding xcrc_byte_def by (drule xcrc_bit_pow_inj) (simp add: word_facts)
  assume "xcrc_byte c b = xcrc_byte c b'"
  then have "push_bit 8 (ucast b) = (push_bit 8 (ucast b') :: u16)"
    unfolding xcrc_byte_def by (auto dest!: xcrc_bit_pow_inj simp: word_facts)
  then have "bit (push_bit 8 (ucast b) :: u16) (8 + n) = bit (push_bit 8 (ucast b') :: u16) (8 + n)" for n by simp
  then show "b = b'" by (intro bit_word_eqI) (fastforce simp: bit_simps)
qed

lemma Xmodem_crc16_eq: "Xmodem_crc16 buf n = foldl xcrc_byte 0 (take (nat n) buf)"
proof -
  have "xmodem_crc_step = xcrc_byte" by (intro ext) (rule xmodem_crc_step_eq)
  then show ?thesis by (simp add: Xmodem_crc16_def)
qed

section \<open>The receiver\<close>

definition XMODEM_SOH :: u8 where "XMODEM_SOH = 0x01"
definition XMODEM_STX :: u8 where "XMODEM_STX = 0x02"
definition XMODEM_EOT :: u8 where "XMODEM_EOT = 0x04"
definition XMODEM_ACK :: u8 where "XMODEM_ACK = 0x06"
definition XMODEM_BSP :: u8 where "XMODEM_BSP = 0x08"
definition XMODEM_NAK :: u8 where "XMODEM_NAK = 0x15"
definition XMODEM_CAN :: u8 where "XMODEM_CAN = 0x18"
definition XMODEM_EOF :: u8 where "XMODEM_EOF = 0x1A"
definition XMODEM_INPUT_TIMEOUT :: u32 where "XMODEM_INPUT_TIMEOUT = 1000"
definition XMODEM_MAX_RETRIES_WITH_CRC :: int where "XMODEM_MAX_RETRIES_WITH_CRC = 30"
definition XMODEM_MAX_RETRIES :: int where "XMODEM_MAX_RETRIES = XMODEM_MAX_RETRIES_WITH_CRC + 20"
definition XMODEM_CAN_COUNT :: int where "XMODEM_CAN_COUNT = 3"
definition XMODEM_ERR_TIMEOUT :: int where "XMODEM_ERR_TIMEOUT = -1"
definition XMODEM_ERR_EOF :: int where "XMODEM_ERR_EOF = -2"
definition XMODEM_ERR_CANCEL :: int where "XMODEM_ERR_CANCEL = -3"
definition XMODEM_ERR_FRAME :: int where "XMODEM_ERR_FRAME = -4"
definition XMODEM_ERR_CHKSUM :: int where "XMODEM_ERR_CHKSUM = -5"
definition XMODEM_ERR_SEQUENCE :: int where "XMODEM_ERR_SEQUENCE = -6"

record xmodem =
  pkt :: "u8 list"
  bufp :: nat
  blk :: u8
  cblk :: u8
  crc1 :: u8
  crc2 :: u8
  next_blk :: u8
  xlen :: int
  mode :: int
  total_retries :: int
  total_SOH :: int
  total_STX :: int
  total_CAN :: int
  crc_mode :: bool
  at_eof :: bool
  tx_ack :: bool
  good_cnt :: int
  tx_ack_cnt :: int

record xm_world =
  xm :: xmodem
  out :: "u8 list"
  mach :: net

definition Xmodem_putc :: "u8 \<Rightarrow> xm_world \<Rightarrow> xm_world" where
  "Xmodem_putc c w = w\<lparr>out := out w @ [c]\<rparr>"

definition send_ack :: "xm_world \<Rightarrow> xm_world" where
  "send_ack w = (Xmodem_putc XMODEM_ACK w)\<lparr>xm := (xm w)\<lparr>tx_ack_cnt := tx_ack_cnt (xm w) + 1\<rparr>\<rparr>"

text \<open>The loop of \<open>Xmodem_getc\<close>: the character, or \<open>None\<close> after the timeout.\<close>

partial_function (option) getc_wait :: "env \<Rightarrow> u64 \<Rightarrow> net \<Rightarrow> (u8 option \<times> net) option" where
  "getc_wait E delay_time s =
     (let (now, s) = sys_get_ticks E s in
      if now < delay_time then
        (let (c, s) = uart_scanc E s in
         if c \<noteq> None then Some (c, s) else getc_wait E delay_time s)
      else Some (None, s))"

definition Xmodem_getc :: "env \<Rightarrow> xm_world \<Rightarrow> (u8 option \<times> xm_world) option" where
  "Xmodem_getc E w =
     (let (now, s) = sys_get_ticks E (mach w);
          d = XMODEM_INPUT_TIMEOUT * BOARD_TPS div 1000
      in map_option (\<lambda>(c, s). (c, w\<lparr>mach := s\<rparr>)) (getc_wait E (now + ucast d) s))"

partial_function (option) Xmodem_flush :: "env \<Rightarrow> xm_world \<Rightarrow> xm_world option" where
  "Xmodem_flush E w =
     Option.bind (Xmodem_getc E w) (\<lambda>(c, w). if c = None then Some w else Xmodem_flush E w)"

text \<open>The search for the start of a packet: an error code, or the character that starts it.\<close>

partial_function (option) find_header :: "env \<Rightarrow> int \<Rightarrow> int \<Rightarrow> xm_world \<Rightarrow> ((int + u8) \<times> xm_world) option" where
  "find_header E can_total hdr_chars w =
     Option.bind (Xmodem_getc E w) (\<lambda>(res, w).
       case res of
         None \<Rightarrow> Option.bind (Xmodem_flush E w) (\<lambda>w. Some (Inl XMODEM_ERR_TIMEOUT, w))
       | Some c \<Rightarrow>
           if c = XMODEM_SOH then Some (Inr c, w\<lparr>xm := (xm w)\<lparr>total_SOH := total_SOH (xm w) + 1\<rparr>\<rparr>)
           else if c = XMODEM_STX then Some (Inr c, w\<lparr>xm := (xm w)\<lparr>total_STX := total_STX (xm w) + 1\<rparr>\<rparr>)
           else if c = XMODEM_CAN then
             (let w = w\<lparr>xm := (xm w)\<lparr>total_CAN := total_CAN (xm w) + 1\<rparr>\<rparr> in
              if can_total + 1 = XMODEM_CAN_COUNT then Some (Inl XMODEM_ERR_CANCEL, w)
              else find_header E (can_total + 1) (hdr_chars + 1) w)
           else if c = XMODEM_EOT \<and> hdr_chars + 1 = 1 then Some (Inl XMODEM_ERR_EOF, send_ack w)
           else find_header E can_total (hdr_chars + 1) w)"

text \<open>The loop that fills \<open>pkt\<close>; the flag says that no character was missing.\<close>

fun read_pkt :: "env \<Rightarrow> nat \<Rightarrow> nat \<Rightarrow> xm_world \<Rightarrow> (bool \<times> xm_world) option" where
  "read_pkt E 0 i w = Some (True, w)"
| "read_pkt E (Suc n) i w =
     Option.bind (Xmodem_getc E w) (\<lambda>(c, w).
       case c of
         None \<Rightarrow> Some (False, w)
       | Some c \<Rightarrow> read_pkt E n (Suc i) (w\<lparr>xm := (xm w)\<lparr>pkt := (pkt (xm w))[i := c]\<rparr>\<rparr>))"

text \<open>The tests on a complete packet: frame, then CRC or checksum.\<close>

definition check_packet :: "env \<Rightarrow> xm_world \<Rightarrow> (int \<times> xm_world) option" where
  "check_packet E w =
     (let x = xm w; good = w\<lparr>xm := x\<lparr>good_cnt := good_cnt x + 1\<rparr>\<rparr> in
      if blk x XOR cblk x \<noteq> 0xff then map_option (\<lambda>w. (XMODEM_ERR_FRAME, w)) (Xmodem_flush E w)
      else if crc_mode x then
        (if Xmodem_crc16 (pkt x) (xlen x) \<noteq> push_bit 8 (ucast (crc1 x)) OR ucast (crc2 x)
         then Some (XMODEM_ERR_CHKSUM, w) else Some (0, good))
      else
        (let cksum = foldl (\<lambda>s b. s + ucast b) (0 :: u16) (take (nat (xlen x)) (pkt x)) in
         if ucast (crc1 x) \<noteq> cksum AND 0xff then Some (XMODEM_ERR_CHKSUM, w) else Some (0, good)))"

text \<open>One character of the header or the trailer, stored by \<open>upd\<close>; an error code when it is missing.\<close>

definition get_field :: "env \<Rightarrow> (u8 \<Rightarrow> xmodem \<Rightarrow> xmodem) \<Rightarrow> int \<Rightarrow> xm_world \<Rightarrow> (int \<times> xm_world) option" where
  "get_field E upd err w =
     map_option (\<lambda>(c, w). case c of None \<Rightarrow> (err, w) | Some c \<Rightarrow> (0, w\<lparr>xm := upd c (xm w)\<rparr>)) (Xmodem_getc E w)"

definition and_then :: "(int \<times> xm_world) option \<Rightarrow> (xm_world \<Rightarrow> (int \<times> xm_world) option) \<Rightarrow> (int \<times> xm_world) option" where
  "and_then r f = Option.bind r (\<lambda>(e, w). if e = 0 then f w else Some (e, w))"

definition Xmodem_get_header :: "env \<Rightarrow> xm_world \<Rightarrow> (int \<times> xm_world) option" where
  "Xmodem_get_header E w =
     (let w = (if tx_ack (xm w) then (send_ack w)\<lparr>xm := (xm (send_ack w))\<lparr>tx_ack := False\<rparr>\<rparr> else w) in
      Option.bind (find_header E 0 0 w) (\<lambda>(r, w).
        case r of
          Inl e \<Rightarrow> Some (e, w)
        | Inr c \<Rightarrow>
            and_then (get_field E (\<lambda>c x. x\<lparr>blk := c\<rparr>) XMODEM_ERR_CHKSUM w) (\<lambda>w.
            and_then (get_field E (\<lambda>c x. x\<lparr>cblk := c\<rparr>) XMODEM_ERR_CHKSUM w) (\<lambda>w.
            (let w = w\<lparr>xm := (xm w)\<lparr>xlen := (if c = XMODEM_SOH then 128 else 1024), bufp := 0\<rparr>\<rparr> in
             Option.bind (read_pkt E (nat (xlen (xm w))) 0 w) (\<lambda>(ok, w).
               if \<not> ok then Some (XMODEM_ERR_TIMEOUT, w)
               else
                 and_then (get_field E (\<lambda>c x. x\<lparr>crc1 := c\<rparr>) XMODEM_ERR_TIMEOUT w) (\<lambda>w.
                 and_then (if crc_mode (xm w) then get_field E (\<lambda>c x. x\<lparr>crc2 := c\<rparr>) XMODEM_ERR_TIMEOUT w
                           else Some (0, w)) (check_packet E))))))))"

text \<open>The answer that asks for a packet: \<open>C\<close> in CRC mode, otherwise a negative acknowledgement.\<close>

definition ask_again :: "xm_world \<Rightarrow> xm_world" where
  "ask_again w =
     (Xmodem_putc (if crc_mode (xm w) then 0x43 else XMODEM_NAK) w)
       \<lparr>xm := (xm w)\<lparr>total_retries := total_retries (xm w) + 1\<rparr>\<rparr>"

definition xmodem_zero :: xmodem where
  "xmodem_zero = \<lparr>pkt = replicate 1024 0, bufp = 0, blk = 0, cblk = 0, crc1 = 0, crc2 = 0, next_blk = 0, xlen = 0,
     mode = 0, total_retries = 0, total_SOH = 0, total_STX = 0, total_CAN = 0, crc_mode = False, at_eof = False,
     tx_ack = False, good_cnt = 0, tx_ack_cnt = 0\<rparr>"

text \<open>The loop of \<open>Xmodem_open\<close>; the result is the last status.\<close>

fun open_loop :: "env \<Rightarrow> nat \<Rightarrow> int \<Rightarrow> int \<Rightarrow> xm_world \<Rightarrow> (int \<times> xm_world) option" where
  "open_loop E 0 crc_retries stat w = Some (stat, w)"
| "open_loop E (Suc retries) crc_retries stat w =
     Option.bind (Xmodem_get_header E w) (\<lambda>(stat, w).
       if stat = 0 then Some (0, w\<lparr>xm := (xm w)\<lparr>next_blk := blk (xm w) + 1, tx_ack := True\<rparr>\<rparr>)
       else if stat = XMODEM_ERR_TIMEOUT then
         (let crc_retries = crc_retries - 1;
              w = (if crc_retries \<le> 0 then w\<lparr>xm := (xm w)\<lparr>crc_mode := False\<rparr>\<rparr> else w)
          in open_loop E retries crc_retries stat (ask_again w))
       else Some (stat, w))"

text \<open>0 on success, otherwise -1 with the error.\<close>

definition Xmodem_open :: "env \<Rightarrow> xm_world \<Rightarrow> (int \<times> int \<times> xm_world) option" where
  "Xmodem_open E w =
     map_option (\<lambda>(stat, w). if stat = 0 then (0, 0, w) else (-1, stat, w))
       (open_loop E (nat XMODEM_MAX_RETRIES) XMODEM_MAX_RETRIES_WITH_CRC 0 (w\<lparr>xm := xmodem_zero\<lparr>crc_mode := True\<rparr>\<rparr>))"

text \<open>The padding at the end of a block: stripped when its last three bytes are \<open>XMODEM_EOF\<close>.\<close>

fun strip_loop :: "u8 list \<Rightarrow> nat \<Rightarrow> nat" where
  "strip_loop b 0 = 0"
| "strip_loop b (Suc n) = (if b ! n = XMODEM_EOF then strip_loop b n else Suc n)"

definition strip_padding :: "xmodem \<Rightarrow> xmodem" where
  "strip_padding x =
     (let n = nat (xlen x); b = drop (bufp x) (pkt x) in
      if b ! (n - 1) = XMODEM_EOF \<and> b ! (n - 2) = XMODEM_EOF \<and> b ! (n - 3) = XMODEM_EOF
      then x\<lparr>xlen := int (strip_loop b n)\<rparr> else x)"

definition accept_block :: "xmodem \<Rightarrow> xmodem" where
  "accept_block x = strip_padding (x\<lparr>tx_ack := True, next_blk := (next_blk x + 1) AND 0xff\<rparr>)"

text \<open>The retry loop of \<open>Xmodem_read\<close>; the result is \<open>stat\<close>.\<close>

fun read_block :: "env \<Rightarrow> nat \<Rightarrow> int \<Rightarrow> xm_world \<Rightarrow> (int \<times> xm_world) option" where
  "read_block E 0 stat w = Some (stat, w)"
| "read_block E (Suc retries) stat w =
     Option.bind (Xmodem_get_header E w) (\<lambda>(stat, w).
       if stat = 0 then
         (if blk (xm w) = next_blk (xm w) then Some (0, w\<lparr>xm := accept_block (xm w)\<rparr>)
          else if blk (xm w) = (next_blk (xm w) - 1) AND 0xff then read_block E retries 0 (send_ack w)
          else read_block E retries XMODEM_ERR_SEQUENCE (ask_again w))
       else if stat = XMODEM_ERR_EOF then
         (let w = send_ack w in Some (stat, w\<lparr>xm := (xm w)\<lparr>at_eof := True\<rparr>\<rparr>))
       else if stat \<noteq> XMODEM_ERR_TIMEOUT then Some (stat, w)
       else read_block E retries stat (ask_again w))"

text \<open>Bytes of the packet are copied to \<open>buf\<close>.  A negative length, left by an earlier error, would
  make the copy run over the whole memory; the model gives no result then.\<close>

definition copy_out :: "addr \<Rightarrow> int \<Rightarrow> xm_world \<Rightarrow> xm_world" where
  "copy_out buf n w =
     w\<lparr>mach := (mach w)\<lparr>mem := put_bytes (mem (mach w)) buf (take (nat n) (drop (bufp (xm w)) (pkt (xm w))))\<rparr>,
       xm := (xm w)\<lparr>xlen := xlen (xm w) - n, bufp := bufp (xm w) + nat n\<rparr>\<rparr>"

definition fill_block :: "env \<Rightarrow> xm_world \<Rightarrow> (int \<times> xm_world) option" where
  "fill_block E w = (if xlen (xm w) = 0 then read_block E 5 XMODEM_ERR_CANCEL w else Some (0, w))"

partial_function (option) read_loop ::
  "env \<Rightarrow> addr \<Rightarrow> int \<Rightarrow> int \<Rightarrow> xm_world \<Rightarrow> (int \<times> int option \<times> xm_world) option" where
  "read_loop E buf n sofar w =
     (if at_eof (xm w) \<or> n \<le> 0 then Some (sofar, None, w)
      else
        Option.bind (fill_block E w) (\<lambda>(stat, w).
          if stat < 0 then Some (sofar, Some stat, w\<lparr>xm := (xm w)\<lparr>xlen := -1\<rparr>\<rparr>)
          else if at_eof (xm w) then read_loop E buf n sofar w
          else if xlen (xm w) < 0 then None
          else
            (let k = (if n < xlen (xm w) then n else xlen (xm w))
             in read_loop E (buf + word_of_int k) (n - k) (sofar + k) (copy_out buf k w))))"

definition Xmodem_read :: "env \<Rightarrow> addr \<Rightarrow> int \<Rightarrow> xm_world \<Rightarrow> (int \<times> int option \<times> xm_world) option" where
  "Xmodem_read E buf n w = read_loop E buf n 0 w"

text \<open>\<open>Xmodem_close\<close> is empty.  \<open>Xmodem_terminate\<close> either cancels or eats the input.\<close>

partial_function (option) drain_input :: "env \<Rightarrow> xm_world \<Rightarrow> xm_world option" where
  "drain_input E w =
     (let (c, s) = uart_scanc E (mach w); w = w\<lparr>mach := s\<rparr> in
      if c \<noteq> None then drain_input E w else Some w)"

definition Xmodem_terminate :: "env \<Rightarrow> bool \<Rightarrow> xm_world \<Rightarrow> xm_world option" where
  "Xmodem_terminate E abort w =
     (if abort then
        map_option (\<lambda>w. w\<lparr>xm := (xm w)\<lparr>at_eof := True\<rparr>\<rparr>)
          (Xmodem_flush E (fold Xmodem_putc (replicate 4 XMODEM_CAN @ replicate 4 XMODEM_BSP) w))
      else drain_input E w)"

definition Xmodem_get_error_msg :: "int \<Rightarrow> string" where
  "Xmodem_get_error_msg e =
     (if e = XMODEM_ERR_TIMEOUT then ''Timed out'' else if e = XMODEM_ERR_EOF then ''End of file''
      else if e = XMODEM_ERR_CANCEL then ''Cancelled'' else if e = XMODEM_ERR_FRAME then ''Invalid framing''
      else if e = XMODEM_ERR_CHKSUM then ''CRC/checksum error''
      else if e = XMODEM_ERR_SEQUENCE then ''Block sequence error'' else ''Unknown error'')"

declare getc_wait.simps [code] Xmodem_flush.simps [code] find_header.simps [code] read_loop.simps [code]
  drain_input.simps [code]

section \<open>A line that delivers\<close>

text \<open>\<open>line E k cs\<close>: the console scans from number \<open>k\<close> on give the characters \<open>cs\<close>; the tick counter
  does not pass a timeout between two readings.\<close>

definition line :: "env \<Rightarrow> nat \<Rightarrow> u8 list \<Rightarrow> bool" where
  "line E k cs \<longleftrightarrow> (\<forall>i<length cs. keys E (k + i) = Some (cs ! i)) \<and> (\<forall>n. clock E (Suc n) < clock E n + 100)"

text \<open>\<open>after w n\<close>: the world after \<open>n\<close> characters have been taken.\<close>

definition took :: "nat \<Rightarrow> xm_world \<Rightarrow> xm_world" where
  "took n w = w\<lparr>mach := (mach w)\<lparr>tick_reads := tick_reads (mach w) + 2 * n, key_scans := key_scans (mach w) + n\<rparr>\<rparr>"

lemma took_simps [simp]:
  "xm (took n w) = xm w" "out (took n w) = out w" "mem (mach (took n w)) = mem (mach w)"
  "key_scans (mach (took n w)) = key_scans (mach w) + n" "took 0 w = w"
  "took n (w\<lparr>xm := x\<rparr>) = (took n w)\<lparr>xm := x\<rparr>"
  by (simp_all add: took_def)

lemma took_took: "took a (took b w) = took (b + a) w"
  by (simp add: took_def algebra_simps)

lemma line_Cons: "line E k (c # cs) \<Longrightarrow> keys E k = Some c \<and> line E (Suc k) cs"
  unfolding line_def by (metis Suc_less_eq add.right_neutral add_Suc_right length_Cons nth_Cons_0 nth_Cons_Suc
      zero_less_Suc add_Suc)

lemma line_append:
  assumes "line E k (xs @ ys)"
  shows "line E k xs" and "line E (k + length xs) ys"
proof -
  have h: "keys E (k + i) = Some ((xs @ ys) ! i)" if "i < length xs + length ys" for i
    using assms that by (simp add: line_def)
  show "line E k xs" using assms h by (simp add: line_def nth_append)
  have "keys E (k + length xs + i) = Some (ys ! i)" if "i < length ys" for i
    using h [of "length xs + i"] that by (simp add: add.assoc)
  then show "line E (k + length xs) ys" using assms by (simp add: line_def)
qed

lemma getc_line:
  assumes "line E (key_scans (mach w)) (c # cs)"
  shows "Xmodem_getc E w = Some (Some c, took 1 w)"
proof -
  have "clock E (Suc (tick_reads (mach w))) < clock E (tick_reads (mach w)) + 100"
    "keys E (key_scans (mach w)) = Some c"
    using assms line_Cons [OF assms] by (simp_all add: line_def)
  then show ?thesis
    by (simp add: Xmodem_getc_def sys_get_ticks_def XMODEM_INPUT_TIMEOUT_def BOARD_TPS_def took_def
        getc_wait.simps uart_scanc_def)
qed

lemma getc_line_took:
  "line E (key_scans (mach w) + n) (c # cs) \<Longrightarrow> Xmodem_getc E ((took n w)\<lparr>xm := x\<rparr>) = Some (Some c, (took (n + 1) w)\<lparr>xm := x\<rparr>)"
  using getc_line [of E "(took n w)\<lparr>xm := x\<rparr>" c cs] by (simp add: took_def)

lemma read_pkt_line:
  "line E (key_scans (mach w)) cs \<Longrightarrow> i + length cs \<le> length (pkt (xm w)) \<Longrightarrow>
   read_pkt E (length cs) i w = Some (True, (took (length cs) w)\<lparr>xm := (xm w)\<lparr>pkt := splice i cs (pkt (xm w))\<rparr>\<rparr>)"
proof (induction cs arbitrary: i w)
  case Nil
  then show ?case by (simp add: splice_def)
next
  case (Cons c cs)
  let ?w = "(took 1 w)\<lparr>xm := (xm w)\<lparr>pkt := (pkt (xm w))[i := c]\<rparr>\<rparr>"
  have "line E (key_scans (mach ?w)) cs" using line_Cons [OF Cons.prems(1)] by simp
  then have "read_pkt E (length cs) (Suc i) ?w =
      Some (True, (took (length cs) ?w)\<lparr>xm := (xm ?w)\<lparr>pkt := splice (Suc i) cs (pkt (xm ?w))\<rparr>\<rparr>)"
    using Cons.prems(2) by (intro Cons.IH) simp_all
  moreover have "splice (Suc i) cs ((pkt (xm w))[i := c]) = splice i (c # cs) (pkt (xm w))"
    using Cons.prems(2) by (simp add: splice_def take_Suc_conv_app_nth drop_update_cancel)
  ultimately show ?case by (simp add: getc_line [OF Cons.prems(1)] took_took)
qed

text \<open>The world in which the tests on a packet are made.\<close>

definition packet_read :: "u8 \<Rightarrow> u8 \<Rightarrow> u8 \<Rightarrow> u8 list \<Rightarrow> u8 \<Rightarrow> u8 \<Rightarrow> xm_world \<Rightarrow> xm_world" where
  "packet_read c b nb D h l w =
     (let w = (if tx_ack (xm w) then (send_ack w)\<lparr>xm := (xm (send_ack w))\<lparr>tx_ack := False\<rparr>\<rparr> else w); x = xm w;
          x = (if c = XMODEM_SOH then x\<lparr>total_SOH := total_SOH x + 1\<rparr> else x\<lparr>total_STX := total_STX x + 1\<rparr>)
      in (took (5 + length D) w)\<lparr>xm := x\<lparr>blk := b, cblk := nb, xlen := int (length D), bufp := 0,
            pkt := splice 0 D (pkt x), crc1 := h, crc2 := l\<rparr>\<rparr>)"

lemma get_field_line:
  "line E (key_scans (mach w)) (c # cs) \<Longrightarrow> get_field E upd e w = Some (0, (took 1 w)\<lparr>xm := upd c (xm w)\<rparr>)"
  by (simp add: get_field_def getc_line)

lemma get_header_line:
  assumes "line E (key_scans (mach w)) (c # b # nb # D @ [h, l])" and "crc_mode (xm w)"
    and "c = XMODEM_SOH \<and> length D = 128 \<or> c = XMODEM_STX \<and> length D = 1024" and "length (pkt (xm w)) = 1024"
  shows "Xmodem_get_header E w = check_packet E (packet_read c b nb D h l w)"
proof -
  define w0 where "w0 = (if tx_ack (xm w) then (send_ack w)\<lparr>xm := (xm (send_ack w))\<lparr>tx_ack := False\<rparr>\<rparr> else w)"
  have w0: "mach w0 = mach w" "crc_mode (xm w0)" "length (pkt (xm w0)) = 1024"
    using assms(2,4) by (simp_all add: w0_def send_ack_def Xmodem_putc_def)
  let ?k = "key_scans (mach w)"
  have l1: "line E ?k (c # b # nb # D @ [h, l])" "line E (Suc ?k) (b # nb # D @ [h, l])"
    "line E (Suc (Suc ?k)) (nb # D @ [h, l])" "line E (Suc (Suc (Suc ?k))) (D @ [h, l])"
    using assms(1) line_Cons by blast+
  have l2: "line E (?k + 3) D" "line E (?k + 3 + length D) [h, l]" "line E (?k + 3 + length D + 1) [l]"
  proof -
    have "line E (?k + 3) (D @ [h, l])" using l1(4) by (simp add: eval_nat_numeral)
    from line_append [OF this] show "line E (?k + 3) D" and z: "line E (?k + 3 + length D) [h, l]" .
    show "line E (?k + 3 + length D + 1) [l]" using line_Cons [OF z] by simp
  qed
  define x1 where "x1 = (if c = XMODEM_SOH then (xm w0)\<lparr>total_SOH := total_SOH (xm w0) + 1\<rparr> else (xm w0)\<lparr>total_STX := total_STX (xm w0) + 1\<rparr>)"
  define w1 where "w1 = (took 1 w0)\<lparr>xm := x1\<rparr>"
  have f1: "find_header E 0 0 w0 = Some (Inr c, w1)"
    using assms(3) l1(1) w0 getc_line [of E w0 c "b # nb # D @ [h, l]"]
    by (subst find_header.simps) (auto simp: w1_def x1_def XMODEM_SOH_def XMODEM_STX_def)
  have n: "(if c = XMODEM_SOH then 128 else 1024) = int (length D)"
    using assms(3) by (auto simp: XMODEM_SOH_def XMODEM_STX_def)
  define x2 where "x2 = x1\<lparr>blk := b, cblk := nb, xlen := int (length D), bufp := 0\<rparr>"
  define w2 where "w2 = (took 3 w0)\<lparr>xm := x2\<rparr>"
  define x3 where "x3 = x2\<lparr>pkt := splice 0 D (pkt x2)\<rparr>"
  define w3 where "w3 = (took (3 + length D) w0)\<lparr>xm := x3\<rparr>"
  have x: "pkt x2 = pkt (xm w0)" "crc_mode x3" using w0 by (simp_all add: x2_def x1_def x3_def)
  have g1: "get_field E (\<lambda>c x. x\<lparr>blk := c\<rparr>) e w1 = Some (0, (took 2 w0)\<lparr>xm := x1\<lparr>blk := b\<rparr>\<rparr>)" for e
    using get_field_line [of E w1 b "nb # D @ [h, l]" "\<lambda>c x. x\<lparr>blk := c\<rparr>" e] l1(2) w0
    by (simp add: w1_def took_took eval_nat_numeral)
  have g2: "get_field E (\<lambda>c x. x\<lparr>cblk := c\<rparr>) e ((took 2 w0)\<lparr>xm := x1\<lparr>blk := b\<rparr>\<rparr>) =
      Some (0, (took 3 w0)\<lparr>xm := x1\<lparr>blk := b, cblk := nb\<rparr>\<rparr>)" for e
    using get_field_line [of E "(took 2 w0)\<lparr>xm := x1\<lparr>blk := b\<rparr>\<rparr>" nb "D @ [h, l]" "\<lambda>c x. x\<lparr>cblk := c\<rparr>" e] l1(3) w0
    by (simp add: took_took eval_nat_numeral)
  have r: "read_pkt E (length D) 0 w2 = Some (True, w3)"
    using read_pkt_line [of E w2 D 0] l2(1) w0 x assms(3)
    by (auto simp: w2_def w3_def x3_def took_took)
  have g3: "get_field E (\<lambda>c x. x\<lparr>crc1 := c\<rparr>) e w3 = Some (0, (took (4 + length D) w0)\<lparr>xm := x3\<lparr>crc1 := h\<rparr>\<rparr>)" for e
    using get_field_line [of E w3 h "[l]" "\<lambda>c x. x\<lparr>crc1 := c\<rparr>" e] l2(2) w0
    by (simp add: w3_def took_took add.assoc)
  have g4: "get_field E (\<lambda>c x. x\<lparr>crc2 := c\<rparr>) e ((took (4 + length D) w0)\<lparr>xm := x3\<lparr>crc1 := h\<rparr>\<rparr>) =
      Some (0, (took (5 + length D) w0)\<lparr>xm := x3\<lparr>crc1 := h, crc2 := l\<rparr>\<rparr>)" for e
    using get_field_line [of E "(took (4 + length D) w0)\<lparr>xm := x3\<lparr>crc1 := h\<rparr>\<rparr>" l "[]" "\<lambda>c x. x\<lparr>crc2 := c\<rparr>" e] l2(3) w0
    by (simp add: took_took ac_simps)
  have "packet_read c b nb D h l w = (took (5 + length D) w0)\<lparr>xm := x3\<lparr>crc1 := h, crc2 := l\<rparr>\<rparr>"
    by (simp add: packet_read_def Let_def w0_def [symmetric] x3_def x2_def x1_def)
  moreover have "Xmodem_get_header E w = check_packet E ((took (5 + length D) w0)\<lparr>xm := x3\<lparr>crc1 := h, crc2 := l\<rparr>\<rparr>)"
    using r x
    by (simp add: Xmodem_get_header_def w0_def [symmetric] f1 and_then_def g1 g2 n w2_def x2_def g3 g4)
  ultimately show ?thesis by simp
qed

definition crc_hi :: "u8 list \<Rightarrow> u8" where "crc_hi D = ucast (drop_bit 8 (foldl xcrc_byte 0 D))"
definition crc_lo :: "u8 list \<Rightarrow> u8" where "crc_lo D = ucast (foldl xcrc_byte 0 D)"

lemma crc_bytes: "push_bit 8 (ucast (crc_hi D)) OR ucast (crc_lo D) = foldl xcrc_byte 0 D"
  unfolding crc_hi_def crc_lo_def by (rule bit_word_eqI) (auto simp: bit_simps)

lemma packet_read_fields [simp]:
  "blk (xm (packet_read c b nb D h l w)) = b" "cblk (xm (packet_read c b nb D h l w)) = nb"
  "xlen (xm (packet_read c b nb D h l w)) = int (length D)" "crc1 (xm (packet_read c b nb D h l w)) = h"
  "crc2 (xm (packet_read c b nb D h l w)) = l" "bufp (xm (packet_read c b nb D h l w)) = 0"
  "next_blk (xm (packet_read c b nb D h l w)) = next_blk (xm w)" "crc_mode (xm (packet_read c b nb D h l w)) = crc_mode (xm w)"
  "at_eof (xm (packet_read c b nb D h l w)) = at_eof (xm w)" "mem (mach (packet_read c b nb D h l w)) = mem (mach w)"
  "pkt (xm (packet_read c b nb D h l w)) = splice 0 D (pkt (xm w))"
  "good_cnt (xm (packet_read c b nb D h l w)) = good_cnt (xm w)"
  by (simp_all add: packet_read_def Let_def send_ack_def Xmodem_putc_def)

lemma take_splice_0: "take (length D) (splice 0 D L) = D" by (simp add: splice_def)

lemma check_crc:
  assumes "crc_mode (xm w)"
  shows "check_packet E (packet_read c b (NOT b) D h l w) =
    (if foldl xcrc_byte 0 D = push_bit 8 (ucast h) OR ucast l
     then Some (0, (packet_read c b (NOT b) D h l w)\<lparr>xm := (xm (packet_read c b (NOT b) D h l w))\<lparr>good_cnt := good_cnt (xm w) + 1\<rparr>\<rparr>)
     else Some (XMODEM_ERR_CHKSUM, packet_read c b (NOT b) D h l w))"
proof -
  have "b XOR NOT b = -1" by (rule bit_word_eqI) (auto simp: bit_simps)
  moreover have "(0xff :: u8) = -1" by simp
  ultimately have "b XOR NOT b = 0xff" by (simp only:)
  then show ?thesis
    using assms by (simp add: check_packet_def Let_def Xmodem_crc16_eq take_splice_0)
qed

lemma strip_none: "D \<noteq> [] \<Longrightarrow> last D \<noteq> XMODEM_EOF \<Longrightarrow> pkt x = splice 0 D L \<Longrightarrow> bufp x = 0 \<Longrightarrow> xlen x = int (length D) \<Longrightarrow>
   strip_padding x = x"
  by (auto simp: strip_padding_def Let_def splice_def nth_append last_conv_nth)

text \<open>One block is read.\<close>

lemma read_one_block:
  assumes "line E (key_scans (mach w)) (c # next_blk (xm w) # NOT (next_blk (xm w)) # D @ [crc_hi D, crc_lo D])"
    and "crc_mode (xm w)" and "c = XMODEM_SOH \<and> length D = 128 \<or> c = XMODEM_STX \<and> length D = 1024"
    and "length (pkt (xm w)) = 1024" and "xlen (xm w) = 0" and "\<not> at_eof (xm w)" and "last D \<noteq> XMODEM_EOF"
  shows "\<exists>w'. Xmodem_read E buf (int (length D)) w = Some (int (length D), None, w') \<and>
    mem_bytes (mem (mach w')) buf (length D) = D \<and> next_blk (xm w') = next_blk (xm w) + 1 \<and> tx_ack (xm w') \<and>
    xlen (xm w') = 0 \<and> good_cnt (xm w') = good_cnt (xm w) + 1"
proof -
  let ?b = "next_blk (xm w)"
  let ?p = "packet_read c ?b (NOT ?b) D (crc_hi D) (crc_lo D) w"
  let ?x = "(xm ?p)\<lparr>good_cnt := good_cnt (xm w) + 1\<rparr>"
  have D: "D \<noteq> []" "0 < length D" "length D \<le> 2 ^ 32" using assms(3) by auto
  have h: "Xmodem_get_header E w = Some (0, ?p\<lparr>xm := ?x\<rparr>)"
    using get_header_line [OF assms(1-4)] check_crc [OF assms(2), of E c ?b D "crc_hi D" "crc_lo D"] by (simp add: crc_bytes)
  have m: "(?b + 1) AND 0xff = ?b + 1" by (rule bit_word_eqI) (auto simp: bit_simps and_ff)
  let ?y = "?x\<lparr>tx_ack := True, next_blk := ?b + 1\<rparr>"
  have a: "accept_block ?x = ?y"
    unfolding accept_block_def by (subst strip_none [OF D(1) assms(7)]) (simp_all add: m)
  have "read_block E 5 XMODEM_ERR_CANCEL w = Some (0, ?p\<lparr>xm := ?y\<rparr>)"
    by (simp add: eval_nat_numeral h a)
  then have f: "fill_block E w = Some (0, ?p\<lparr>xm := ?y\<rparr>)" using assms(5) by (simp add: fill_block_def)
  let ?w = "copy_out buf (int (length D)) (?p\<lparr>xm := ?y\<rparr>)"
  have "Xmodem_read E buf (int (length D)) w = read_loop E (buf + word_of_int (int (length D))) 0 (int (length D)) ?w"
    using D assms(6) f unfolding Xmodem_read_def by (subst read_loop.simps) (simp add: Let_def)
  also have "\<dots> = Some (int (length D), None, ?w)" by (subst read_loop.simps) simp
  finally have r: "Xmodem_read E buf (int (length D)) w = Some (int (length D), None, ?w)" .
  have "mem_bytes (mem (mach ?w)) buf (length D) = D"
    using mem_bytes_put_bytes [of D "mem (mach w)" buf] D(3) by (simp add: copy_out_def take_splice_0)
  then show ?thesis using r by (simp add: copy_out_def)
qed

section \<open>Properties\<close>

text \<open>C9. A block is received as it was sent.  When the line delivers a packet with the expected block
  number, its complement, 128 or 1024 bytes that do not end with padding and their CRC, then
  \<open>Xmodem_read\<close> stores exactly these bytes, expects the next block number modulo 256, owes an
  acknowledgement, and keeps nothing back.\<close>

theorem xmodem_block_received:
  assumes "line E (key_scans (mach w)) (c # next_blk (xm w) # NOT (next_blk (xm w)) # D @ [crc_hi D, crc_lo D])"
    and "crc_mode (xm w)" and "c = XMODEM_SOH \<and> length D = 128 \<or> c = XMODEM_STX \<and> length D = 1024"
    and "length (pkt (xm w)) = 1024" and "xlen (xm w) = 0" and "\<not> at_eof (xm w)" and "last D \<noteq> XMODEM_EOF"
  shows "\<exists>w'. Xmodem_read E buf (int (length D)) w = Some (int (length D), None, w') \<and>
    mem_bytes (mem (mach w')) buf (length D) = D \<and> next_blk (xm w') = next_blk (xm w) + 1 \<and> tx_ack (xm w') \<and>
    xlen (xm w') = 0 \<and> good_cnt (xm w') = good_cnt (xm w) + 1"
  using read_one_block [OF assms] .

definition demo_line :: "u8 list \<Rightarrow> env" where
  "demo_line cs = demo_env\<lparr>keys := \<lambda>n. if n < length cs then Some (cs ! n) else None, clock := \<lambda>_. 0\<rparr>"

definition demo_xm :: xm_world where
  "demo_xm = \<lparr>xm = xmodem_zero\<lparr>crc_mode := True, next_blk := 255\<rparr>, out = [], mach = demo_net []\<rparr>"

lemma demo_line: "line (demo_line cs) 0 cs"
  by (simp add: line_def demo_line_def)

lemma demo_xm_simps [simp]:
  "key_scans (mach demo_xm) = 0" "next_blk (xm demo_xm) = 255" "crc_mode (xm demo_xm)" "length (pkt (xm demo_xm)) = 1024"
  "xlen (xm demo_xm) = 0" "\<not> at_eof (xm demo_xm)"
  by (simp_all add: demo_xm_def xmodem_zero_def demo_net_def)

theorem xmodem_block_received_witness:
  "let D = replicate 128 7; cs = XMODEM_SOH # 255 # 0 # D @ [crc_hi D, crc_lo D] in
   \<exists>w'. Xmodem_read (demo_line cs) 0x5000 128 demo_xm = Some (128, None, w') \<and> next_blk (xm w') = 0"
proof -
  let ?D = "replicate 128 7 :: u8 list"
  let ?cs = "XMODEM_SOH # 255 # 0 # ?D @ [crc_hi ?D, crc_lo ?D]"
  have n: "NOT (255 :: u8) = 0" by simp
  have l: "line (demo_line ?cs) (key_scans (mach demo_xm)) (XMODEM_SOH # next_blk (xm demo_xm) # NOT (next_blk (xm demo_xm)) #
      ?D @ [crc_hi ?D, crc_lo ?D])"
    using demo_line [of ?cs] by (simp only: demo_xm_simps n)
  have e: "last ?D \<noteq> XMODEM_EOF" by (simp add: XMODEM_EOF_def)
  have s: "XMODEM_SOH = XMODEM_SOH \<and> length ?D = 128 \<or> XMODEM_SOH = XMODEM_STX \<and> length ?D = 1024" by simp
  show ?thesis
    using xmodem_block_received [OF l demo_xm_simps(3) s demo_xm_simps(4-6) e, of "0x5000"]
    by (auto simp only: Let_def demo_xm_simps length_replicate of_nat_numeral) (auto simp: Let_def)
qed

text \<open>C27. Damage to one data byte of a packet is detected.  When a byte of the data differs from the
  one the CRC was made for, \<open>Xmodem_get_header\<close> reports a checksum error and counts no good block.\<close>

theorem xmodem_damage_detected:
  assumes "line E (key_scans (mach w)) (c # b # NOT b # D[i := x] @ [crc_hi D, crc_lo D])"
    and "crc_mode (xm w)" and "c = XMODEM_SOH \<and> length D = 128 \<or> c = XMODEM_STX \<and> length D = 1024"
    and "length (pkt (xm w)) = 1024" and "i < length D" and "D ! i \<noteq> x"
  shows "\<exists>w'. Xmodem_get_header E w = Some (XMODEM_ERR_CHKSUM, w') \<and> good_cnt (xm w') = good_cnt (xm w)"
proof -
  have "foldl xcrc_byte 0 (D[i := x]) \<noteq> foldl xcrc_byte 0 D"
    using xcrc.foldl_list_update [OF assms(5,6), of 0] .
  then show ?thesis
    using get_header_line [OF assms(1,2) _ assms(4)] assms(3)
      check_crc [OF assms(2), of E c b "D[i := x]" "crc_hi D" "crc_lo D"]
    by (simp add: crc_bytes)
qed

theorem xmodem_damage_detected_witness:
  "let D = replicate 128 7; cs = XMODEM_SOH # 1 # NOT 1 # D[5 := 8] @ [crc_hi D, crc_lo D] in
   \<exists>w'. Xmodem_get_header (demo_line cs) demo_xm = Some (XMODEM_ERR_CHKSUM, w')"
proof -
  let ?D = "replicate 128 7 :: u8 list"
  let ?cs = "XMODEM_SOH # 1 # NOT 1 # ?D[5 := 8] @ [crc_hi ?D, crc_lo ?D]"
  have l: "line (demo_line ?cs) (key_scans (mach demo_xm)) (XMODEM_SOH # 1 # NOT 1 # ?D[5 := 8] @ [crc_hi ?D, crc_lo ?D])"
    using demo_line [of ?cs] by (simp only: demo_xm_simps)
  have s: "XMODEM_SOH = XMODEM_SOH \<and> length ?D = 128 \<or> XMODEM_SOH = XMODEM_STX \<and> length ?D = 1024" by simp
  have i: "5 < length ?D" "?D ! 5 \<noteq> 8" by simp_all
  show ?thesis
    using xmodem_damage_detected [OF l demo_xm_simps(3) s demo_xm_simps(4) i] unfolding Let_def by blast
qed

end
