(* ===== verification/NandEcc.thy ===== *)
theory NandEcc
  imports Prelude
begin

text \<open>
  The software error correcting code of the NAND driver, \<open>src/src/bsp/flash/flash_nand.c\<close>
  (\<open>BOARD_SUPPORT_SOFTECC\<close>): 22 parity bits over 256 bytes, kept in three bytes of the spare area.
  \<open>nand_page_ECC\<close> computes them, \<open>nand_correct_data\<close> compares the stored with the computed ones and
  repairs the data.  A block of data is the list of its bytes; the functions that take pointers
  return what they store through them.
\<close>

section \<open>Model\<close>

definition nand_ecc_precalc_table :: "u8 list" where
  "nand_ecc_precalc_table = [
    0x00, 0x55, 0x56, 0x03, 0x59, 0x0c, 0x0f, 0x5a, 0x5a, 0x0f, 0x0c, 0x59, 0x03, 0x56, 0x55, 0x00,
    0x65, 0x30, 0x33, 0x66, 0x3c, 0x69, 0x6a, 0x3f, 0x3f, 0x6a, 0x69, 0x3c, 0x66, 0x33, 0x30, 0x65,
    0x66, 0x33, 0x30, 0x65, 0x3f, 0x6a, 0x69, 0x3c, 0x3c, 0x69, 0x6a, 0x3f, 0x65, 0x30, 0x33, 0x66,
    0x03, 0x56, 0x55, 0x00, 0x5a, 0x0f, 0x0c, 0x59, 0x59, 0x0c, 0x0f, 0x5a, 0x00, 0x55, 0x56, 0x03,
    0x69, 0x3c, 0x3f, 0x6a, 0x30, 0x65, 0x66, 0x33, 0x33, 0x66, 0x65, 0x30, 0x6a, 0x3f, 0x3c, 0x69,
    0x0c, 0x59, 0x5a, 0x0f, 0x55, 0x00, 0x03, 0x56, 0x56, 0x03, 0x00, 0x55, 0x0f, 0x5a, 0x59, 0x0c,
    0x0f, 0x5a, 0x59, 0x0c, 0x56, 0x03, 0x00, 0x55, 0x55, 0x00, 0x03, 0x56, 0x0c, 0x59, 0x5a, 0x0f,
    0x6a, 0x3f, 0x3c, 0x69, 0x33, 0x66, 0x65, 0x30, 0x30, 0x65, 0x66, 0x33, 0x69, 0x3c, 0x3f, 0x6a,
    0x6a, 0x3f, 0x3c, 0x69, 0x33, 0x66, 0x65, 0x30, 0x30, 0x65, 0x66, 0x33, 0x69, 0x3c, 0x3f, 0x6a,
    0x0f, 0x5a, 0x59, 0x0c, 0x56, 0x03, 0x00, 0x55, 0x55, 0x00, 0x03, 0x56, 0x0c, 0x59, 0x5a, 0x0f,
    0x0c, 0x59, 0x5a, 0x0f, 0x55, 0x00, 0x03, 0x56, 0x56, 0x03, 0x00, 0x55, 0x0f, 0x5a, 0x59, 0x0c,
    0x69, 0x3c, 0x3f, 0x6a, 0x30, 0x65, 0x66, 0x33, 0x33, 0x66, 0x65, 0x30, 0x6a, 0x3f, 0x3c, 0x69,
    0x03, 0x56, 0x55, 0x00, 0x5a, 0x0f, 0x0c, 0x59, 0x59, 0x0c, 0x0f, 0x5a, 0x00, 0x55, 0x56, 0x03,
    0x66, 0x33, 0x30, 0x65, 0x3f, 0x6a, 0x69, 0x3c, 0x3c, 0x69, 0x6a, 0x3f, 0x65, 0x30, 0x33, 0x66,
    0x65, 0x30, 0x33, 0x66, 0x3c, 0x69, 0x6a, 0x3f, 0x3f, 0x6a, 0x69, 0x3c, 0x66, 0x33, 0x30, 0x65,
    0x00, 0x55, 0x56, 0x03, 0x59, 0x0c, 0x0f, 0x5a, 0x5a, 0x0f, 0x0c, 0x59, 0x03, 0x56, 0x55, 0x00
  ]"

text \<open>One of the two loops of \<open>_nand_trans_result\<close>: \<open>n\<close> more rounds with the masks \<open>a\<close> and \<open>b\<close>.\<close>

fun trans_loop :: "nat \<Rightarrow> u8 \<Rightarrow> u8 \<Rightarrow> u8 \<Rightarrow> u8 \<Rightarrow> u8 \<Rightarrow> u8 \<times> u8" where
  "trans_loop 0 reg2 reg3 a b t = (a, t)"
| "trans_loop (Suc n) reg2 reg3 a b t =
     (let t = (if reg3 AND a \<noteq> 0 then t OR b else t);
          b = drop_bit 1 b;
          t = (if reg2 AND a \<noteq> 0 then t OR b else t);
          b = drop_bit 1 b
      in trans_loop n reg2 reg3 (drop_bit 1 a) b t)"

definition nand_trans_result :: "u8 \<Rightarrow> u8 \<Rightarrow> u8 \<times> u8" where
  "nand_trans_result reg2 reg3 =
     (let (a, tmp1) = trans_loop 4 reg2 reg3 0x80 0x80 0;
          (a, tmp2) = trans_loop 4 reg2 reg3 a 0x80 0
      in (tmp1, tmp2))"

text \<open>The body of the column loop at byte \<open>j\<close>.\<close>

definition ecc_step :: "u8 list \<Rightarrow> nat \<Rightarrow> u8 \<times> u8 \<times> u8 \<Rightarrow> u8 \<times> u8 \<times> u8" where
  "ecc_step data j = (\<lambda>(reg1, reg2, reg3).
     let idx = nand_ecc_precalc_table ! unat (data ! j);
         reg1 = reg1 XOR (idx AND 0x3f)
     in if idx AND 0x40 \<noteq> 0 then (reg1, reg2 XOR NOT (of_nat j), reg3 XOR of_nat j)
        else (reg1, reg2, reg3))"

definition nand_page_ECC :: "u8 list \<Rightarrow> u8 \<times> u8 \<times> u8" where
  "nand_page_ECC data =
     (let (reg1, reg2, reg3) = fold (ecc_step data) [0..<256] (0, 0, 0);
          (ecc0, ecc1) = nand_trans_result reg2 reg3
      in (NOT ecc0, NOT ecc1, push_bit 2 (NOT reg1) OR 0x03))"

text \<open>The three loops that gather every second bit of a difference: \<open>n\<close> rounds with the mask \<open>c\<close>
  on \<open>d\<close> and the mask \<open>a\<close> on the result.\<close>

fun gather_loop :: "nat \<Rightarrow> u8 \<Rightarrow> u8 \<Rightarrow> u8 \<Rightarrow> u8 \<Rightarrow> u8 \<times> u8" where
  "gather_loop 0 d c a add = (a, add)"
| "gather_loop (Suc n) d c a add =
     gather_loop n d (drop_bit 2 c) (drop_bit 1 a) (if d AND c \<noteq> 0 then add OR a else add)"

function count_loop :: "u8 \<Rightarrow> u8 \<Rightarrow> u8" where
  "count_loop d i =
     (if d = 0 then i else count_loop (drop_bit 1 d) (if d AND 0x01 \<noteq> 0 then i + 1 else i))"
  by pat_completeness auto
termination
proof (relation "measure (\<lambda>(d, i). unat d)")
  fix d i :: u8
  assume "d \<noteq> 0"
  then have "0 < unat d" by (simp add: unat_gt_0)
  then have "unat d div 2 < unat d" by simp
  moreover have "unat (drop_bit 1 d) = unat d div 2" by (metis unat_drop_bit_eq drop_bit_eq_div power_one_right)
  ultimately show "((drop_bit 1 d, if d AND 0x01 \<noteq> 0 then i + 1 else i), (d, i)) \<in> measure (\<lambda>(d, i). unat d)"
    by simp
qed simp

declare count_loop.simps [simp del]

definition nand_correct_data ::
  "u8 list \<Rightarrow> u8 \<times> u8 \<times> u8 \<Rightarrow> u8 \<times> u8 \<times> u8 \<Rightarrow> int \<times> u8 list \<times> (u8 \<times> u8 \<times> u8)" where
  "nand_correct_data dat read_ecc calc_ecc =
     (let (r0, r1, r2) = read_ecc; (c0, c1, c2) = calc_ecc;
          d1 = c0 XOR r0; d2 = c1 XOR r1; d3 = c2 XOR r2
      in if (d1 OR d2) OR d3 = 0 then (0, dat, read_ecc)
         else
           (let a = (d1 XOR drop_bit 1 d1) AND 0x55;
                b = (d2 XOR drop_bit 1 d2) AND 0x55;
                c = (d3 XOR drop_bit 1 d3) AND 0x54
            in if a = 0x55 \<and> b = 0x55 \<and> c = 0x54 then
                 (let (a, add) = gather_loop 4 d1 0x80 0x80 0;
                      (a, add) = gather_loop 4 d2 0x80 a add;
                      (b, bt) = gather_loop 3 d3 0x80 0x04 0
                  in (1, dat[unat add := dat ! unat add XOR push_bit (unat bt) 0x01], read_ecc))
               else if count_loop d3 (count_loop d2 (count_loop d1 0)) = 1 then (2, dat, calc_ecc)
               else (-1, dat, read_ecc)))"

section \<open>The code as a linear map\<close>

definition ecc_base :: "nat \<Rightarrow> u8" where
  "ecc_base k = [0x55, 0x56, 0x59, 0x5a, 0x65, 0x66, 0x69, 0x6a] ! k"

definition ecc_row :: "u8 \<Rightarrow> u8" where
  "ecc_row x = fold (\<lambda>k s. if bit x k then s XOR ecc_base k else s) [0..<8] 0"

lemma upt_256: "[0..<256] = 0 # 1 # [2..<256]"
  by (simp add: upt_rec)

lemma upt_8: "[0..<8] = [0, 1, 2, 3, 4, 5, 6, 7]"
  by (simp add: upt_rec)

lemma nand_ecc_precalc_table_eq: "nand_ecc_precalc_table = map (\<lambda>i. ecc_row (of_nat i)) [0..<256]"
  by (simp add: nand_ecc_precalc_table_def ecc_row_def ecc_base_def upt_8 upt_256 upt_rec_numeral)

lemma nand_ecc_precalc_table_nth: "nand_ecc_precalc_table ! unat x = ecc_row x"
  by (simp add: nand_ecc_precalc_table_eq)


lemma xor_if: "(if c then s XOR b else s) = s XOR (if c then b else (0 :: u8))"
  by simp

lemma ecc_row_sum:
  "ecc_row x = (if bit x 0 then 0x55 else 0) XOR (if bit x 1 then 0x56 else 0) XOR (if bit x 2 then 0x59 else 0) XOR
     (if bit x 3 then 0x5a else 0) XOR (if bit x 4 then 0x65 else 0) XOR (if bit x 5 then 0x66 else 0) XOR
     (if bit x 6 then 0x69 else 0) XOR (if bit x 7 then 0x6a else 0)"
  by (simp add: ecc_row_def upt_8 ecc_base_def xor_if xor.assoc)

lemma ecc_term_xor: "(if bit (x XOR y) k then b else 0) = (if bit x k then b else 0) XOR (if bit y k then b else (0 :: u8))"
  for x y :: u8
  by (simp add: bit_xor_iff)

lemma ecc_row_xor: "ecc_row (x XOR y) = ecc_row x XOR ecc_row y"
  unfolding ecc_row_sum ecc_term_xor by (simp only: xor.assoc xor.commute xor.left_commute)

lemma less_8_cases: "k < 8 \<Longrightarrow> k = 0 \<or> k = 1 \<or> k = 2 \<or> k = 3 \<or> k = 4 \<or> k = 5 \<or> k = 6 \<or> k = (7 :: nat)"
  by arith

lemma ecc_row_flip: "k < 8 \<Longrightarrow> ecc_row (2 ^ k) = ecc_base k"
  by (drule less_8_cases, elim disjE) (simp_all add: ecc_row_sum ecc_base_def)

lemma and_xor_distr: "(x XOR y) AND m = (x AND m) XOR (y AND (m :: u8))"
  by (rule bit_eqI) (auto simp: bit_simps)

lemma and_0x40: "x AND 0x40 \<noteq> 0 \<longleftrightarrow> bit (x :: u8) 6"
  using and_exp_eq_0_iff_not_bit [of x 6] by simp

lemma ecc_base_odd: "k < 8 \<Longrightarrow> bit (ecc_base k) 6"
  by (drule less_8_cases, elim disjE) (simp_all add: ecc_base_def)

section \<open>The effect of a changed bit\<close>

definition xor3 :: "u8 \<times> u8 \<times> u8 \<Rightarrow> u8 \<times> u8 \<times> u8 \<Rightarrow> u8 \<times> u8 \<times> u8" where
  "xor3 = (\<lambda>(a, b, c) (a', b', c'). (a XOR a', b XOR b', c XOR c'))"

definition flip_at :: "nat \<Rightarrow> nat \<Rightarrow> u8 list \<Rightarrow> u8 list" where
  "flip_at j k data = data[j := data ! j XOR push_bit k 1]"

definition mark :: "nat \<Rightarrow> nat \<Rightarrow> u8 \<times> u8 \<times> u8" where
  "mark j k = (ecc_base k AND 0x3f, NOT (of_nat j), of_nat j)"

lemma ecc_step_xor3: "ecc_step data j (xor3 r e) = xor3 (ecc_step data j r) e"
  by (auto simp: ecc_step_def xor3_def Let_def ac_simps split: prod.splits)

lemma fold_ecc_xor3: "fold (ecc_step data) js (xor3 r e) = xor3 (fold (ecc_step data) js r) e"
  by (induction js arbitrary: r) (simp_all add: ecc_step_xor3)

lemma ecc_step_flip_other: "i \<noteq> j \<Longrightarrow> ecc_step (flip_at j k data) i = ecc_step data i"
  by (simp add: ecc_step_def flip_at_def fun_eq_iff)

lemma ecc_step_flip:
  "j < length data \<Longrightarrow> k < 8 \<Longrightarrow> ecc_step (flip_at j k data) j r = xor3 (ecc_step data j r) (mark j k)"
  by (auto simp: ecc_step_def flip_at_def mark_def xor3_def Let_def nand_ecc_precalc_table_nth ecc_row_xor
    ecc_row_flip and_0x40 bit_xor_iff ecc_base_odd and_xor_distr xor.assoc xor.commute xor.left_commute
    split: prod.splits)

lemma fold_ecc_flip_other: "j \<notin> set js \<Longrightarrow> fold (ecc_step (flip_at j k data)) js r = fold (ecc_step data) js r"
  by (induction js arbitrary: r) (simp_all add: ecc_step_flip_other)

lemma fold_ecc_flip:
  assumes "distinct js" and "j \<in> set js" and "j < length data" and "k < 8"
  shows "fold (ecc_step (flip_at j k data)) js r = xor3 (fold (ecc_step data) js r) (mark j k)"
  using assms
proof (induction js arbitrary: r)
  case (Cons i js)
  show ?case
  proof (cases "i = j")
    case True
    then show ?thesis using Cons.prems by (simp add: ecc_step_flip fold_ecc_flip_other fold_ecc_xor3)
  next
    case False
    then show ?thesis using Cons by (simp add: ecc_step_flip_other)
  qed
qed simp


lemma mask_bits:
  "x AND 0x80 \<noteq> 0 \<longleftrightarrow> bit x 7" "x AND 0x40 \<noteq> 0 \<longleftrightarrow> bit x 6" "x AND 0x20 \<noteq> 0 \<longleftrightarrow> bit x 5"
  "x AND 0x10 \<noteq> 0 \<longleftrightarrow> bit x 4" "x AND 8 \<noteq> 0 \<longleftrightarrow> bit x 3" "x AND 4 \<noteq> 0 \<longleftrightarrow> bit x 2"
  "x AND 2 \<noteq> 0 \<longleftrightarrow> bit x 1" "x AND 1 \<noteq> 0 \<longleftrightarrow> bit x 0" for x :: u8
  using and_exp_eq_0_iff_not_bit [of x 7] and_exp_eq_0_iff_not_bit [of x 6] and_exp_eq_0_iff_not_bit [of x 5]
    and_exp_eq_0_iff_not_bit [of x 4] and_exp_eq_0_iff_not_bit [of x 3] and_exp_eq_0_iff_not_bit [of x 2]
    and_exp_eq_0_iff_not_bit [of x 1] and_exp_eq_0_iff_not_bit [of x 0] by simp_all

lemma or_if: "(if c then s OR b else s) = s OR (if c then b else (0 :: u8))"
  by simp

lemma bit_if: "bit (if c then a else 0) n \<longleftrightarrow> c \<and> bit (a :: u8) n"
  by simp

lemma u8_eqI: "(\<And>n. n < 8 \<Longrightarrow> bit a n = bit b n) \<Longrightarrow> a = (b :: u8)"
  by (rule bit_word_eqI) simp

definition weave :: "u8 \<Rightarrow> u8 \<Rightarrow> nat \<Rightarrow> u8" where
  "weave x y i = (if bit y (i + 3) then 0x80 else 0) OR (if bit x (i + 3) then 0x40 else 0) OR
     (if bit y (i + 2) then 0x20 else 0) OR (if bit x (i + 2) then 0x10 else 0) OR
     (if bit y (i + 1) then 8 else 0) OR (if bit x (i + 1) then 4 else 0) OR
     (if bit y i then 2 else 0) OR (if bit x i then 1 else 0)"

lemma mask_shifts:
  "drop_bit 1 (0x80 :: u8) = 0x40" "drop_bit 1 (0x40 :: u8) = 0x20" "drop_bit 1 (0x20 :: u8) = 0x10"
  "drop_bit 1 (0x10 :: u8) = 8" "drop_bit 1 (8 :: u8) = 4" "drop_bit 1 (4 :: u8) = 2" "drop_bit 1 (2 :: u8) = 1"
  "drop_bit 1 (1 :: u8) = 0"
  by simp_all

lemma bit_places: "(4 :: nat) + 3 = 7" "(4 :: nat) + 2 = 6" "(4 :: nat) + 1 = 5"
  by simp_all

lemma nand_trans_result_eq: "nand_trans_result x y = (weave x y 4, weave x y 0)"
proof -
  have hi: "trans_loop (Suc (Suc (Suc (Suc 0)))) x y 0x80 0x80 0 = (8, weave x y 4)"
    unfolding trans_loop.simps Let_def or_if by (simp only: weave_def mask_shifts mask_bits or.assoc or.left_neutral bit_places)
  have lo: "trans_loop (Suc (Suc (Suc (Suc 0)))) x y 8 0x80 0 = (0, weave x y 0)"
    unfolding trans_loop.simps Let_def or_if
    by (simp only: weave_def mask_shifts mask_bits or.assoc or.left_neutral add_0)
  have four: "(4 :: nat) = Suc (Suc (Suc (Suc 0)))" by simp
  show ?thesis unfolding nand_trans_result_def four [THEN arg_cong [of _ _ trans_loop]] hi Let_def prod.case lo ..
qed

lemma bit_weave: "n < 8 \<Longrightarrow> bit (weave x y i) n = (if odd n then bit y (i + n div 2) else bit x (i + n div 2))"
  by (drule less_8_cases, elim disjE) (simp_all add: weave_def bit_or_iff bit_if)

lemma weave_xor: "weave (x XOR x') (y XOR y') i = weave x y i XOR weave x' y' i"
  by (rule u8_eqI) (simp add: bit_weave bit_xor_iff)


lemma possible_bit_u8: "possible_bit TYPE(u8) n \<longleftrightarrow> n < 8"
  by simp

lemma bit_ecc_low: "bit (3 :: u8) n \<longleftrightarrow> n < 2"
  by (cases "n < 8") (auto dest!: less_8_cases dest: bit_imp_le_length)

lemma nand_page_ECC_flip:
  assumes "length data = 256" and "j < 256" and "k < 8"
  shows "nand_page_ECC (flip_at j k data) =
    xor3 (nand_page_ECC data) (weave (NOT (of_nat j)) (of_nat j) 4, weave (NOT (of_nat j)) (of_nat j) 0,
      push_bit 2 (ecc_base k AND 0x3f))"
proof -
  obtain r1 r2 r3 where r: "fold (ecc_step data) [0..<256] (0, 0, 0) = (r1, r2, r3)" by (metis prod.exhaust)
  have f: "fold (ecc_step (flip_at j k data)) [0..<256] (0, 0, 0) =
      (r1 XOR (ecc_base k AND 0x3f), r2 XOR NOT (of_nat j), r3 XOR of_nat j)"
    using fold_ecc_flip [of "[0..<256]" j data k "(0, 0, 0)"] assms by (simp add: r xor3_def mark_def)
  have p: "push_bit 2 (NOT (x XOR y)) OR 3 = (push_bit 2 (NOT x) OR 3) XOR push_bit 2 (y :: u8)" for x y
    by (rule u8_eqI)
      (auto simp only: bit_or_iff bit_xor_iff bit_push_bit_iff bit_not_iff bit_ecc_low possible_bit_u8 less_imp_diff_less)
  have n: "NOT (x XOR y) = NOT x XOR (y :: u8)" for x y
    by (rule bit_eqI) (auto simp: bit_simps)
  show ?thesis
    unfolding nand_page_ECC_def r f Let_def prod.case nand_trans_result_eq weave_xor xor3_def p
    unfolding n ..
qed

section \<open>Correction\<close>

lemma gather_byte:
  assumes "\<And>n. n < 4 \<Longrightarrow> bit d1 (2 * n + 1) = bit j (n + 4)" and "\<And>n. n < 4 \<Longrightarrow> bit d2 (2 * n + 1) = bit j n"
  shows "gather_loop 4 d1 0x80 0x80 0 = (8, j AND 0xf0)" and "gather_loop 4 d2 0x80 8 (j AND 0xf0) = (0, j)"
proof -
  have four: "(4 :: nat) = Suc (Suc (Suc (Suc 0)))" by simp
  have sh: "drop_bit 2 (0x80 :: u8) = 0x20" "drop_bit 2 (0x20 :: u8) = 8" "drop_bit 2 (8 :: u8) = 2" by simp_all
  have b: "bit d1 7 = bit j 7" "bit d1 5 = bit j 6" "bit d1 3 = bit j 5" "bit d1 1 = bit j 4"
    "bit d2 7 = bit j 3" "bit d2 5 = bit j 2" "bit d2 3 = bit j 1" "bit d2 1 = bit j 0"
    using assms(1) [of 3] assms(1) [of 2] assms(1) [of 1] assms(1) [of 0]
      assms(2) [of 3] assms(2) [of 2] assms(2) [of 1] assms(2) [of 0] by simp_all
  show "gather_loop 4 d1 0x80 0x80 0 = (8, j AND 0xf0)"
    unfolding four [THEN arg_cong [of _ _ gather_loop]] gather_loop.simps or_if mask_shifts sh mask_bits b
      or.left_neutral prod.inject
    by (intro conjI refl, rule u8_eqI, drule less_8_cases, elim disjE)
      (simp_all add: bit_or_iff bit_and_iff bit_if)
  show "gather_loop 4 d2 0x80 8 (j AND 0xf0) = (0, j)"
    unfolding four [THEN arg_cong [of _ _ gather_loop]] gather_loop.simps or_if mask_shifts sh mask_bits b prod.inject
    by (intro conjI refl, rule u8_eqI, drule less_8_cases, elim disjE)
      (simp_all add: bit_or_iff bit_and_iff bit_if)
qed

lemma gather_bit: "k < 8 \<Longrightarrow> gather_loop 3 (push_bit 2 (ecc_base k AND 0x3f)) 0x80 0x04 0 = (0, of_nat k)"
proof -
  have three: "(3 :: nat) = Suc (Suc (Suc 0))" by simp
  assume "k < 8"
  then show ?thesis unfolding three [THEN arg_cong [of _ _ gather_loop]] gather_loop.simps
    by (elim less_8_cases [elim_format] disjE) (simp_all add: ecc_base_def)
qed

lemma bit_pair_test:
  "n < 8 \<Longrightarrow> bit ((w XOR drop_bit 1 w) AND m) n \<longleftrightarrow> bit m n \<and> bit w n \<noteq> bit (w :: u8) (n + 1)"
  by (auto simp: bit_and_iff bit_xor_iff bit_drop_bit_eq add.commute)

lemma bit_weave_shift:
  "n < 8 \<Longrightarrow> even n \<Longrightarrow> bit (weave x y i) (n + 1) = bit y (i + n div 2)"
  "n < 8 \<Longrightarrow> even n \<Longrightarrow> bit (weave x y i) n = bit x (i + n div 2)"
  by (auto simp: bit_weave elim!: evenE)

lemma bit_0x55: "n < 8 \<Longrightarrow> bit (0x55 :: u8) n = even n"
  by (drule less_8_cases, elim disjE) simp_all

lemma weave_pairs:
  assumes "i \<le> 4"
  shows "(weave (NOT j) j i XOR drop_bit 1 (weave (NOT j) j i)) AND 0x55 = 0x55"
    and "(weave j j i XOR drop_bit 1 (weave j j i)) AND 0x55 = 0"
proof -
  show "(weave (NOT j) j i XOR drop_bit 1 (weave (NOT j) j i)) AND 0x55 = 0x55"
  proof (rule u8_eqI)
    fix n :: nat
    assume n: "n < 8"
    then have "i + n div 2 < 8" using assms by simp
    then show "bit ((weave (NOT j) j i XOR drop_bit 1 (weave (NOT j) j i)) AND 0x55) n = bit (0x55 :: u8) n"
      unfolding bit_pair_test [OF n] bit_0x55 [OF n]
      using n bit_weave_shift [OF n, of "NOT j" j i] by (auto simp: bit_not_iff)
  qed
  show "(weave j j i XOR drop_bit 1 (weave j j i)) AND 0x55 = 0"
  proof (rule u8_eqI)
    fix n :: nat
    assume n: "n < 8"
    show "bit ((weave j j i XOR drop_bit 1 (weave j j i)) AND 0x55) n = bit (0 :: u8) n"
      unfolding bit_pair_test [OF n] bit_0x55 [OF n] using bit_weave_shift [OF n, of j j i] by auto
  qed
qed

lemma ecc_base_pairs: "k < 8 \<Longrightarrow>
  (push_bit 2 (ecc_base k AND 0x3f) XOR drop_bit 1 (push_bit 2 (ecc_base k AND 0x3f))) AND 0x54 = 0x54"
  by (drule less_8_cases, elim disjE) (simp_all add: ecc_base_def)

lemma xor_back: "(r XOR w) XOR r = (w :: u8)"
  by (rule bit_eqI) (auto simp: bit_xor_iff)

lemma correct_one_bit:
  assumes "j < 256" and "k < 8"
    and "c0 = r0 XOR weave (NOT (of_nat j)) (of_nat j) 4" and "c1 = r1 XOR weave (NOT (of_nat j)) (of_nat j) 0"
    and "c2 = r2 XOR push_bit 2 (ecc_base k AND 0x3f)"
  shows "nand_correct_data dat (r0, r1, r2) (c0, c1, c2) = (1, flip_at j k dat, (r0, r1, r2))"
proof -
  let ?j = "of_nat j :: u8"
  let ?w1 = "weave (NOT ?j) ?j 4" and ?w2 = "weave (NOT ?j) ?j 0" and ?w3 = "push_bit 2 (ecc_base k AND 0x3f)"
  have d: "c0 XOR r0 = ?w1" "c1 XOR r1 = ?w2" "c2 XOR r2 = ?w3"
    unfolding assms(3-5) by (rule xor_back)+
  have g: "gather_loop 4 ?w1 0x80 0x80 0 = (8, ?j AND 0xf0)" "gather_loop 4 ?w2 0x80 8 (?j AND 0xf0) = (0, ?j)"
    using gather_byte [of ?w1 ?j ?w2] by (simp_all add: bit_weave add.commute)
  have nz: "(?w1 OR ?w2) OR ?w3 \<noteq> 0"
    using weave_pairs(1) [of 4 ?j] by (auto simp: or_eq_0_iff)
  have u: "unat ?j = j" "unat (of_nat k :: u8) = k" using assms(1,2) by (simp_all add: unsigned_of_nat take_bit_nat_eq_self)
  show ?thesis
    unfolding nand_correct_data_def prod.case Let_def d weave_pairs(1) [OF order.refl] weave_pairs(1) [OF zero_le]
      ecc_base_pairs [OF assms(2)] g gather_bit [OF assms(2)] u
    using nz by (simp add: flip_at_def)
qed

section \<open>Counting the differences\<close>

definition pop :: "u8 \<Rightarrow> nat" where
  "pop d = of_bool (bit d 0) + of_bool (bit d 1) + of_bool (bit d 2) + of_bool (bit d 3) +
     of_bool (bit d 4) + of_bool (bit d 5) + of_bool (bit d 6) + of_bool (bit d 7)"

lemma pop_shift: "pop d = pop (drop_bit 1 d) + of_bool (bit d 0)"
proof -
  have b: "bit (drop_bit 1 d) k = bit d (k + 1)" for k by (simp only: bit_drop_bit_eq o_def add.commute)
  have "\<not> bit d 8" by (auto dest: bit_imp_le_length)
  then show ?thesis unfolding pop_def b by (simp add: numeral_eq_Suc)
qed

lemma count_loop_pop: "count_loop d i = i + of_nat (pop d)"
proof (induction d i rule: count_loop.induct)
  case (1 d i)
  show ?case
  proof (cases "d = 0")
    case True
    then show ?thesis by (simp add: count_loop.simps [of 0] pop_def)
  next
    case False
    then show ?thesis
      using 1 by (simp add: count_loop.simps [of d] pop_shift [of d] mask_bits del: One_nat_def)
  qed
qed

lemma pop_le: "pop d \<le> 8"
  by (simp add: pop_def of_bool_def)

lemma count_all: "count_loop d3 (count_loop d2 (count_loop d1 0)) = 1 \<longleftrightarrow> pop d1 + pop d2 + pop d3 = 1"
proof -
  have "count_loop d3 (count_loop d2 (count_loop d1 0)) = (of_nat (pop d1 + pop d2 + pop d3) :: u8)"
    by (simp add: count_loop_pop ac_simps)
  moreover have "unat (of_nat (pop d1 + pop d2 + pop d3) :: u8) = pop d1 + pop d2 + pop d3"
    using pop_le [of d1] pop_le [of d2] pop_le [of d3] by (subst unat_of_nat) simp
  ultimately show ?thesis by (metis unat_1 word_unat_eq_iff)
qed

lemma pop_pairs_even: "(w XOR drop_bit 1 w) AND 0x55 = 0 \<Longrightarrow> even (pop w)"
proof -
  assume h: "(w XOR drop_bit 1 w) AND 0x55 = 0"
  have "bit w n = bit w (n + 1)" if "n < 8" "even n" for n
    using bit_pair_test [OF that(1), of w "0x55"] that bit_0x55 [OF that(1)] unfolding h by simp
  from this [of 0] this [of 2] this [of 4] this [of 6]
  show ?thesis by (auto simp: pop_def of_bool_def)
qed

lemma pop_0: "pop w = 0 \<longleftrightarrow> w = 0"
proof
  assume "pop w = 0"
  then show "w = 0"
    by (intro u8_eqI) (auto simp: pop_def of_bool_def split: if_splits dest!: less_8_cases)
qed (simp add: pop_def)

lemma pop_exp: "n < 8 \<Longrightarrow> pop (2 ^ n) = 1"
  by (drule less_8_cases, elim disjE) (simp_all add: pop_def)

lemma not_correctable:
  assumes "\<not> ((d1 XOR drop_bit 1 d1) AND 0x55 = 0x55 \<and> (d2 XOR drop_bit 1 d2) AND 0x55 = 0x55 \<and>
      (d3 XOR drop_bit 1 d3) AND 0x54 = 0x54)"
    and "c0 = r0 XOR d1" and "c1 = r1 XOR d2" and "c2 = r2 XOR d3" and "pop d1 + pop d2 + pop d3 \<noteq> 0"
  shows "nand_correct_data dat (r0, r1, r2) (c0, c1, c2) =
    (if pop d1 + pop d2 + pop d3 = 1 then (2, dat, (c0, c1, c2)) else (-1, dat, (r0, r1, r2)))"
proof -
  have d: "c0 XOR r0 = d1" "c1 XOR r1 = d2" "c2 XOR r2 = d3"
    unfolding assms(2-4) by (rule xor_back)+
  have nz: "(d1 OR d2) OR d3 \<noteq> 0"
    using assms(5) by (auto simp: or_eq_0_iff pop_0)
  show ?thesis
    unfolding nand_correct_data_def prod.case Let_def d count_all using assms(1) nz by auto
qed

lemma ecc_base_diff:
  assumes "k < 8" and "k' < 8"
  defines "w \<equiv> push_bit 2 (ecc_base k AND 0x3f) XOR push_bit 2 (ecc_base k' AND 0x3f)"
  shows "(w XOR drop_bit 1 w) AND 0x55 = 0" and "w = 0 \<longleftrightarrow> k = k'"
  using assms(1,2) unfolding w_def
  by (drule_tac [!] less_8_cases, drule_tac [!] less_8_cases, (elim disjE; simp add: ecc_base_def)+)

section \<open>Properties\<close>

lemma flip_at_flip_at: "k < 8 \<Longrightarrow> j < length data \<Longrightarrow> flip_at j k (flip_at j k data) = data"
  by (simp add: flip_at_def xor.assoc)

lemma length_flip_at [simp]: "length (flip_at j k data) = length data"
  by (simp add: flip_at_def)

lemma correct_intact:
  "nand_correct_data data (nand_page_ECC data) (nand_page_ECC data) = (0, data, nand_page_ECC data)"
  by (cases "nand_page_ECC data") (simp add: nand_correct_data_def)

lemma correct_flipped:
  assumes "length data = 256" and "j < 256" and "k < 8"
  shows "nand_correct_data (flip_at j k data) (nand_page_ECC data) (nand_page_ECC (flip_at j k data)) =
    (1, data, nand_page_ECC data)"
proof -
  obtain r0 r1 r2 where r: "nand_page_ECC data = (r0, r1, r2)" by (metis prod.exhaust)
  have "nand_correct_data (flip_at j k data) (nand_page_ECC data) (nand_page_ECC (flip_at j k data)) =
      (1, flip_at j k (flip_at j k data), nand_page_ECC data)"
    unfolding nand_page_ECC_flip [OF assms] r xor3_def prod.case
    by (rule correct_one_bit [OF assms(2,3) refl refl refl])
  then show ?thesis using assms by (simp add: flip_at_flip_at)
qed

text \<open>C5. Single errors of a block of 256 bytes are repaired: an intact block is accepted as it is, a
  changed data bit is changed back, and a changed bit of the three stored code bytes leaves the data
  alone and restores the code.\<close>

theorem nand_ecc_repairs_one_bit:
  assumes "length data = 256" and "j < 256" and "k < 8" and "e \<in> {(2 ^ k, 0, 0), (0, 2 ^ k, 0), (0, 0, 2 ^ k)}"
  shows "nand_correct_data data (nand_page_ECC data) (nand_page_ECC data) = (0, data, nand_page_ECC data) \<and>
    nand_correct_data (flip_at j k data) (nand_page_ECC data) (nand_page_ECC (flip_at j k data)) =
      (1, data, nand_page_ECC data) \<and>
    nand_correct_data data (xor3 (nand_page_ECC data) e) (nand_page_ECC data) = (2, data, nand_page_ECC data)"
proof (intro conjI correct_intact correct_flipped assms(1-3))
  obtain r0 r1 r2 where r: "nand_page_ECC data = (r0, r1, r2)" by (metis prod.exhaust)
  obtain a b c where e: "e = (a, b, c)" "pop a + pop b + pop c = 1" "a = 0 \<or> b = 0"
    using assms(3,4) by (auto simp: pop_exp pop_0)
  show "nand_correct_data data (xor3 (nand_page_ECC data) e) (nand_page_ECC data) = (2, data, nand_page_ECC data)"
    using e(2,3) unfolding r e(1) xor3_def prod.case
    by (subst not_correctable [of a b c]) (auto simp: xor.assoc)
qed

theorem nand_ecc_repairs_one_bit_witness:
  "\<exists>bad. bad \<noteq> replicate 256 7 \<and>
    nand_correct_data bad (nand_page_ECC (replicate 256 7)) (nand_page_ECC bad) =
      (1, replicate 256 7, nand_page_ECC (replicate 256 7))"
proof -
  have "flip_at 77 3 (replicate 256 7) ! 77 \<noteq> replicate 256 7 ! 77"
    by (simp add: flip_at_def)
  then have "flip_at 77 3 (replicate 256 7) \<noteq> replicate 256 7" by metis
  then show ?thesis
    using nand_ecc_repairs_one_bit [of "replicate 256 7" 77 3 "(2 ^ 3, 0, 0)"] by auto
qed

text \<open>C39. Two changed data bits of a block are never taken for one: the block is reported as not
  correctable, and neither the data nor the stored code is touched.\<close>

theorem nand_ecc_detects_two_bits:
  assumes "length data = 256" and "j < 256" and "k < 8" and "j' < 256" and "k' < 8" and "(j, k) \<noteq> (j', k')"
  shows "nand_correct_data (flip_at j k (flip_at j' k' data)) (nand_page_ECC data)
      (nand_page_ECC (flip_at j k (flip_at j' k' data))) =
    (-1, flip_at j k (flip_at j' k' data), nand_page_ECC data)"
proof -
  obtain r0 r1 r2 where r: "nand_page_ECC data = (r0, r1, r2)" by (metis prod.exhaust)
  let ?x = "of_nat j' XOR of_nat j :: u8"
  let ?w = "push_bit 2 (ecc_base k' AND 0x3f) XOR push_bit 2 (ecc_base k AND 0x3f)"
  have n: "NOT a XOR NOT b = a XOR (b :: u8)" for a b by (rule u8_eqI) (auto simp: bit_xor_iff bit_not_iff)
  have l: "length (flip_at j' k' data) = 256" using assms(1) by simp
  have c: "nand_page_ECC (flip_at j k (flip_at j' k' data)) =
      (r0 XOR weave ?x ?x 4, r1 XOR weave ?x ?x 0, r2 XOR ?w)"
    unfolding nand_page_ECC_flip [OF l assms(2,3)] nand_page_ECC_flip [OF assms(1,4,5)] r xor3_def prod.case
    by (simp only: xor.assoc weave_xor [symmetric] n)
  have even: "even (pop (weave ?x ?x 4))" "even (pop (weave ?x ?x 0))" "even (pop ?w)"
    by (intro pop_pairs_even weave_pairs(2) ecc_base_diff(1) [OF assms(5,3)]; simp)+
  have "pop (weave ?x ?x 4) + pop (weave ?x ?x 0) + pop ?w \<noteq> 0"
  proof
    assume "pop (weave ?x ?x 4) + pop (weave ?x ?x 0) + pop ?w = 0"
    then have z: "weave ?x ?x 4 = 0" "weave ?x ?x 0 = 0" "?w = 0" by (simp_all add: pop_0)
    have "?x = 0"
    proof (rule u8_eqI)
      fix n :: nat
      assume "n < 8"
      then show "bit ?x n = bit (0 :: u8) n"
        using bit_weave [of "2 * (n - 4)" ?x ?x 4] bit_weave [of "2 * n" ?x ?x 0]
        unfolding z by (cases "n < 4") simp_all
    qed
    then have "of_nat j' = (of_nat j :: u8)" by (metis xor.right_neutral xor_self_eq xor.assoc)
    then have "unat (of_nat j' :: u8) = unat (of_nat j :: u8)" by simp
    then have "j' = j" using assms(2,4) by (simp add: unsigned_of_nat take_bit_nat_eq_self)
    moreover have "k' = k" using z(3) ecc_base_diff(2) [OF assms(5,3)] by simp
    ultimately show False using assms(6) by simp
  qed
  then show ?thesis
    unfolding c r using even weave_pairs(2) [of 4 ?x]
    by (subst not_correctable [OF _ refl refl refl]) auto
qed

theorem nand_ecc_detects_two_bits_witness:
  "\<exists>bad. fst (nand_correct_data bad (nand_page_ECC (replicate 256 7)) (nand_page_ECC bad)) = -1"
  using nand_ecc_detects_two_bits [of "replicate 256 7" 3 1 3 2]
  by (intro exI [of _ "flip_at 3 1 (flip_at 3 2 (replicate 256 7))"]) simp

end
