(* ===== verification/Nand.thy ===== *)
theory Nand
  imports NandEcc SysMalloc
begin

text \<open>
  The NAND driver, \<open>src/src/bsp/flash/flash_nand.c\<close> with its table \<open>flash_nand_parts.h\<close>, and the
  flash interface over it, \<open>flash_drv.c\<close>, in the modelled configuration: software error correction
  (\<open>NandEcc\<close>), direct mode (\<open>BOARD_SUPPORT_NAND_INDIRECT\<close> is not defined).

  The chip is a parameter.  \<open>nand_hw\<close> gives, over a state \<open>'c\<close> of the chip: the bytes the window
  delivers when a number of them is read in sequence from an address, the effect of a sequence of
  writes, the effect of the erase command (with the value of the count register), one poll of the
  status, the identification.  The driver's page buffers are lists; the function pointers that
  \<open>flash_hwr_init\<close> stores in \<open>flash_info\<close> are called directly.
\<close>

section \<open>Constants and devices\<close>

definition PASS :: int where "PASS = 1"
definition FAIL :: int where "FAIL = 2"

definition FLASH_ERR_OK :: int where "FLASH_ERR_OK = 0"
definition FLASH_ERR_ERASE :: int where "FLASH_ERR_ERASE = 2"
definition FLASH_ERR_PROGRAM :: int where "FLASH_ERR_PROGRAM = 4"
definition FLASH_ERR_NOT_INIT :: int where "FLASH_ERR_NOT_INIT = 7"
definition FLASH_ERR_HWR :: int where "FLASH_ERR_HWR = 8"
definition FLASH_ERR_DRV_WRONG_PART :: int where "FLASH_ERR_DRV_WRONG_PART = 13"
definition FLASH_ERR_MAX :: int where "FLASH_ERR_MAX = 15"

definition PAGE512_SIZE :: u32 where "PAGE512_SIZE = 0x200"
definition PAGE512_OOB_SIZE :: u32 where "PAGE512_OOB_SIZE = 0x10"
definition PAGE512_RAW_SIZE :: u32 where "PAGE512_RAW_SIZE = 0x210"
definition PAGE2K_OOB_SIZE :: u32 where "PAGE2K_OOB_SIZE = 0x40"
definition PAGE2K_RAW_SIZE :: u32 where "PAGE2K_RAW_SIZE = 0x840"
definition STS_WP :: u8 where "STS_WP = 0x80"
definition STS_READY :: u8 where "STS_READY = 0x40"
definition STS_TRUE_READY :: u8 where "STS_TRUE_READY = 0x40"
definition SL2312_FLASH_BASE :: u32 where "SL2312_FLASH_BASE = 0x30000000"
definition CYGNUM_FLASH_VENDOR_TOSHIBA :: u8 where "CYGNUM_FLASH_VENDOR_TOSHIBA = 0x98"
definition CYGNUM_FLASH_VENDOR_SAMSUNG :: u8 where "CYGNUM_FLASH_VENDOR_SAMSUNG = 0xec"
definition CYGNUM_FLASH_VENDOR_STMICRO :: u8 where "CYGNUM_FLASH_VENDOR_STMICRO = 0x20"

definition nand_oob_16 :: "nat list" where "nand_oob_16 = [8, 9, 10, 13, 14, 15]"

definition nand_oob_64 :: "nat list" where
  "nand_oob_64 = [40, 41, 42, 43, 44, 45, 46, 47, 48, 49, 50, 51, 52, 53, 54, 55, 56, 57, 58, 59, 60, 61, 62, 63]"

record flash_dev =
  device_id :: u8
  vendor_id :: u8
  extid :: u8
  block_size :: u32
  page_size :: u32
  block_count :: u32
  base_mask :: u32
  device_size :: u32

definition flash_part :: "u8 \<Rightarrow> u8 \<Rightarrow> u8 \<Rightarrow> u32 \<Rightarrow> u32 \<Rightarrow> u32 \<Rightarrow> u32 \<Rightarrow> flash_dev" where
  "flash_part d v e bs ps n sz =
     \<lparr>device_id = d, vendor_id = v, extid = e, block_size = bs, page_size = ps, block_count = n,
      base_mask = NOT (sz - 1), device_size = sz\<rparr>"

definition supported_devices :: "flash_dev list" where
  "supported_devices = [
    flash_part 0xe6 0xec 0 0x2000 0x200 1024 0x800000,
    flash_part 0x6d 0xec 0 0x2000 0x200 1024 0x800000,
    flash_part 0x70 0xec 0 0x2000 0x200 1024 0x800000,
    flash_part 0x39 0xec 0 0x2000 0x200 1024 0x800000,
    flash_part 0x73 0xec 0 0x4000 0x200 1024 0x1000000,
    flash_part 0xf2 0xec 0 0x4000 0x200 1024 0x1000000,
    flash_part 0x33 0xec 0 0x4000 0x200 1024 0x1000000,
    flash_part 0x53 0xec 0 0x4000 0x200 1024 0x1000000,
    flash_part 0xf4 0xec 0 0x4000 0x200 2048 0x2000000,
    flash_part 0x75 0xec 0 0x4000 0x200 2048 0x2000000,
    flash_part 0x35 0xec 0 0x4000 0x200 2048 0x2000000,
    flash_part 0x45 0xec 0 0x4000 0x200 2048 0x2000000,
    flash_part 0x55 0xec 0 0x4000 0x200 2048 0x2000000,
    flash_part 0xf7 0xec 2 0x4000 0x200 4096 0x4000000,
    flash_part 0x76 0xec 2 0x4000 0x200 4096 0x4000000,
    flash_part 0x36 0xec 2 0x4000 0x200 4096 0x4000000,
    flash_part 0x56 0xec 2 0x4000 0x200 4096 0x4000000,
    flash_part 0xf8 0xec 2 0x4000 0x200 8192 0x8000000,
    flash_part 0x79 0xec 2 0x4000 0x200 8192 0x8000000,
    flash_part 0x78 0xec 2 0x4000 0x200 8192 0x8000000,
    flash_part 0x74 0xec 2 0x4000 0x200 8192 0x8000000,
    flash_part 0xb1 0xec 2 0x4000 0x200 8192 0x8000000,
    flash_part 0xc1 0xec 2 0x4000 0x200 8192 0x8000000,
    flash_part 0xa1 0xec 2 0x20000 0x800 1024 0x8000000,
    flash_part 0xf1 0xec 2 0x20000 0x800 1024 0x8000000,
    flash_part 0xda 0xec 2 0x20000 0x800 2048 0x10000000,
    flash_part 0xd3 0x20 3 0x40000 0x800 4096 0x40000000]"

section \<open>State\<close>

record 'c nand_hw =
  read_window :: "'c \<Rightarrow> addr \<Rightarrow> nat \<Rightarrow> u8 list"
  write_window :: "addr \<Rightarrow> u8 list \<Rightarrow> 'c \<Rightarrow> 'c"
  erase_cmd :: "u32 \<Rightarrow> u32 \<Rightarrow> 'c \<Rightarrow> 'c"
  read_status :: "'c \<Rightarrow> u8 \<times> 'c"
  read_id :: "'c \<Rightarrow> u8 \<times> u8"

record flash_info_t =
  fi_init :: bool
  fi_vendor :: u32
  fi_chip_id :: u32
  fi_block_size :: u32
  fi_blocks :: u32
  fi_block_mask :: u32
  fi_start :: addr
  fi_end :: addr

record 'c nand =
  chip :: 'c
  dev :: flash_dev
  flash_info :: flash_info_t
  info_flash :: "u32 list"
  tmp_buf :: "u8 list"
  wt_buff :: "u8 list"
  oob :: "u8 list"
  dev_oob :: "u8 list"
  nand_present :: bool
  nand_heap :: heap

definition oob_size :: "flash_dev \<Rightarrow> u32" where
  "oob_size d = PAGE512_OOB_SIZE * page_size d div PAGE512_SIZE"

definition oob_places :: "u32 \<Rightarrow> nat list" where
  "oob_places n = (if n > PAGE512_OOB_SIZE then nand_oob_64 else nand_oob_16)"

text \<open>\<open>StatusCheck\<close> polls until the status is the ready value or five other values were seen; a
  status of zero is polled again whatever the count is.\<close>

partial_function (option) status_loop :: "'c nand_hw \<Rightarrow> u8 \<Rightarrow> u8 \<Rightarrow> 'c \<Rightarrow> (int \<times> 'c) option" where
  "status_loop hw ready cnt c =
     (let (status, c) = read_status hw c in
      if status = 0 then status_loop hw ready (cnt - 1) c
      else if status \<noteq> ready \<and> cnt > 0 then status_loop hw ready (cnt - 1) c
      else Some (if status = ready then PASS else FAIL, c))"

definition StatusCheck :: "'c nand_hw \<Rightarrow> 'c nand \<Rightarrow> (int \<times> 'c nand) option" where
  "StatusCheck hw st =
     map_option (\<lambda>(r, c). (r, st\<lparr>chip := c\<rparr>))
       (status_loop hw
         (if page_size (dev st) < PAGE512_RAW_SIZE then STS_WP OR STS_READY
          else STS_WP OR STS_READY OR STS_TRUE_READY) 5 (chip st))"

section \<open>Pages\<close>

text \<open>The correction loop of \<open>pageread\<close>: blocks left, index into the data, index into the table of the
  code's places, the page, the copy of the spare area.\<close>

fun ecc_read_loop ::
  "nat \<Rightarrow> nat \<Rightarrow> nat \<Rightarrow> nat list \<Rightarrow> u8 list \<Rightarrow> u8 list \<Rightarrow> bool \<times> u8 list \<times> u8 list" where
  "ecc_read_loop 0 datidx eccidx oobsel page spare = (True, page, spare)"
| "ecc_read_loop (Suc n) datidx eccidx oobsel page spare =
     (let dat = take 256 (drop datidx page); k = oobsel ! eccidx;
          (r, dat, e0, e1, e2) = nand_correct_data dat (spare ! k, spare ! (k + 1), spare ! (k + 2)) (nand_page_ECC dat);
          page = take datidx page @ dat @ drop (datidx + 256) page;
          spare = spare[k := e0, k + 1 := e1, k + 2 := e2]
      in if r = -1 then (False, page, spare)
         else ecc_read_loop n (datidx + 256) (eccidx + 3) oobsel page spare)"

definition pageread :: "'c nand_hw \<Rightarrow> addr \<Rightarrow> 'c nand \<Rightarrow> int \<times> u8 list \<times> 'c nand" where
  "pageread hw a st =
     (let n = unat (page_size (dev st)); osz = unat (ucast (oob_size (dev st)) :: u8);
          page = read_window hw (chip st) a (n + osz);
          spare = take osz (drop n page) @ drop osz (dev_oob st);
          (ok, page, spare) = ecc_read_loop (n div 256) 0 0 (oob_places (of_nat osz)) page spare
      in (if ok then PASS else FAIL, page, st\<lparr>dev_oob := spare\<rparr>))"

fun ecc_write_loop :: "nat \<Rightarrow> nat \<Rightarrow> nat \<Rightarrow> nat list \<Rightarrow> u8 list \<Rightarrow> u8 list \<Rightarrow> u8 list" where
  "ecc_write_loop 0 datidx eccidx oobsel data spare = spare"
| "ecc_write_loop (Suc n) datidx eccidx oobsel data spare =
     (let (e0, e1, e2) = nand_page_ECC (take 256 (drop datidx data))
      in ecc_write_loop n (datidx + 256) (eccidx + 3) oobsel data
           (spare[oobsel ! eccidx := e0, oobsel ! (eccidx + 1) := e1, oobsel ! (eccidx + 2) := e2]))"

definition page_code :: "u8 list \<Rightarrow> 'c nand \<Rightarrow> u8 list" where
  "page_code data st =
     (let n = unat (page_size (dev st)); osz = unat (oob_size (dev st))
      in ecc_write_loop (n div 256) 0 0 (oob_places (oob_size (dev st))) data
           (replicate osz 0xff @ drop osz (oob st)))"

definition pagewrite :: "'c nand_hw \<Rightarrow> addr \<Rightarrow> u8 list \<Rightarrow> 'c nand \<Rightarrow> (int \<times> 'c nand) option" where
  "pagewrite hw a data st =
     (let n = unat (page_size (dev st)); osz = unat (oob_size (dev st));
          st = st\<lparr>oob := page_code data st\<rparr>;
          st = st\<lparr>chip := write_window hw a (take n data @ take osz (oob st)) (chip st)\<rparr>
      in Option.bind (StatusCheck hw st) (\<lambda>(r, st).
           (let err = (if r = FAIL then FLASH_ERR_PROGRAM else PASS);
                (_, page, st) = pageread hw a st;
                st = st\<lparr>tmp_buf := page @ drop (length page) (tmp_buf st)\<rparr>;
                err = (if take n data \<noteq> take n (tmp_buf st) then FAIL else err)
            in Some (if err \<noteq> PASS then FAIL else PASS, st))))"

section \<open>Blocks\<close>

definition flash_erase_block :: "'c nand_hw \<Rightarrow> addr \<Rightarrow> 'c nand \<Rightarrow> (int \<times> 'c nand) option" where
  "flash_erase_block hw block st =
     (let d = dev st; page_add = block div page_size d;
          cnt = (if block_count d * (block_size d div page_size d) > 0x10000 then 0x7f0fff21 else 0x7f0fff11);
          st = st\<lparr>chip := erase_cmd hw cnt page_add (chip st)\<rparr>
      in map_option (\<lambda>(r, st). (if r \<noteq> FAIL then FLASH_ERR_OK else FLASH_ERR_ERASE, st)) (StatusCheck hw st))"

definition mark_place :: "flash_dev \<Rightarrow> nat" where
  "mark_place d = (if oob_size d > PAGE512_OOB_SIZE then 0 else 5)"

text \<open>\<open>VeffBad\<close> looks at the first \<open>k\<close> pages of a block, two in the code.  Its argument is 64 bits
  wide.\<close>

fun veff_loop :: "'c nand_hw \<Rightarrow> nat \<Rightarrow> u64 \<Rightarrow> 'c nand \<Rightarrow> int \<times> 'c nand" where
  "veff_loop hw 0 page_add st = (PASS, st)"
| "veff_loop hw (Suc k) page_add st =
     (let n = unat (page_size (dev st)); osz = unat (oob_size (dev st));
          page_add = (if page_add < 0x30000000 then page_add + 0x30000000 else page_add);
          st = st\<lparr>tmp_buf := read_window hw (chip st) (ucast page_add) (n + osz) @ drop (n + osz) (tmp_buf st)\<rparr>
      in if tmp_buf st ! (n + mark_place (dev st)) = 0xff
         then veff_loop hw k (page_add + ucast (page_size (dev st))) st
         else (FAIL, st))"

definition VeffBad :: "'c nand_hw \<Rightarrow> addr \<Rightarrow> 'c nand \<Rightarrow> int \<times> 'c nand" where
  "VeffBad hw page_add st = veff_loop hw 2 (ucast page_add) st"

text \<open>\<open>nand_block_markbad\<close> prepares the marker in \<open>wt_buff\<close> and writes \<open>tmp_buf\<close>.\<close>

fun mark_loop :: "'c nand_hw \<Rightarrow> nat \<Rightarrow> u64 \<Rightarrow> 'c nand \<Rightarrow> 'c nand" where
  "mark_loop hw 0 page_add st = st"
| "mark_loop hw (Suc k) page_add st =
     (let n = unat (page_size (dev st)); osz = unat (oob_size (dev st));
          oobp = ucast page_add + (if page_add < 0x30000000 then SL2312_FLASH_BASE else 0);
          st = st\<lparr>chip := write_window hw oobp (take (n + osz) (tmp_buf st)) (chip st)\<rparr>
      in mark_loop hw k (page_add + ucast (page_size (dev st))) st)"

definition nand_block_markbad :: "'c nand_hw \<Rightarrow> addr \<Rightarrow> 'c nand \<Rightarrow> (int \<times> 'c nand) option" where
  "nand_block_markbad hw page_add st =
     (let n = unat (page_size (dev st)); osz = unat (oob_size (dev st));
          st = st\<lparr>wt_buff := (replicate (n + osz) 0xff)[n + mark_place (dev st) := 0] @ drop (n + osz) (wt_buff st)\<rparr>;
          st = mark_loop hw 2 (ucast page_add) st
      in map_option (\<lambda>(r, st). (PASS, st)) (StatusCheck hw st))"

partial_function (option) flash_program_buf ::
  "'c nand_hw \<Rightarrow> addr \<Rightarrow> u8 list \<Rightarrow> 'c nand \<Rightarrow> (int \<times> 'c nand) option" where
  "flash_program_buf hw paddr pdata st =
     (if pdata = [] then Some (FLASH_ERR_OK, st)
      else
        (let n = unat (page_size (dev st)); short = length pdata < n;
             st = (if short then st\<lparr>wt_buff := pdata @ replicate (unat PAGE2K_RAW_SIZE - length pdata) 0xff\<rparr> else st);
             size = (if short then length pdata else n)
         in Option.bind (pagewrite hw paddr (if short then wt_buff st else pdata) st) (\<lambda>(r, st).
              if r \<noteq> PASS then Some (FLASH_ERR_PROGRAM, st)
              else flash_program_buf hw (paddr + of_nat size) (drop size pdata) st)))"

partial_function (option) skip_bad :: "'c nand_hw \<Rightarrow> addr \<Rightarrow> 'c nand \<Rightarrow> (addr \<times> 'c nand) option" where
  "skip_bad hw a st =
     (if a AND (block_size (dev st) - 1) = 0 then
        (let (r, st) = VeffBad hw a st in
         if r = FAIL then skip_bad hw (a + fi_block_size (flash_info st)) st else Some (a, st))
      else Some (a, st))"

partial_function (option) flash_read_buf ::
  "'c nand_hw \<Rightarrow> addr \<Rightarrow> addr \<Rightarrow> nat \<Rightarrow> mem \<Rightarrow> 'c nand \<Rightarrow> (int \<times> mem \<times> 'c nand) option" where
  "flash_read_buf hw a pbuff len m st =
     (if len = 0 then Some (FLASH_ERR_OK, m, st)
      else
        Option.bind (skip_bad hw a st) (\<lambda>(a, st).
        Option.bind (StatusCheck hw st) (\<lambda>(r, st).
          if r \<noteq> FAIL then
            (let (r, page, st) = pageread hw a st in
             if r \<noteq> PASS then Some (FLASH_ERR_HWR, m, st)
             else
               (let n = unat (page_size (dev st));
                    m = put_bytes m pbuff (take (min len n) page);
                    len = len - min len n;
                    step = of_nat (min len n)
                in flash_read_buf hw (a + step) (pbuff + step) len m st))
          else flash_read_buf hw a pbuff len m st)))"

text \<open>Raw pages, spare area included, for file system images.\<close>

definition pagereadfs :: "'c nand_hw \<Rightarrow> addr \<Rightarrow> 'c nand \<Rightarrow> int \<times> u8 list" where
  "pagereadfs hw page_add st =
     (PASS, read_window hw (chip st) page_add (unat (page_size (dev st)) + unat (ucast (oob_size (dev st)) :: u8)))"

definition pagewritefs ::
  "'c nand_hw \<Rightarrow> addr \<Rightarrow> u8 list \<Rightarrow> bool \<Rightarrow> 'c nand \<Rightarrow> (int \<times> 'c nand) option" where
  "pagewritefs hw a data verify st =
     (let n = unat (page_size (dev st)); osz = unat (oob_size (dev st));
          st = st\<lparr>oob := replicate osz 0xff @ drop osz (oob st)\<rparr>;
          st = st\<lparr>chip := write_window hw a (take (n + osz) data) (chip st)\<rparr>
      in Option.bind (StatusCheck hw st) (\<lambda>(r, st).
           if verify then
             (let err = (if r = FAIL then FLASH_ERR_PROGRAM else PASS);
                  (_, page) = pagereadfs hw (a * page_size (dev st)) st;
                  st = st\<lparr>tmp_buf := page @ drop (length page) (tmp_buf st)\<rparr>;
                  err = (if take (n + osz) data \<noteq> take (n + osz) (tmp_buf st) then FAIL else err)
              in Some (if err \<noteq> PASS then FAIL else PASS, st))
           else Some (PASS, st)))"

partial_function (option) flash_fs_nand_program ::
  "'c nand_hw \<Rightarrow> addr \<Rightarrow> u8 list \<Rightarrow> 'c nand \<Rightarrow> (int \<times> 'c nand) option" where
  "flash_fs_nand_program hw paddr pdata st =
     (if pdata = [] then Some (FLASH_ERR_OK, st)
      else
        (let n = unat (if page_size (dev st) > PAGE512_SIZE then PAGE2K_RAW_SIZE else PAGE512_RAW_SIZE);
             short = length pdata < n;
             st = (if short then st\<lparr>wt_buff := pdata @ replicate (unat PAGE2K_RAW_SIZE - length pdata) 0xff\<rparr> else st);
             size = (if short then length pdata else n)
         in Option.bind (pagewritefs hw paddr (if short then wt_buff st else pdata) True st) (\<lambda>(r, st).
              if r \<noteq> PASS then Some (FLASH_ERR_PROGRAM, st)
              else flash_fs_nand_program hw (paddr + page_size (dev st)) (drop size pdata) st)))"

section \<open>The flash interface\<close>

text \<open>\<open>flash_hwr_init\<close>: the identification, the table, the buffers.  Fresh buffers hold what the heap
  held there, \<open>junk\<close>.\<close>

definition flash_hwr_init ::
  "'c nand_hw \<Rightarrow> mem_info \<Rightarrow> (nat \<Rightarrow> u8 list) \<Rightarrow> 'c nand \<Rightarrow> (int \<times> 'c nand) option" where
  "flash_hwr_init hw mi junk st =
     (let (m_code, d_code) = read_id hw (chip st) in
      if m_code \<noteq> CYGNUM_FLASH_VENDOR_TOSHIBA \<and> m_code \<noteq> CYGNUM_FLASH_VENDOR_SAMSUNG \<and>
         m_code \<noteq> CYGNUM_FLASH_VENDOR_STMICRO
      then Some (FLASH_ERR_DRV_WRONG_PART, st)
      else
        (case List.find (\<lambda>d. device_id d = d_code \<and> vendor_id d = m_code) supported_devices of
           None \<Rightarrow> Some (FLASH_ERR_DRV_WRONG_PART, st)
         | Some d \<Rightarrow>
             (let spare = (if page_size d > PAGE512_SIZE then PAGE2K_OOB_SIZE else PAGE512_OOB_SIZE);
                  st = st\<lparr>dev := d, nand_present := True,
                    info_flash := (info_flash st)[1 := drop_bit 20 (device_size d), 2 := block_count d,
                      3 := block_size d div page_size d, 5 := page_size d, 4 := page_size d + spare, 6 := spare],
                    flash_info := (flash_info st)\<lparr>fi_block_size := block_size d, fi_blocks := block_count d,
                      fi_start := SL2312_FLASH_BASE, fi_end := SL2312_FLASH_BASE + device_size d,
                      fi_vendor := ucast m_code, fi_chip_id := ucast d_code\<rparr>\<rparr>
              in Option.bind (sys_malloc mi PAGE512_SIZE (nand_heap st)) (\<lambda>(p1, h).
                 Option.bind (sys_malloc mi PAGE2K_RAW_SIZE h) (\<lambda>(p2, h).
                 Option.bind (sys_malloc mi PAGE2K_RAW_SIZE h) (\<lambda>(p3, h).
                 Option.bind (sys_malloc mi PAGE2K_OOB_SIZE h) (\<lambda>(p4, h).
                 Option.bind (sys_malloc mi PAGE2K_OOB_SIZE h) (\<lambda>(p5, h).
                   Some (if p1 = 0 \<or> p2 = 0 \<or> p3 = 0 \<or> p4 = 0 \<or> p5 = 0 then 1 else FLASH_ERR_OK,
                     st\<lparr>nand_heap := h, tmp_buf := junk 0x840, wt_buff := junk 0x840, dev_oob := junk 0x40,
                       oob := junk 0x40\<rparr>)))))))))"

text \<open>\<open>flash_init\<close> picks the first routine by the strapping bits of the flash control register and goes
  on through the table while the part is the wrong one.  The other three routines are arguments.\<close>

fun init_loop :: "('s \<Rightarrow> (int \<times> 's) option) list \<Rightarrow> int \<Rightarrow> 's \<Rightarrow> (int \<times> 's) option" where
  "init_loop [] err st = Some (err, st)"
| "init_loop (r # rs) err st =
     (if err = FLASH_ERR_DRV_WRONG_PART then
        Option.bind (r st) (\<lambda>(err, st). if err = FLASH_ERR_OK then Some (err, st) else init_loop rs err st)
      else Some (err, st))"

definition first_routine :: "u32 \<Rightarrow> nat" where
  "first_routine reg =
     (let value = reg AND 0x1f00 in
      if value AND 0x1000 = 0x1000 then 1 else if value AND 0x1800 = 0x800 then 0
      else if value AND 0x1c00 = 0x400 then 3 else if value AND 0x1c00 = 0 then 2 else 0)"

definition flash_init ::
  "(('c nand \<Rightarrow> (int \<times> 'c nand) option) list) \<Rightarrow> u32 \<Rightarrow> 'c nand \<Rightarrow> (int \<times> 'c nand) option" where
  "flash_init routines reg st =
     (let st = st\<lparr>flash_info := \<lparr>fi_init = False, fi_vendor = 0, fi_chip_id = 0, fi_block_size = 0, fi_blocks = 0,
            fi_block_mask = 0, fi_start = 0, fi_end = 0\<rparr>\<rparr>
      in map_option (\<lambda>(err, st).
           if err \<noteq> 0 then (err, st)
           else (FLASH_ERR_OK, st\<lparr>flash_info := (flash_info st)\<lparr>fi_init := True,
                  fi_block_mask := NOT (fi_block_size (flash_info st) - 1)\<rparr>\<rparr>))
         (init_loop (drop (first_routine reg) routines) FLASH_ERR_DRV_WRONG_PART st))"

definition flash_get_block_info :: "'c nand \<Rightarrow> u32 \<times> u32" where
  "flash_get_block_info st = (fi_block_size (flash_info st), fi_blocks (flash_info st))"

text \<open>Each loop returns the status and the address of the error.\<close>

partial_function (option) erase_loop ::
  "'c nand_hw \<Rightarrow> addr \<Rightarrow> addr \<Rightarrow> int \<Rightarrow> addr \<Rightarrow> 'c nand \<Rightarrow> (int \<times> addr \<times> 'c nand) option" where
  "erase_loop hw block end_addr stat err_addr st =
     (if block < end_addr then
        Option.bind (flash_erase_block hw block st) (\<lambda>(stat, st).
          if stat \<noteq> 0 then Some (stat, block, st)
          else erase_loop hw (block + fi_block_size (flash_info st)) end_addr stat err_addr st)
      else Some (stat, err_addr, st))"

definition flash_erase ::
  "'c nand_hw \<Rightarrow> addr \<Rightarrow> u32 \<Rightarrow> addr \<Rightarrow> 'c nand \<Rightarrow> (int \<times> addr \<times> 'c nand) option" where
  "flash_erase hw addr n err_addr st =
     (if \<not> fi_init (flash_info st) then Some (FLASH_ERR_NOT_INIT, err_addr, st)
      else erase_loop hw (addr AND fi_block_mask (flash_info st)) (addr + n) 0 addr st)"

partial_function (option) program_pieces ::
  "'c nand_hw \<Rightarrow> addr \<Rightarrow> u8 list \<Rightarrow> int \<Rightarrow> addr \<Rightarrow> 'c nand \<Rightarrow> (int \<times> addr \<times> 'c nand) option" where
  "program_pieces hw addr data stat err_addr st =
     (if data = [] then Some (stat, err_addr, st)
      else
        (let bs = unat (fi_block_size (flash_info st));
             size = min (length data) bs;
             over = unat (addr AND NOT (fi_block_mask (flash_info st)));
             size = (if over \<noteq> 0 then min size (bs - over) else size)
         in Option.bind (flash_program_buf hw addr (take size data) st) (\<lambda>(stat, st).
              if stat \<noteq> 0 then Some (stat, addr, st)
              else program_pieces hw (addr + of_nat size) (drop size data) stat err_addr st)))"

text \<open>\<open>flash_program\<close> stores its own uninitialised \<open>addr\<close> as the error address, here \<open>stale\<close>.\<close>

definition flash_program ::
  "'c nand_hw \<Rightarrow> addr \<Rightarrow> u8 list \<Rightarrow> addr \<Rightarrow> 'c nand \<Rightarrow> (int \<times> addr \<times> 'c nand) option" where
  "flash_program hw addr data stale st =
     (if \<not> fi_init (flash_info st) then Some (FLASH_ERR_NOT_INIT, stale, st)
      else program_pieces hw addr data 0 stale st)"

text \<open>\<open>flash_nand_program\<close>: the search for a good block, which gives up behind \<open>bound\<close>; one block, moved
  on when it cannot be erased or programmed; the loop over the blocks.\<close>

partial_function (option) veff_skip ::
  "'c nand_hw \<Rightarrow> addr \<Rightarrow> addr \<Rightarrow> 'c nand \<Rightarrow> (bool \<times> addr \<times> 'c nand) option" where
  "veff_skip hw addr bound st =
     (let (r, st) = VeffBad hw addr st in
      if r = FAIL then
        (let addr = addr + fi_block_size (flash_info st) in
         if addr > bound then Some (False, addr, st) else veff_skip hw addr bound st)
      else Some (True, addr, st))"

partial_function (option) program_block ::
  "'c nand_hw \<Rightarrow> addr \<Rightarrow> u8 list \<Rightarrow> addr \<Rightarrow> int \<Rightarrow> addr \<Rightarrow> 'c nand \<Rightarrow> (bool \<times> addr \<times> int \<times> addr \<times> 'c nand) option" where
  "program_block hw addr data bound stat err_addr st =
     Option.bind (if addr AND (fi_block_size (flash_info st) - 1) = 0 then veff_skip hw addr bound st
                  else Some (True, addr, st)) (\<lambda>(ok, addr, st).
       if \<not> ok then Some (False, addr, stat, err_addr, st)
       else
         Option.bind (flash_erase_block hw addr st) (\<lambda>(stat, st).
           if stat \<noteq> 0 then
             Option.bind (nand_block_markbad hw addr st) (\<lambda>(_, st).
               program_block hw (addr + fi_block_size (flash_info st)) data bound stat addr st)
           else
             Option.bind (flash_program_buf hw addr data st) (\<lambda>(stat, st).
               if stat \<noteq> 0 then
                 Option.bind (nand_block_markbad hw addr st) (\<lambda>(_, st).
                   program_block hw (addr + fi_block_size (flash_info st)) data bound stat addr st)
               else Some (True, addr, stat, err_addr, st))))"

partial_function (option) program_loop ::
  "'c nand_hw \<Rightarrow> addr \<Rightarrow> u8 list \<Rightarrow> addr \<Rightarrow> int \<Rightarrow> addr \<Rightarrow> 'c nand \<Rightarrow> (int \<times> addr \<times> 'c nand) option" where
  "program_loop hw addr data bound stat err_addr st =
     (if data = [] then Some (stat, err_addr, st)
      else
        (let size = min (length data) (unat (fi_block_size (flash_info st)))
         in Option.bind (program_block hw addr (take size data) bound stat err_addr st) (\<lambda>(ok, addr, stat, err_addr, st).
              if \<not> ok then Some (stat, err_addr, st)
              else program_loop hw (addr + of_nat size) (drop size data) bound stat err_addr st)))"

definition flash_nand_program ::
  "'c nand_hw \<Rightarrow> addr \<Rightarrow> u8 list \<Rightarrow> addr \<Rightarrow> u32 \<Rightarrow> 'c nand \<Rightarrow> (int \<times> addr \<times> 'c nand) option" where
  "flash_nand_program hw addr data err_addr bound st =
     (if \<not> fi_init (flash_info st) then Some (FLASH_ERR_NOT_INIT, err_addr, st)
      else program_loop hw addr data (bound + addr) 0 addr st)"

definition flash_err_msg :: "string list" where
  "flash_err_msg =
    [''OK'', ''Invalid FLASH address'', ''Error to erase'', ''Error to lock/unlock'', ''Error to program'',
     ''Generic error'', ''Device/region is write-protected'', ''FLASH is not yet initialized'',
     ''Hardware (configuration?) problem'', ''Device is in erase suspend mode'',
     ''Device is in in program suspend mode'', ''Failed to verify data'', ''Driver timed out waiting for device'',
     ''Driver does not support device'', ''Low voltage to complete job'']"

definition flash_errmsg :: "nat \<Rightarrow> string" where
  "flash_errmsg err = (if int err \<ge> FLASH_ERR_MAX then ''Unknown error!'' else flash_err_msg ! err)"

section \<open>A page survives single errors\<close>

definition chunk :: "nat \<Rightarrow> u8 list \<Rightarrow> u8 list" where
  "chunk d xs = take 256 (drop d xs)"

definition triples :: "nat list \<Rightarrow> nat \<Rightarrow> nat \<Rightarrow> bool" where
  "triples P n osz \<longleftrightarrow> length P = 3 * n \<and> distinct P \<and> (\<forall>p\<in>set P. p < osz) \<and>
     (\<forall>i<n. P ! (3 * i + 1) = P ! (3 * i) + 1 \<and> P ! (3 * i + 2) = P ! (3 * i) + 2)"

definition code_at :: "nat list \<Rightarrow> nat \<Rightarrow> u8 list \<Rightarrow> u8 \<times> u8 \<times> u8" where
  "code_at P i spare = (spare ! (P ! (3 * i)), spare ! (P ! (3 * i + 1)), spare ! (P ! (3 * i + 2)))"

lemma triples_16: "triples nand_oob_16 2 16"
  by (simp add: triples_def nand_oob_16_def less_Suc_eq numeral_eq_Suc)

lemma triples_64: "triples nand_oob_64 8 64"
  by (simp add: triples_def nand_oob_64_def less_Suc_eq numeral_eq_Suc)

lemma length_ecc_write_loop [simp]: "length (ecc_write_loop n d e P data spare) = length spare"
  by (induction n d e P data spare rule: ecc_write_loop.induct) (simp_all split: prod.splits)

lemma ecc_write_loop_code:
  assumes "triples P m osz" and "osz \<le> length spare" and "i + n = m" and "j < m"
  shows "code_at P j (ecc_write_loop n (256 * i) (3 * i) P data spare) =
    (if i \<le> j then nand_page_ECC (chunk (256 * j) data) else code_at P j spare)"
  using assms(2,3)
proof (induction n arbitrary: i spare)
  case (Suc n)
  obtain e0 e1 e2 where e: "nand_page_ECC (take 256 (drop (256 * i) data)) = (e0, e1, e2)" by (metis prod.exhaust)
  let ?s = "spare[P ! (3 * i) := e0, P ! (3 * i + 1) := e1, P ! (3 * i + 2) := e2]"
  have lP: "length P = 3 * m" and dP: "distinct P" and bP: "\<And>k. k < 3 * m \<Longrightarrow> P ! k < length spare"
    using assms(1) Suc.prems(1) by (auto simp: triples_def intro: order.strict_trans2)
  have ne: "P ! a = P ! b \<longleftrightarrow> a = b" if "a < 3 * m" "b < 3 * m" for a b
    using dP that by (simp add: lP nth_eq_iff_index_eq)
  have "code_at P j ?s = (if i = j then (e0, e1, e2) else code_at P j spare)"
    using Suc.prems(2) assms(4) bP [of "3 * i"] bP [of "3 * i + 1"] bP [of "3 * i + 2"]
    by (auto simp: code_at_def nth_list_update ne)
  moreover have "ecc_write_loop (Suc n) (256 * i) (3 * i) P data spare =
      ecc_write_loop n (256 * Suc i) (3 * Suc i) P data ?s"
    by (simp add: e add.commute)
  ultimately show ?case
    using Suc.IH [of ?s "Suc i"] Suc.prems e
    by (cases "i = j") (simp_all add: chunk_def not_le less_Suc_eq_le le_eq_less_or_eq)
qed (use assms(4) in simp)

text \<open>A page has aged when in each block of 256 bytes at most one data bit has changed.\<close>

definition aged :: "u8 list \<Rightarrow> u8 list \<Rightarrow> bool" where
  "aged data data' \<longleftrightarrow> length data' = length data \<and>
     (\<forall>i < length data div 256. chunk (256 * i) data' = chunk (256 * i) data \<or>
        (\<exists>j<256. \<exists>k<8. chunk (256 * i) data' = flip_at j k (chunk (256 * i) data)))"


lemma chunk_aged:
  assumes "aged data data'" and "length data = 256 * m" and "i < m"
  shows "\<exists>r. r \<noteq> -1 \<and> nand_correct_data (chunk (256 * i) data') (nand_page_ECC (chunk (256 * i) data))
     (nand_page_ECC (chunk (256 * i) data')) = (r, chunk (256 * i) data, nand_page_ECC (chunk (256 * i) data))"
proof -
  let ?c = "chunk (256 * i) data" and ?c' = "chunk (256 * i) data'"
  have l: "length ?c = 256" using assms(2,3) by (simp add: chunk_def)
  consider "?c' = ?c" | j k where "j < 256" "k < 8" "?c' = flip_at j k ?c"
    using assms by (auto simp: aged_def)
  then show ?thesis
    by cases (simp_all add: correct_intact correct_flipped [OF l])
qed

lemma ecc_read_loop_aged:
  assumes "triples P m osz" and "osz \<le> length spare" and "length data = 256 * m" and "aged data data'"
    and "\<And>j. j < m \<Longrightarrow> code_at P j spare = nand_page_ECC (chunk (256 * j) data)" and "i + n = m"
  shows "ecc_read_loop n (256 * i) (3 * i) P (take (256 * i) data @ drop (256 * i) data' @ rest) spare =
    (True, data @ rest, spare)"
  using assms(6)
proof (induction n arbitrary: i)
  case 0
  then show ?case using assms(3,4) by (simp add: aged_def)
next
  case (Suc n)
  let ?page = "take (256 * i) data @ drop (256 * i) data' @ rest"
  have l: "length data' = 256 * m" and i: "i < m" using assms(3,4) Suc.prems by (simp_all add: aged_def)
  have len: "min (length data) (256 * i) = 256 * i" using assms(3) i by simp
  have dat: "take 256 (drop (256 * i) ?page) = chunk (256 * i) data'"
    using l i by (simp add: len chunk_def)
  let ?k = "P ! (3 * i)"
  obtain e0 e1 e2 where e: "nand_page_ECC (chunk (256 * i) data) = (e0, e1, e2)" by (metis prod.exhaust)
  have sp: "spare ! ?k = e0" "spare ! (?k + 1) = e1" "spare ! (?k + 2) = e2"
    using assms(1) assms(5) [OF i] i e by (simp_all add: triples_def code_at_def)
  obtain r where r: "r \<noteq> -1" "nand_correct_data (chunk (256 * i) data') (e0, e1, e2)
      (nand_page_ECC (chunk (256 * i) data')) = (r, chunk (256 * i) data, (e0, e1, e2))"
    using chunk_aged [OF assms(4,3) i] e by auto
  have upd: "spare[?k := e0, ?k + 1 := e1, ?k + 2 := e2] = spare"
    using sp by (metis list_update_id)
  have ta: "take (256 * Suc i) data = take (256 * i) data @ take 256 (drop (256 * i) data)"
    by (metis take_add mult_Suc_right add.commute)
  have page: "take (256 * i) ?page @ chunk (256 * i) data @ drop (256 * i + 256) ?page =
      take (256 * Suc i) data @ drop (256 * Suc i) data' @ rest"
    using l i assms(3) ta by (simp add: len chunk_def add.commute)
  have "ecc_read_loop (Suc n) (256 * i) (3 * i) P ?page spare =
      ecc_read_loop n (256 * Suc i) (3 * Suc i) P (take (256 * Suc i) data @ drop (256 * Suc i) data' @ rest) spare"
    unfolding ecc_read_loop.simps Let_def dat sp r(2) prod.case page upd using r(1) by (simp add: add.commute)
  also have "\<dots> = (True, data @ rest, spare)" by (rule Suc.IH) (use Suc.prems in simp)
  finally show ?case .
qed


definition std_page :: "flash_dev \<Rightarrow> bool" where
  "std_page d \<longleftrightarrow> page_size d = 512 \<or> page_size d = 2048"

definition page_spare :: "u8 list \<Rightarrow> 'c nand \<Rightarrow> u8 list" where
  "page_spare data st = take (unat (oob_size (dev st))) (page_code data st)"

lemma std_page_sizes:
  assumes "std_page d"
  obtains m where "m \<in> {2, 8}" "unat (page_size d) = 256 * m" "unat (oob_size d) = 8 * m"
    "unat (ucast (oob_size d) :: u8) = 8 * m" "triples (oob_places (oob_size d)) m (8 * m)"
proof -
  have "page_size d = 512 \<Longrightarrow> thesis"
    by (rule that [of 2]) (simp_all add: oob_size_def PAGE512_OOB_SIZE_def PAGE512_SIZE_def oob_places_def triples_16)
  moreover have "page_size d = 2048 \<Longrightarrow> thesis"
    by (rule that [of 8]) (simp_all add: oob_size_def PAGE512_OOB_SIZE_def PAGE512_SIZE_def oob_places_def triples_64)
  ultimately show thesis using assms by (auto simp: std_page_def)
qed

lemma code_at_take: "triples P m osz \<Longrightarrow> i < m \<Longrightarrow> code_at P i (take osz xs @ ys) = code_at P i xs"
  if "osz \<le> length xs" for xs ys :: "u8 list"
proof -
  assume t: "triples P m osz" and i: "i < m"
  have "P ! k < osz" if "k < 3 * m" for k using t that by (auto simp: triples_def)
  from this [of "3 * i"] this [of "3 * i + 1"] this [of "3 * i + 2"] show ?thesis
    using that i by (simp add: code_at_def nth_append)
qed

lemma pageread_aged:
  assumes "std_page (dev st)" and "dev st0 = dev st" and "length data = unat (page_size (dev st))" and "aged data data'"
    and "read_window hw (chip st) a (length data + unat (oob_size (dev st))) = data' @ page_spare data st0"
  shows "pageread hw a st =
    (PASS, data @ page_spare data st0,
     st\<lparr>dev_oob := page_spare data st0 @ drop (unat (oob_size (dev st))) (dev_oob st)\<rparr>)"
proof -
  obtain m where m: "unat (page_size (dev st)) = 256 * m" "unat (oob_size (dev st)) = 8 * m"
    "unat (ucast (oob_size (dev st)) :: u8) = 8 * m" "triples (oob_places (oob_size (dev st))) m (8 * m)" "m \<in> {2, 8}"
    using assms(1) by (rule std_page_sizes)
  let ?P = "oob_places (oob_size (dev st))" and ?rest = "drop (8 * m) (dev_oob st)"
  have o: "word_of_nat (8 * m) = oob_size (dev st)" using m(2) by (metis of_nat_unat ucast_id)
  have len: "length (page_spare data st0) = 8 * m" "length data' = 256 * m"
    using assms(2-4) m by (auto simp: page_spare_def page_code_def aged_def)
  have code: "code_at ?P j (page_spare data st0 @ ?rest) = nand_page_ECC (chunk (256 * j) data)" if j: "j < m" for j
  proof -
    have "code_at ?P j (ecc_write_loop m (256 * 0) (3 * 0) ?P data (replicate (8 * m) 0xff @ drop (8 * m) (oob st0))) =
        nand_page_ECC (chunk (256 * j) data)"
      by (subst ecc_write_loop_code [OF m(4)]) (use j in simp_all)
    then show ?thesis
      using code_at_take [OF _ m(4) j] assms(2) m(1,2) by (simp add: page_spare_def page_code_def Let_def)
  qed
  have "ecc_read_loop m (256 * 0) (3 * 0) ?P (take (256 * 0) data @ drop (256 * 0) data' @ page_spare data st0)
      (page_spare data st0 @ ?rest) = (True, data @ page_spare data st0, page_spare data st0 @ ?rest)"
    by (rule ecc_read_loop_aged [OF m(4) _ _ assms(4) code]) (use len assms(3) m in simp_all)
  moreover have "read_window hw (chip st) a (256 * m + 8 * m) = data' @ page_spare data st0"
    using assms(3,5) m by simp
  ultimately show ?thesis
    unfolding pageread_def Let_def m(1-3) o using len by simp
qed

text \<open>A chip that is always ready.\<close>

lemma ready_status:
  assumes "\<And>c. read_status hw c = (0xc0, c)"
  shows "StatusCheck hw st = Some (PASS, st)"
  by (simp add: StatusCheck_def status_loop.simps [of hw _ _ "chip st"] assms STS_WP_def STS_READY_def STS_TRUE_READY_def)

text \<open>C4. A page that is written and has aged by the time it is read, by at most one changed bit in
  each block of 256 bytes, is read back as it was written; the write itself, which verifies what it
  wrote by reading, succeeds as well.\<close>

theorem nand_page_roundtrip:
  assumes "std_page (dev st)" and "length data = unat (page_size (dev st))"
    and "\<And>c. read_status hw c = (0xc0, c)" and "aged data data'"
    and "read_window hw (write_window hw a (data @ page_spare data st) (chip st)) a
       (length data + unat (oob_size (dev st))) = data' @ page_spare data st"
  shows "\<exists>st'. pagewrite hw a data st = Some (PASS, st') \<and>
    chip st' = write_window hw a (data @ page_spare data st) (chip st) \<and>
    (\<exists>st''. pageread hw a st' = (PASS, data @ page_spare data st, st''))"
proof -
  define s1 where "s1 = st\<lparr>oob := page_code data st, chip := write_window hw a (data @ page_spare data st) (chip st)\<rparr>"
  have d: "dev s1 = dev st" by (simp add: s1_def)
  have r: "pageread hw a s = (PASS, data @ page_spare data st,
      s\<lparr>dev_oob := page_spare data st @ drop (unat (oob_size (dev s))) (dev_oob s)\<rparr>)"
    if "dev s = dev st" "chip s = chip s1" for s
    using assms that by (intro pageread_aged) (simp_all add: s1_def)
  show ?thesis
    unfolding pagewrite_def Let_def
    using r [of s1] assms(2) ready_status [OF assms(3)]
    by (simp add: page_spare_def s1_def r)
qed


text \<open>A chip of page contents that damages one bit of each page it stores.\<close>

lemma aged_flip_at: "j < length data \<Longrightarrow> k < 8 \<Longrightarrow> aged data (flip_at j k data)"
  unfolding aged_def
proof (intro conjI allI impI)
  fix i assume j: "j < length data" "k < 8" and i: "i < length data div 256"
  show "chunk (256 * i) (flip_at j k data) = chunk (256 * i) data \<or>
      (\<exists>j'<256. \<exists>k'<8. chunk (256 * i) (flip_at j k data) = flip_at j' k' (chunk (256 * i) data))"
  proof (cases "256 * i \<le> j \<and> j < 256 * i + 256")
    case True
    then obtain r where r: "j = 256 * i + r" "r < 256" by (metis le_Suc_ex nat_add_left_cancel_less)
    then have "take 256 (drop (256 * i) data) ! (j - 256 * i) = data ! j" using j by simp
    then have "chunk (256 * i) (flip_at j k data) = flip_at (j - 256 * i) k (chunk (256 * i) data)"
      using j True by (simp add: chunk_def flip_at_def drop_update_swap take_update_swap)
    then show ?thesis using True j by (intro disjI2 exI [of _ "j - 256 * i"] conjI exI [of _ k]) auto
  next
    case False
    then have "chunk (256 * i) (flip_at j k data) = chunk (256 * i) data"
      by (cases "j < 256 * i") (simp_all add: chunk_def flip_at_def drop_update_cancel drop_update_swap take_update_cancel)
    then show ?thesis ..
  qed
qed simp

lemma flip_at_append: "j < length xs \<Longrightarrow> flip_at j k (xs @ ys) = flip_at j k xs @ ys"
  by (simp add: flip_at_def list_update_append nth_append)

definition worn_hw :: "(addr \<Rightarrow> u8 list) nand_hw" where
  "worn_hw = \<lparr>read_window = (\<lambda>c a n. take n (c a @ replicate n 0xff)), write_window = (\<lambda>a xs c. c(a := flip_at 77 3 xs)),
     erase_cmd = (\<lambda>_ _ c. c), read_status = (\<lambda>c. (0xc0, c)), read_id = (\<lambda>_. (0xec, 0xe6))\<rparr>"

definition small_nand :: "(addr \<Rightarrow> u8 list) nand" where
  "small_nand =
     \<lparr>chip = (\<lambda>_. []), dev = supported_devices ! 0,
      flash_info = \<lparr>fi_init = True, fi_vendor = 0xec, fi_chip_id = 0xe6, fi_block_size = 0x2000, fi_blocks = 1024,
        fi_block_mask = NOT 0x1fff, fi_start = 0x30000000, fi_end = 0x30800000\<rparr>,
      info_flash = replicate 12 0, tmp_buf = replicate 0x840 0, wt_buff = replicate 0x840 0,
      oob = replicate 0x40 0, dev_oob = replicate 0x40 0, nand_present = True, nand_heap = snd no_heap\<rparr>"

lemma small_nand_dev: "page_size (dev small_nand) = 512" "std_page (dev small_nand)" "oob_size (dev small_nand) = 16"
  by (simp_all add: small_nand_def supported_devices_def flash_part_def std_page_def oob_size_def
    PAGE512_OOB_SIZE_def PAGE512_SIZE_def)

theorem nand_page_roundtrip_witness:
  "\<exists>st'. pagewrite worn_hw 0x30000000 (replicate 512 7) small_nand = Some (PASS, st') \<and>
    take 512 (fst (snd (pageread worn_hw 0x30000000 st'))) = replicate 512 7"
proof -
  let ?d = "replicate 512 7 :: u8 list" and ?s = "page_spare (replicate 512 7) small_nand"
  have l: "length ?s = 16" by (simp add: page_spare_def page_code_def small_nand_dev)
  have "\<exists>st'. pagewrite worn_hw 0x30000000 ?d small_nand = Some (PASS, st') \<and>
    chip st' = write_window worn_hw 0x30000000 (?d @ ?s) (chip small_nand) \<and>
    (\<exists>st''. pageread worn_hw 0x30000000 st' = (PASS, ?d @ ?s, st''))"
    by (rule nand_page_roundtrip [OF small_nand_dev(2) _ _ aged_flip_at [of 77 ?d 3]])
      (simp_all add: small_nand_dev worn_hw_def l flip_at_append)
  then show ?thesis by fastforce
qed

section \<open>Bad blocks\<close>

lemma VeffBad_frame:
  "chip (snd (VeffBad hw a st)) = chip st" "dev (snd (VeffBad hw a st)) = dev st"
  "flash_info (snd (VeffBad hw a st)) = flash_info st"
proof -
  have "chip (snd (veff_loop hw k p st)) = chip st \<and> dev (snd (veff_loop hw k p st)) = dev st \<and>
      flash_info (snd (veff_loop hw k p st)) = flash_info st" for k p
    by (induction hw k p st rule: veff_loop.induct) (simp_all add: Let_def)
  then show "chip (snd (VeffBad hw a st)) = chip st" "dev (snd (VeffBad hw a st)) = dev st"
    "flash_info (snd (VeffBad hw a st)) = flash_info st"
    by (simp_all add: VeffBad_def)
qed

lemma unat_ucast_64: "unat (ucast (x :: u32) :: u64) = unat x"
proof -
  have "unat x < 2 ^ 64" by (rule order.strict_trans [OF unsigned_less]) simp
  moreover have "unat (ucast x :: u64) = take_bit 64 (unat x)"
    by (simp add: unsigned_ucast_eq take_bit_word_eq_self)
  ultimately show ?thesis by (simp only: take_bit_nat_eq_self)
qed

lemma window_addr:
  fixes a n :: u32
  assumes "0x30000000 \<le> a" and "unat a + unat n < 2 ^ 32"
  shows "\<not> (ucast a :: u64) < 0x30000000" and "\<not> (ucast a + ucast n :: u64) < 0x30000000"
    and "ucast (ucast a :: u64) = a" and "ucast (ucast a + ucast n :: u64) = a + n"
proof -
  have u: "unat (ucast a :: u64) = unat a" "unat (ucast n :: u64) = unat n"
    by (rule unat_ucast_64)+
  have s: "unat (ucast a + ucast n :: u64) = unat a + unat n"
    using assms(2) u by (subst unat_add_lem [THEN iffD1]) simp_all
  have "0x30000000 \<le> unat a" using assms(1) by (simp add: word_le_nat_alt)
  then show "\<not> (ucast a :: u64) < 0x30000000" and "\<not> (ucast a + ucast n :: u64) < 0x30000000"
    using u(1) s by (simp_all add: word_less_nat_alt)
  show "ucast (ucast a :: u64) = a"
    by (rule bit_word_eqI) (simp add: bit_ucast_iff)
  have "unat (ucast (ucast a + ucast n :: u64) :: u32) = unat (a + n)"
    using assms(2) s by (simp add: unsigned_ucast_eq take_bit_nat_eq_self unat_word_ariths)
  then show "ucast (ucast a + ucast n :: u64) = a + n" by (simp add: word_unat_eq_iff)
qed

text \<open>A chip that delivers what is asked for, is ready, and where writing a byte 0xff leaves an erased
  byte erased.\<close>

definition erased_stays :: "'c nand_hw \<Rightarrow> bool" where
  "erased_stays hw \<longleftrightarrow>
     (\<forall>c a n. length (read_window hw c a n) = n) \<and> (\<forall>c. read_status hw c = (0xc0, c)) \<and>
     (\<forall>c a b xs i. i < length xs \<longrightarrow> xs ! i = 0xff \<longrightarrow> read_window hw c b (length xs) ! i = 0xff \<longrightarrow>
        read_window hw (write_window hw a xs c) b (length xs) ! i = 0xff)"

text \<open>C35. \<open>nand_block_markbad\<close> does not mark.  In direct mode it prepares the marker in \<open>wt_buff\<close> but
  writes \<open>tmp_buf\<close>, which after \<open>VeffBad\<close> holds a page with an intact marker byte: a block that was
  good before the call is taken for good afterwards.\<close>

theorem markbad_leaves_no_mark:
  assumes "erased_stays hw" and "std_page (dev st)" and "0x30000000 \<le> a"
    and "unat a + unat (page_size (dev st)) < 2 ^ 32" and "VeffBad hw a st = (PASS, st1)"
  shows "\<exists>st2. nand_block_markbad hw a st1 = Some (PASS, st2) \<and> fst (VeffBad hw a st2) = PASS"
proof -
  define n where "n = page_size (dev st)"
  define N where "N = unat n + unat (oob_size (dev st))"
  define k where "k = unat n + mark_place (dev st)"
  have rl: "length (read_window hw c b l) = l" and rs: "read_status hw c = (0xc0, c)"
    and keep: "\<And>xs. i < length xs \<Longrightarrow> xs ! i = 0xff \<Longrightarrow> read_window hw c b (length xs) ! i = 0xff \<Longrightarrow>
        read_window hw (write_window hw d xs c) b (length xs) ! i = 0xff" for c b d i l
    using assms(1) unfolding erased_stays_def by blast+
  have mk: "mark_place (dev st) < unat (oob_size (dev st))"
    using assms(2) by (auto simp: mark_place_def oob_size_def std_page_def PAGE512_OOB_SIZE_def PAGE512_SIZE_def)
  then have kN: "k < N" by (simp add: k_def N_def)
  have w: "\<not> (ucast a :: u64) < 0x30000000" "\<not> (ucast a + ucast n :: u64) < 0x30000000"
    "ucast (ucast a :: u64) = a" "ucast (ucast a + ucast n :: u64) = a + n"
    using window_addr [OF assms(3), of n] assms(4) by (simp_all add: n_def)
  have veff: "VeffBad hw a s =
      (let s1 = s\<lparr>tmp_buf := read_window hw (chip s) a N @ drop N (tmp_buf s)\<rparr>;
           s2 = s\<lparr>tmp_buf := read_window hw (chip s) (a + n) N @ drop N (tmp_buf s1)\<rparr>
       in if read_window hw (chip s) a N ! k = 0xff
          then if read_window hw (chip s) (a + n) N ! k = 0xff then (PASS, s2) else (FAIL, s2)
          else (FAIL, s1))" if "dev s = dev st" for s
    using w kN mk rl that
    by (simp add: VeffBad_def numeral_2_eq_2 Let_def nth_append n_def [symmetric] N_def [symmetric] k_def [symmetric])
  let ?c = "chip st"
  have pass: "read_window hw ?c a N ! k = 0xff" "read_window hw ?c (a + n) N ! k = 0xff"
    and t1: "take N (tmp_buf st1) = read_window hw ?c (a + n) N" and c1: "chip st1 = ?c" and d1: "dev st1 = dev st"
    using assms(5) veff [of st] rl by (auto simp: Let_def PASS_def FAIL_def split: if_splits)
  let ?x = "read_window hw ?c (a + n) N"
  have m1: "read_window hw (write_window hw a ?x ?c) b N ! k = 0xff" if "read_window hw ?c b N ! k = 0xff" for b
    using keep [of k ?x ?c b a] that pass kN by (simp add: rl)
  have m2: "read_window hw (write_window hw (a + n) ?x (write_window hw a ?x ?c)) b N ! k = 0xff"
    if "read_window hw ?c b N ! k = 0xff" for b
    using keep [of k ?x "write_window hw a ?x ?c" b "a + n"] m1 [OF that] pass kN by (simp add: rl)
  let ?s = "st1\<lparr>wt_buff := (replicate N 0xff)[k := 0] @ drop N (wt_buff st1),
      chip := write_window hw (a + n) ?x (write_window hw a ?x ?c)\<rparr>"
  have "nand_block_markbad hw a st1 = Some (PASS, ?s)"
    using w t1 c1 d1 ready_status [OF rs]
    by (simp add: nand_block_markbad_def numeral_2_eq_2 Let_def n_def [symmetric] N_def [symmetric] k_def [symmetric])
  moreover have "fst (VeffBad hw a ?s) = PASS"
    using veff [of ?s] d1 m2 pass by (simp add: Let_def)
  ultimately show ?thesis by blast
qed

definition plain_hw :: "(addr \<Rightarrow> u8 list) nand_hw" where
  "plain_hw = \<lparr>read_window = (\<lambda>c a n. take n (c a @ replicate n 0xff)), write_window = (\<lambda>a xs c. c(a := xs)),
     erase_cmd = (\<lambda>_ _ c. c), read_status = (\<lambda>c. (0xc0, c)), read_id = (\<lambda>_. (0xec, 0xe6))\<rparr>"

lemma erased_stays_plain: "erased_stays plain_hw"
  by (auto simp: erased_stays_def plain_hw_def nth_append)

lemma veff_plain:
  "chip st = (\<lambda>_. []) \<Longrightarrow> mark_place (dev st) < unat (oob_size (dev st)) \<Longrightarrow> fst (veff_loop plain_hw k p st) = PASS"
  by (induction plain_hw k p st rule: veff_loop.induct) (simp_all add: Let_def nth_append plain_hw_def)

theorem markbad_leaves_no_mark_witness:
  "\<exists>st1 st2. nand_block_markbad plain_hw 0x30000000 st1 = Some (PASS, st2) \<and>
    fst (VeffBad plain_hw 0x30000000 st2) = PASS"
proof -
  have "VeffBad plain_hw 0x30000000 small_nand = (PASS, snd (VeffBad plain_hw 0x30000000 small_nand))"
    by (rule prod_eqI) (simp_all add: VeffBad_def veff_plain small_nand_dev small_nand_def [THEN arg_cong [of _ _ chip]]
      mark_place_def PAGE512_OOB_SIZE_def)
  then show ?thesis
    using markbad_leaves_no_mark [OF erased_stays_plain small_nand_dev(2)] small_nand_dev(1) by fastforce
qed

section \<open>Running out of blocks\<close>

text \<open>C36. \<open>flash_nand_program\<close> reports success when it finds no good block.  When every block from the
  address up to the bound is bad, nothing is written, and the status is \<open>FLASH_ERR_OK\<close>.\<close>

theorem flash_nand_program_no_block:
  fixes addr bound :: u32 and bs :: nat
  assumes "fi_init (flash_info st)" and "bs = unat (fi_block_size (flash_info st))" and "0 < bs"
    and "addr AND (fi_block_size (flash_info st) - 1) = 0"
    and "unat addr + unat bound + bs < 2 ^ 32" and "data \<noteq> []"
    and "\<And>s i. chip s = chip st \<Longrightarrow> dev s = dev st \<Longrightarrow> i * bs \<le> unat bound \<Longrightarrow>
      fst (VeffBad hw (addr + of_nat (i * bs)) s) = FAIL"
  shows "\<exists>st'. flash_nand_program hw addr data err bound st = Some (FLASH_ERR_OK, addr, st') \<and> chip st' = chip st"
proof -
  have u: "unat (addr + of_nat k) = unat addr + k" if "unat addr + k < 2 ^ 32" for k
    using that by (simp add: unat_word_ariths unat_of_nat take_bit_nat_eq_self)
  have ub: "unat (bound + addr) = unat addr + unat bound"
    using assms(5) by (simp add: unat_word_ariths)
  have skip: "\<exists>a' s'. veff_skip hw (addr + of_nat (i * bs)) (bound + addr) s = Some (False, a', s') \<and> chip s' = chip st"
    if "chip s = chip st" "dev s = dev st" "flash_info s = flash_info st" "i * bs \<le> unat bound" for i s
    using that
  proof (induction "unat bound - i * bs" arbitrary: i s rule: less_induct)
    case less
    obtain s1 where v: "VeffBad hw (addr + of_nat (i * bs)) s = (FAIL, s1)"
      using assms(7) [of s i] less.prems by (metis prod.collapse)
    have f: "chip s1 = chip st" "dev s1 = dev st" "flash_info s1 = flash_info st"
      using VeffBad_frame [of hw "addr + of_nat (i * bs)" s] v less.prems by simp_all
    have a: "addr + of_nat (i * bs) + fi_block_size (flash_info st) = addr + of_nat (Suc i * bs)"
      using assms(2) by (simp add: algebra_simps)
    have cmp: "addr + of_nat (Suc i * bs) > bound + addr \<longleftrightarrow> Suc i * bs > unat bound"
      using u [of "Suc i * bs"] ub less.prems(4) assms(5) by (simp add: word_less_nat_alt)
    have step: "veff_skip hw (addr + of_nat (i * bs)) (bound + addr) s =
        (if unat bound < Suc i * bs then Some (False, addr + of_nat (Suc i * bs), s1)
         else veff_skip hw (addr + of_nat (Suc i * bs)) (bound + addr) s1)"
      by (subst veff_skip.simps) (simp only: v prod.case Let_def f a cmp simp_thms if_True)
    show ?case
    proof (cases "unat bound < Suc i * bs")
      case True
      then show ?thesis unfolding step using f(1) by simp
    next
      case False
      then have "unat bound - Suc i * bs < unat bound - i * bs" using assms(3) by simp
      then show ?thesis using less.hyps [of "Suc i" s1] f False unfolding step by simp
    qed
  qed
  obtain a' s' where "veff_skip hw addr (bound + addr) st = Some (False, a', s')" "chip s' = chip st"
    using skip [of st 0] by auto
  then show ?thesis
    using assms(1,4,6) by (simp add: flash_nand_program_def program_loop.simps [of hw addr data]
      program_block.simps [of hw addr] FLASH_ERR_OK_def)
qed

definition zero_page :: "u8 list" where
  "zero_page = replicate (unat PAGE512_RAW_SIZE) 0"

lemma zero_page: "length zero_page = 528" "i < 528 \<Longrightarrow> zero_page ! i = 0"
  by (simp_all add: zero_page_def PAGE512_RAW_SIZE_def)

lemma read_zero_page: "read_window plain_hw (\<lambda>_. zero_page) a 528 = zero_page"
  by (simp add: plain_hw_def zero_page(1))

lemma unat_numeral_528: "unat (512 :: u32) = 512" "unat (16 :: u32) = 16" "(512 :: nat) + 16 = 528"
  by simp_all

lemma veff_zero:
  assumes "chip st = (\<lambda>_. zero_page)" and "dev st = dev small_nand"
  shows "fst (VeffBad plain_hw p st) = FAIL"
proof -
  have "fst (veff_loop plain_hw (Suc k) q st) = FAIL" for k q
    unfolding veff_loop.simps Let_def
    by (simp only: nand.simps assms small_nand_dev mark_place_def PAGE512_OOB_SIZE_def unat_numeral_528 read_zero_page)
      (simp add: nth_append zero_page)
  then show ?thesis by (simp add: VeffBad_def numeral_2_eq_2)
qed

theorem flash_nand_program_no_block_witness:
  "\<exists>st'. flash_nand_program plain_hw 0x30000000 [1, 2, 3] 0 0x4000 (small_nand\<lparr>chip := \<lambda>_. zero_page\<rparr>) =
     Some (FLASH_ERR_OK, 0x30000000, st') \<and> chip st' = (\<lambda>_. zero_page)"
  using flash_nand_program_no_block [of "small_nand\<lparr>chip := \<lambda>_. zero_page\<rparr>" "0x2000" "0x30000000" "0x4000"
    "[1, 2, 3]" plain_hw 0]
  by (simp add: veff_zero small_nand_def [THEN arg_cong [of _ _ flash_info]])

end
