(* ===== verification/Fis.thy ===== *)
theory Fis
  imports Nand Ip SysPrintf
begin

text \<open>
  The configuration kept in RAM (\<open>src/src/sys/sys_cfg.c\<close>) and the flash image directory
  (\<open>src/src/sys/sys_fis.c\<close>), for the board of \<open>src/board/lepus_linux/inc/board_config.h\<close>.

  \<open>sys\<close> is the state of the system files: memory, heap, the NAND driver, the static variables.
  \<open>sysenv\<close> holds what does not change: the chip, the heap's \<open>mem_info\<close>, the flash control register,
  the addresses of the string literals (\<open>lit\<close>), and the macros \<open>BOARD_FLASH_APPS_ADDR\<close>,
  \<open>BOARD_APPS_SIZE\<close> and \<open>BOARD_APPSIMG_SIZE\<close>, which \<open>fis_create_default\<close> uses and the board's
  configuration does not define.
\<close>

section \<open>State\<close>

record 'c sys =
  smem :: mem
  sheap :: heap
  sflash :: "'c nand"
  fis_datap :: addr
  vctl_datap :: addr
  my_ip_addr :: u32
  my_ip_netmask :: u32
  my_ip_gateway :: u32
  my_mac_addr :: "u8 list list"
  gmac_macs :: "(u8 list \<times> u8 list) list"

record 'c sysenv =
  hw :: "'c nand_hw"
  sinfo :: mem_info
  flash_ctrl :: u32
  lit :: "u8 list \<Rightarrow> addr"
  apps_addr :: u32
  apps_size :: u32
  appsimg_size :: u32

text \<open>\<open>memcpy\<close> is \<open>sys_memcpy\<close>: a source in the flash window is read through the NAND driver.\<close>

definition sys_copy :: "'c sysenv \<Rightarrow> addr \<Rightarrow> addr \<Rightarrow> u32 \<Rightarrow> 'c sys \<Rightarrow> 'c sys option" where
  "sys_copy E dest srce n s =
     (if (flash_ctrl E AND 0x1f00) AND 0x1000 = 0x1000 \<and> srce \<ge> BOARD_FLASH_BASE_ADDR \<and> srce < 0x40000000 \<and>
         nand_present (sflash s)
      then map_option (\<lambda>(_, m, fl). s\<lparr>smem := m, sflash := fl\<rparr>)
             (flash_read_buf (hw E) srce dest (nat (sint n)) (smem s) (sflash s))
      else Some (s\<lparr>smem := memcpy_loop (smem s) dest srce (unat n)\<rparr>))"

section \<open>Configuration\<close>

definition SYS_MAC_NUM :: int where "SYS_MAC_NUM = 2"
definition null_mac_addr :: "u8 list" where "null_mac_addr = [0, 0, 0, 0, 0, 0]"

definition default_macs :: "u8 list list" where
  "default_macs = [[0x00, 0x50, 0xc2, 0x11, 0x11, 0x11], [0x00, 0x50, 0xc2, 0x22, 0x22, 0x22]]"

definition sys_get_mac_addr :: "int \<Rightarrow> 'c sys \<Rightarrow> u8 list" where
  "sys_get_mac_addr index s = (if index \<ge> 0 \<and> index < SYS_MAC_NUM then my_mac_addr s ! nat index else null_mac_addr)"

definition sys_set_mac_addr :: "int \<Rightarrow> u8 list \<Rightarrow> 'c sys \<Rightarrow> 'c sys" where
  "sys_set_mac_addr index mac s =
     (if index < 0 \<or> index \<ge> SYS_MAC_NUM then s
      else if mac ! 0 AND 1 \<noteq> 0 \<or> take 6 mac = null_mac_addr then s
      else
        (let s = s\<lparr>my_mac_addr := (my_mac_addr s)[nat index := take 6 mac]\<rparr>
         in s\<lparr>gmac_macs := gmac_macs s @ [(my_mac_addr s ! 0, my_mac_addr s ! 1)]\<rparr>))"

definition sys_set_ip_addr :: "u32 \<Rightarrow> 'c sys \<Rightarrow> 'c sys" where
  "sys_set_ip_addr ipaddr s = (if ip_verify_addr ipaddr = 0 then s\<lparr>my_ip_addr := ipaddr\<rparr> else s)"

definition sys_set_ip_netmask :: "u32 \<Rightarrow> 'c sys \<Rightarrow> 'c sys" where
  "sys_set_ip_netmask netmask s = (if ip_verify_netmask netmask = 0 then s\<lparr>my_ip_netmask := netmask\<rparr> else s)"

definition sys_set_ip_gateway :: "u32 \<Rightarrow> 'c sys \<Rightarrow> 'c sys" where
  "sys_set_ip_gateway ipaddr s = (if ip_verify_addr ipaddr = 0 then s\<lparr>my_ip_gateway := ipaddr\<rparr> else s)"

section \<open>Flash image directory\<close>

definition FIS_ENTRY_SIZE :: u32 where "FIS_ENTRY_SIZE = 256"
definition FIS_MAX_ENTRY :: nat where "FIS_MAX_ENTRY = 24"
definition FIS_NAME_SIZE :: u32 where "FIS_NAME_SIZE = 16"
definition FIS_TOTAL_SIZE :: u32 where "FIS_TOTAL_SIZE = of_nat FIS_MAX_ENTRY * FIS_ENTRY_SIZE"
definition BOARD_FLASH_BOOT_ADDR :: u32 where "BOARD_FLASH_BOOT_ADDR = BOARD_FLASH_BASE_ADDR"
definition BOARD_FLASH_BOOT_SIZE :: u32 where "BOARD_FLASH_BOOT_SIZE = 0x100000"
definition BOARD_FLASH_BOOTIMG_SIZE :: u32 where "BOARD_FLASH_BOOTIMG_SIZE = 4 * 64 * 1024"
definition BOARD_FLASH_FIS_ADDR :: u32 where "BOARD_FLASH_FIS_ADDR = BOARD_FLASH_BASE_ADDR + 0x1FA0000"
definition BOARD_FLASH_FISIMG_SIZE :: u32 where "BOARD_FLASH_FISIMG_SIZE = 2 * 64 * 1024"
definition BOARD_FLASH_FIS_SIZE :: u32 where "BOARD_FLASH_FIS_SIZE = 6 * 64 * 1024"
definition BOARD_FLASH_VCTL_ADDR :: u32 where "BOARD_FLASH_VCTL_ADDR = BOARD_FLASH_BASE_ADDR + 0x1E80000"
definition BOARD_FLASH_VCTLIMG_SIZE :: u32 where "BOARD_FLASH_VCTLIMG_SIZE = 2 * 64 * 1024"
definition BOARD_FLASH_VCTL_SIZE :: u32 where "BOARD_FLASH_VCTL_SIZE = 6 * 64 * 1024"
definition BOARD_DRAM_KERNEL_ADDR :: u32 where "BOARD_DRAM_KERNEL_ADDR = 0x01C00000"
definition BOARD_DRAM_RAM_DISK_ADDR :: u32 where "BOARD_DRAM_RAM_DISK_ADDR = 0x00800000"

definition BOARD_FIS_BOOT_NAME :: "u8 list" where "BOARD_FIS_BOOT_NAME = map of_char ''BOOT''"
definition BOARD_FIS_DIRECTORY_NAME :: "u8 list" where "BOARD_FIS_DIRECTORY_NAME = map of_char ''FIS directory''"
definition BOARD_FIS_KERNEL_NAME :: "u8 list" where "BOARD_FIS_KERNEL_NAME = map of_char ''Kernel''"
definition BOARD_FIS_RAM_DISK_NAME :: "u8 list" where "BOARD_FIS_RAM_DISK_NAME = map of_char ''Ramdisk''"
definition BOARD_FIS_VCTL_NAME :: "u8 list" where "BOARD_FIS_VCTL_NAME = map of_char ''VCTL''"

text \<open>The fields of \<open>FIS_T\<close> at their offsets.\<close>

definition flash_base :: "mem \<Rightarrow> addr \<Rightarrow> u32" where "flash_base m img = mem_le32 m (img + 16)"
definition mem_base :: "mem \<Rightarrow> addr \<Rightarrow> u32" where "mem_base m img = mem_le32 m (img + 20)"
definition file_size :: "mem \<Rightarrow> addr \<Rightarrow> u32" where "file_size m img = mem_le32 m (img + 24)"
definition entry_point :: "mem \<Rightarrow> addr \<Rightarrow> u32" where "entry_point m img = mem_le32 m (img + 28)"
definition data_length :: "mem \<Rightarrow> addr \<Rightarrow> u32" where "data_length m img = mem_le32 m (img + 32)"
definition desc_cksum :: "mem \<Rightarrow> addr \<Rightarrow> u32" where "desc_cksum m img = mem_le32 m (img + 248)"

fun chksum_loop :: "mem \<Rightarrow> addr \<Rightarrow> nat \<Rightarrow> u32 \<Rightarrow> u32" where
  "chksum_loop m cp 0 acc = acc"
| "chksum_loop m cp (Suc n) acc = chksum_loop m (cp + 1) n (acc + ucast (m cp))"

definition fis_desc_chksum :: "mem \<Rightarrow> addr \<Rightarrow> u32" where
  "fis_desc_chksum m img = chksum_loop m img (unat (FIS_ENTRY_SIZE - 8)) 0"

fun find_loop :: "mem \<Rightarrow> addr \<Rightarrow> nat \<Rightarrow> addr \<Rightarrow> addr option" where
  "find_loop m filename 0 img = Some 0"
| "find_loop m filename (Suc n) img =
     (if m img = 0xff then Some 0
      else
        Option.bind (sys_strncasecmp m filename img) (\<lambda>r.
          if r = 0 \<and> desc_cksum m img = fis_desc_chksum m img then Some img
          else find_loop m filename n (img + FIS_ENTRY_SIZE)))"

definition fis_find_image :: "addr \<Rightarrow> 'c sys \<Rightarrow> addr option" where
  "fis_find_image filename s = find_loop (smem s) filename FIS_MAX_ENTRY (fis_datap s)"

fun free_loop :: "mem \<Rightarrow> nat \<Rightarrow> addr \<Rightarrow> addr" where
  "free_loop m 0 img = 0"
| "free_loop m (Suc n) img =
     (if m img = 0xff \<or> m img = 0 \<or> desc_cksum m img \<noteq> fis_desc_chksum m img then img
      else free_loop m n (img + FIS_ENTRY_SIZE))"

definition fis_get_free_image :: "'c sys \<Rightarrow> addr" where
  "fis_get_free_image s = free_loop (smem s) FIS_MAX_ENTRY (fis_datap s)"

text \<open>The entry that describes the directory; behind the table when there is none.\<close>

fun own_entry_loop :: "mem \<Rightarrow> nat \<Rightarrow> addr \<Rightarrow> addr" where
  "own_entry_loop m 0 img = img"
| "own_entry_loop m (Suc n) img =
     (if m img \<noteq> 0xff \<and> m img \<noteq> 0 \<and> desc_cksum m img = fis_desc_chksum m img \<and>
         flash_base m img = BOARD_FLASH_FIS_ADDR
      then img else own_entry_loop m n (img + FIS_ENTRY_SIZE))"

definition fis_write_flash :: "'c sysenv \<Rightarrow> 'c sys \<Rightarrow> 'c sys option" where
  "fis_write_flash E s =
     (let m = smem s; img = own_entry_loop m FIS_MAX_ENTRY (fis_datap s)
      in map_option (\<lambda>(stat, err_addr, fl). s\<lparr>sflash := fl\<rparr>)
           (flash_nand_program (hw E) BOARD_FLASH_FIS_ADDR (mem_bytes m (fis_datap s) (unat FIS_TOTAL_SIZE)) 0
             (file_size m img) (sflash s)))"

text \<open>One block of \<open>fis_create_default\<close> up to its checksum, and the checksum.\<close>

definition fis_fill ::
  "'c sysenv \<Rightarrow> addr \<Rightarrow> u8 list \<Rightarrow> u32 \<Rightarrow> u32 \<Rightarrow> u32 \<Rightarrow> u32 \<Rightarrow> u32 \<Rightarrow> mem \<Rightarrow> mem option" where
  "fis_fill E img name fb mb sz ep dl m =
     Option.bind (sys_strcpy (sys_memset m img 0 FIS_ENTRY_SIZE) img (lit E name)) (\<lambda>m.
       Some (put32 (put32 (put32 (put32 (put32 m (img + 16) fb) (img + 20) mb) (img + 24) sz) (img + 28) ep)
         (img + 32) dl))"

definition fis_seal :: "addr \<Rightarrow> mem \<Rightarrow> mem" where
  "fis_seal img m = put32 m (img + 248) (fis_desc_chksum m img)"

text \<open>\<open>sprintf(datap, "%d.%d.%d.%d", ...)\<close>, and the three addresses that follow each other in \<open>data\<close>.\<close>

definition put_ip_text :: "'c sysenv \<Rightarrow> addr \<Rightarrow> u32 \<Rightarrow> mem \<Rightarrow> mem option" where
  "put_ip_text E dp ip m =
     map_option (\<lambda>(t, _). put_bytes m dp (t @ [0]))
       (sys_sprintf [] [] (lit E ip_fmt) ip_fmt [ArgInt (IP1 ip), ArgInt (IP2 ip), ArgInt (IP3 ip), ArgInt (IP4 ip)])"

definition fis_put_ips :: "'c sysenv \<Rightarrow> addr \<Rightarrow> u32 \<Rightarrow> u32 \<Rightarrow> u32 \<Rightarrow> mem \<Rightarrow> mem option" where
  "fis_put_ips E dp ipaddr netmask gateway m =
     Option.bind (put_ip_text E dp ipaddr m) (\<lambda>m.
     Option.bind (sys_strlen m dp) (\<lambda>n.
     Option.bind (put_ip_text E (dp + n + 1) netmask m) (\<lambda>m.
     Option.bind (sys_strlen m (dp + n + 1)) (\<lambda>n'.
       put_ip_text E (dp + n + 1 + n' + 1) gateway m))))"

definition fis_default_table :: "'c sysenv \<Rightarrow> (u8 list \<times> u32 \<times> u32 \<times> u32 \<times> u32 \<times> u32) list" where
  "fis_default_table E =
     [(BOARD_FIS_DIRECTORY_NAME, BOARD_FLASH_FIS_ADDR, 0, BOARD_FLASH_FIS_SIZE, 0, BOARD_FLASH_FISIMG_SIZE),
      (BOARD_FIS_KERNEL_NAME, BOARD_FLASH_BASE_ADDR + 0x100000, BOARD_DRAM_KERNEL_ADDR, 0x580000,
         BOARD_DRAM_KERNEL_ADDR, 0x2C0000),
      (map of_char ''Configure'', BOARD_FLASH_BASE_ADDR + 0x1EE0000, 0, 12 * 64 * 1024, 0, 10 * 64 * 1024),
      (BOARD_FIS_RAM_DISK_NAME, BOARD_FLASH_BASE_ADDR + 0x680000, BOARD_DRAM_RAM_DISK_ADDR, 0x1800000,
         BOARD_DRAM_RAM_DISK_ADDR, 0xC00000),
      (map of_char ''Application'', apps_addr E, 0, apps_size E, 0, appsimg_size E),
      (BOARD_FIS_VCTL_NAME, BOARD_FLASH_VCTL_ADDR, 0, BOARD_FLASH_VCTL_SIZE, 0, BOARD_FLASH_VCTLIMG_SIZE),
      (map of_char ''Reserved'', BOARD_FLASH_BASE_ADDR + 0x2000000, 0, 0x2000000, 0, 0x2000000)]"

fun create_entries ::
  "'c sysenv \<Rightarrow> addr \<Rightarrow> (u8 list \<times> u32 \<times> u32 \<times> u32 \<times> u32 \<times> u32) list \<Rightarrow> mem \<Rightarrow> mem option" where
  "create_entries E img [] m = Some m"
| "create_entries E img ((name, fb, mb, sz, ep, dl) # es) m =
     Option.bind (fis_fill E img name fb mb sz ep dl m) (\<lambda>m.
       create_entries E (img + FIS_ENTRY_SIZE) es (fis_seal img m))"

definition fis_create_default :: "'c sysenv \<Rightarrow> 'c sys \<Rightarrow> 'c sys option" where
  "fis_create_default E s =
     (let img = fis_datap s; m = sys_memset (smem s) img (-1) FIS_TOTAL_SIZE in
      Option.bind (fis_fill E img BOARD_FIS_BOOT_NAME BOARD_FLASH_BOOT_ADDR 0 BOARD_FLASH_BOOT_SIZE 0
          BOARD_FLASH_BOOTIMG_SIZE m) (\<lambda>m.
      Option.bind (fis_put_ips E (img + 36) (my_ip_addr s) (my_ip_netmask s) (my_ip_gateway s) m) (\<lambda>m.
      Option.bind (create_entries E (img + FIS_ENTRY_SIZE) (fis_default_table E) (fis_seal img m)) (\<lambda>m.
        fis_write_flash E (s\<lparr>smem := m\<rparr>)))))"

definition fis_set_ip_addr :: "'c sysenv \<Rightarrow> u32 \<Rightarrow> 'c sys \<Rightarrow> 'c sys option" where
  "fis_set_ip_addr E ipaddr s =
     Option.bind (fis_find_image (lit E BOARD_FIS_BOOT_NAME) s) (\<lambda>img.
       if img = 0 then fis_create_default E (sys_set_ip_addr ipaddr s)
       else
         Option.bind (fis_put_ips E (img + 36) ipaddr (my_ip_netmask s) (my_ip_gateway s) (smem s)) (\<lambda>m.
           fis_write_flash E (s\<lparr>smem := fis_seal img m\<rparr>)))"

text \<open>The IP settings that \<open>sys_fis_init\<close> takes from the data of the BOOT entry.\<close>

definition fis_get_ips :: "addr \<Rightarrow> mem \<Rightarrow> (u32 \<times> u32 \<times> u32) option" where
  "fis_get_ips dp m =
     Option.bind (str2ip m dp) (\<lambda>ipaddr.
     Option.bind (sys_strlen m dp) (\<lambda>n.
     (let dp = dp + n + 1 in
      Option.bind (str2ip m dp) (\<lambda>netmask.
      Option.bind (sys_strlen m dp) (\<lambda>n.
      map_option (\<lambda>gateway. (ipaddr, netmask, gateway)) (str2ip m (dp + n + 1)))))))"

definition sys_fis_init :: "'c sysenv \<Rightarrow> 'c sys \<Rightarrow> (int \<times> 'c sys) option" where
  "sys_fis_init E s =
     Option.bind (sys_malloc (sinfo E) FIS_TOTAL_SIZE (sheap s)) (\<lambda>(p, h).
     (let s = s\<lparr>sheap := h, fis_datap := p\<rparr> in
      if p = 0 then Some (-1, s)
      else
        Option.bind (sys_copy E p BOARD_FLASH_FIS_ADDR FIS_TOTAL_SIZE s) (\<lambda>s.
        Option.bind (fis_find_image (lit E BOARD_FIS_BOOT_NAME) s) (\<lambda>img.
          if img = 0 then map_option (Pair (-1)) (fis_create_default E s)
          else
            Option.bind (fis_get_ips (img + 36) (smem s)) (\<lambda>(ipaddr, netmask, gateway).
            (let s = sys_set_ip_gateway gateway (sys_set_ip_netmask netmask (sys_set_ip_addr ipaddr s)) in
             Option.bind (fis_find_image (lit E BOARD_FIS_KERNEL_NAME) s) (\<lambda>img.
               if img = 0 \<or> mem_base (smem s) img = 0 \<or> entry_point (smem s) img = 0 then Some (-1, s)
               else
                 map_option (\<lambda>img. (if img = 0 \<or> mem_base (smem s) img = 0 then -1 else 0, s))
                   (fis_find_image (lit E BOARD_FIS_RAM_DISK_NAME) s))))))))"

text \<open>The rows \<open>fis_ui_list\<close> prints: name, first and last flash address, RAM address, length, entry.\<close>

fun list_rows :: "mem \<Rightarrow> nat \<Rightarrow> addr \<Rightarrow> (addr \<times> u32 \<times> u32 \<times> u32 \<times> u32 \<times> u32) list" where
  "list_rows m 0 img = []"
| "list_rows m (Suc n) img =
     (if m img \<noteq> 0xff \<and> m img \<noteq> 0 \<and> desc_cksum m img = fis_desc_chksum m img
      then [(img, flash_base m img, if file_size m img \<noteq> 0 then flash_base m img + file_size m img - 1 else flash_base m img,
             mem_base m img, data_length m img, entry_point m img)]
      else []) @ list_rows m n (img + FIS_ENTRY_SIZE)"

definition fis_ui_list :: "'c sys \<Rightarrow> (addr \<times> u32 \<times> u32 \<times> u32 \<times> u32 \<times> u32) list" where
  "fis_ui_list s = (if fis_datap s = 0 then [] else list_rows (smem s) FIS_MAX_ENTRY (fis_datap s))"

fun word_copy :: "mem \<Rightarrow> addr \<Rightarrow> addr \<Rightarrow> nat \<Rightarrow> mem" where
  "word_copy m dest srce 0 = m"
| "word_copy m dest srce (Suc n) = word_copy (put32 m dest (mem_le32 m srce)) (dest + 4) (srce + 4) n"

definition load_one :: "'c sysenv \<Rightarrow> addr \<Rightarrow> 'c sys \<Rightarrow> 'c sys option" where
  "load_one E img s =
     (let m = smem s; srce = flash_base m img; dest = mem_base m img in
      if (flash_ctrl E AND 0x1f00) AND 0x1000 = 0x1000 then sys_copy E dest srce (data_length m img) s
      else Some (s\<lparr>smem := word_copy m dest srce (unat (((file_size m img + 3) AND NOT 3) div 4))\<rparr>))"

fun load_loop :: "'c sysenv \<Rightarrow> nat \<Rightarrow> addr \<Rightarrow> addr \<Rightarrow> 'c sys \<Rightarrow> (addr \<times> 'c sys) option" where
  "load_loop E 0 img apps s = Some (apps, s)"
| "load_loop E (Suc n) img apps s =
     (let m = smem s; next = img + FIS_ENTRY_SIZE in
      if m img \<noteq> 0xff \<and> m img \<noteq> 0 \<and> desc_cksum m img = fis_desc_chksum m img \<and> flash_base m img \<noteq> 0 \<and>
         mem_base m img \<noteq> 0
      then
        Option.bind (sys_strncasecmp m img (lit E BOARD_FIS_BOOT_NAME)) (\<lambda>r.
        Option.bind (if r = 0 then Some 0 else sys_strncasecmp m img (lit E BOARD_FIS_DIRECTORY_NAME)) (\<lambda>r.
          if r = 0 \<or> entry_point m img = 0 then load_loop E n next apps s
          else Option.bind (load_one E img s) (\<lambda>s.
            load_loop E n next (if apps = 0 then entry_point m img else apps) s)))
      else load_loop E n next apps s)"

text \<open>\<open>fis_load_images\<close> returns the application that is started, 0 when there is none.\<close>

definition fis_load_images :: "'c sysenv \<Rightarrow> 'c sys \<Rightarrow> (addr \<times> 'c sys) option" where
  "fis_load_images E s = load_loop E FIS_MAX_ENTRY (fis_datap s) 0 s"

section \<open>The search\<close>

definition fis_matches :: "mem \<Rightarrow> u8 list \<Rightarrow> u8 list \<Rightarrow> addr \<Rightarrow> bool" where
  "fis_matches m name nm img \<longleftrightarrow> map sys_toupper name = map sys_toupper nm \<and> desc_cksum m img = fis_desc_chksum m img"

definition fis_entry :: "addr \<Rightarrow> nat \<Rightarrow> addr" where
  "fis_entry p i = p + of_nat i * FIS_ENTRY_SIZE"

lemma fis_entry_Suc: "fis_entry (p + FIS_ENTRY_SIZE) i = fis_entry p (Suc i)"
  by (simp add: fis_entry_def algebra_simps)

lemma find_loop_find:
  assumes "cstr m filename name" and "\<And>i. i < n \<Longrightarrow> cstr m (fis_entry p i) (ns i)"
  shows "find_loop m filename n p =
    Some (case List.find (\<lambda>i. fis_matches m name (ns i) (fis_entry p i)) (takeWhile (\<lambda>i. m (fis_entry p i) \<noteq> 0xff) [0..<n])
      of None \<Rightarrow> 0 | Some i \<Rightarrow> fis_entry p i)"
  using assms(2)
proof (induction n arbitrary: p ns)
  case (Suc n)
  have u: "[0..<Suc n] = 0 # map Suc [0..<n]" by (simp add: map_Suc_upt upt_conv_Cons del: upt_Suc)
  have p0: "fis_entry p 0 = p" by (simp add: fis_entry_def)
  have ih: "find_loop m filename n (p + FIS_ENTRY_SIZE) =
      Some (case List.find (\<lambda>i. fis_matches m name (ns (Suc i)) (fis_entry p (Suc i)))
        (takeWhile (\<lambda>i. m (fis_entry p (Suc i)) \<noteq> 0xff) [0..<n]) of None \<Rightarrow> 0 | Some i \<Rightarrow> fis_entry p (Suc i))"
    using Suc.IH [of "p + FIS_ENTRY_SIZE" "\<lambda>i. ns (Suc i)"] Suc.prems by (simp add: fis_entry_Suc option.case_eq_if)
  have c: "sys_strncasecmp m filename p = Some (if map sys_toupper name = map sys_toupper (ns 0) then 0 else 1)"
    using sys_strncasecmp_cstr [OF assms(1)] Suc.prems [of 0] p0 by simp
  have f: "List.find P (map Suc xs) = map_option Suc (List.find (\<lambda>i. P (Suc i)) xs)" for P xs
    by (induction xs) simp_all
  show ?case
    unfolding u using ih by (simp add: c fis_matches_def p0 takeWhile_map o_def f option.case_eq_if option.map_sel)
qed simp


section \<open>The IP settings\<close>

lemma put_bytes_apply:
  "length xs \<le> 2 ^ 32 \<Longrightarrow> put_bytes m p xs x = (if unat (x - p) < length xs then xs ! unat (x - p) else m x)"
proof (induction xs arbitrary: m p)
  case (Cons y xs)
  have u: "unat (- 1 :: addr) = 2 ^ 32 - 1" by (simp add: unsigned_minus_1_eq_mask mask_eq_exp_minus_1)
  show ?case using Cons by (cases "x = p") (simp_all add: unat_diff_Suc u)
qed simp

lemma stores_put_bytes: "length xs \<le> 2 ^ 32 \<Longrightarrow> stores (put_bytes m p xs) p xs"
  by (simp add: stores_def mem_bytes_put_bytes)

definition ip3_text :: "u32 \<Rightarrow> u32 \<Rightarrow> u32 \<Rightarrow> u8 list" where
  "ip3_text a b c = ip_text a @ 0 # ip_text b @ 0 # ip_text c @ [0]"

lemma put_ip_text_eq: "lit E ip_fmt \<noteq> 0 \<Longrightarrow> put_ip_text E p ip m = Some (put_bytes m p (ip_text ip @ [0]))"
  by (simp add: put_ip_text_def sys_sprintf_ip)

lemma ip_text_nonzero: "0 \<notin> set (ip_text ip)"
  using ip_text_chars [of 0 ip] by (auto simp: is_digit_def)

lemma cstr_put_text: "length t < 2 ^ 32 \<Longrightarrow> 0 \<notin> set t \<Longrightarrow> cstr (put_bytes m p (t @ [0])) p t"
  using stores_put_bytes [of "t @ [0]" m p] by (simp add: cstr_stores)

lemma length_rev_digits: "n < 10 ^ k \<Longrightarrow> length (rev_digits 10 n) \<le> k"
proof (induction k arbitrary: n)
  case (Suc k)
  then show ?case by (cases "n = 0") (simp_all add: rev_digits_step)
qed simp

lemma length_dec_text: "n < 10 ^ k \<Longrightarrow> 0 < k \<Longrightarrow> length (dec_text n) \<le> k"
  using length_rev_digits [of n k] by (simp add: dec_text_def)

lemma length_ip_text: "length (ip_text ip) \<le> 15"
  using unat_IP_less [of ip] length_dec_text [of "unat (IP1 ip)" 3] length_dec_text [of "unat (IP2 ip)" 3]
    length_dec_text [of "unat (IP3 ip)" 3] length_dec_text [of "unat (IP4 ip)" 3]
  by (simp add: ip_text_def)

lemma fis_put_ips_eq:
  assumes "lit E ip_fmt \<noteq> 0"
  shows "fis_put_ips E p a b c m = Some (put_bytes m p (ip3_text a b c))"
proof -
  let ?n = "\<lambda>ip. of_nat (length (ip_text ip)) :: u32"
  have l: "sys_strlen (put_bytes m q (ip_text ip @ [0])) q = Some (?n ip)" for m q ip
    by (rule sys_strlen_cstr, rule cstr_put_text) (use length_ip_text [of ip] ip_text_nonzero in simp_all)
  have q: "p + ?n a + 1 = p + of_nat (length (ip_text a @ [0]))"
    "p + of_nat (length (ip_text a @ [0])) + ?n b + 1 = p + of_nat (length ((ip_text a @ [0]) @ ip_text b @ [0]))"
    by (simp_all add: algebra_simps)
  show ?thesis
    unfolding fis_put_ips_def put_ip_text_eq [OF assms] bind.bind_lunit l q(1)
    unfolding q(2) put_bytes_append by (simp add: ip3_text_def)
qed

lemma fis_get_ips_eq:
  assumes "stores m p (ip3_text a b c)"
  shows "fis_get_ips p m = Some (a, b, c)"
proof -
  have s: "cstr m p (ip_text a)" "cstr m (p + of_nat (length (ip_text a)) + 1) (ip_text b)"
    "cstr m (p + of_nat (length (ip_text a)) + 1 + of_nat (length (ip_text b)) + 1) (ip_text c)"
    using assms ip_text_nonzero
    by (simp_all add: ip3_text_def cstr_stores stores_append algebra_simps)
  show ?thesis
    by (simp only: fis_get_ips_def Let_def str2ip_text [OF s(1)] str2ip_text [OF s(2)] str2ip_text [OF s(3)]
      sys_strlen_cstr [OF s(1)] sys_strlen_cstr [OF s(2)] bind.bind_lunit option.map)
qed


section \<open>The checksum and the frame of an entry\<close>

lemma chksum_loop_cong: "(\<And>j. j < n \<Longrightarrow> m' (p + of_nat j) = m (p + of_nat j)) \<Longrightarrow> chksum_loop m' p n acc = chksum_loop m p n acc"
proof (induction n arbitrary: p acc)
  case (Suc n)
  have "m' (p + 1 + of_nat j) = m (p + 1 + of_nat j)" if "j < n" for j
    using Suc.prems [of "Suc j"] that by (simp add: algebra_simps)
  then show ?case using Suc.IH [of "p + 1"] Suc.prems [of 0] by simp
qed simp

lemma desc_chksum_cong:
  "(\<And>j. j < 248 \<Longrightarrow> m' (img + of_nat j) = m (img + of_nat j)) \<Longrightarrow> fis_desc_chksum m' img = fis_desc_chksum m img"
proof -
  have n: "unat (FIS_ENTRY_SIZE - 8) = 248" by (simp add: FIS_ENTRY_SIZE_def)
  assume "\<And>j. j < 248 \<Longrightarrow> m' (img + of_nat j) = m (img + of_nat j)"
  then show ?thesis unfolding fis_desc_chksum_def n by (rule chksum_loop_cong)
qed

lemma fis_seal_eq: "fis_seal img m = put_bytes m (img + 248) (let v = fis_desc_chksum m img in
    [ucast v, ucast (drop_bit 8 v), ucast (drop_bit 16 v), ucast (drop_bit 24 v)])"
  by (simp only: fis_seal_def put32_bytes_eq Let_def)

lemma fis_seal_apply: "\<not> unat (x - (img + 248)) < 4 \<Longrightarrow> fis_seal img m x = m x"
  unfolding fis_seal_eq Let_def by (subst put_bytes_apply) simp_all

lemma mem_le32_put32: "mem_le32 (put32 m a v) a = v"
  by (simp add: mem_le32_iff put32_bytes_eq)

lemma unat_offset: "j < 2 ^ 32 \<Longrightarrow> k \<le> j \<Longrightarrow> unat (img + of_nat j - (img + of_nat k)) = j - k" for img :: addr
proof -
  assume a: "j < 2 ^ 32" "k \<le> j"
  then have "img + of_nat j - (img + of_nat k) = of_nat (j - k)" by simp
  then show ?thesis using a by (simp only:) (subst unat_of_nat, simp)
qed

lemma unat_offset_below: "j < k \<Longrightarrow> k < 2 ^ 31 \<Longrightarrow> 2 ^ 31 \<le> unat (img + of_nat j - (img + of_nat k))" for img :: addr
proof -
  assume a: "j < k" "k < 2 ^ 31"
  have e: "img + of_nat j - (img + of_nat k) = of_nat (2 ^ 32 - (k - j))"
    using a by (simp add: of_nat_diff)
  show ?thesis unfolding e using a by (subst unat_of_nat) simp
qed

lemma fis_seal_matches: "desc_cksum (fis_seal img m) img = fis_desc_chksum (fis_seal img m) img"
proof -
  have "fis_seal img m (img + of_nat j) = m (img + of_nat j)" if "j < 248" for j
    using unat_offset_below [of j 248 img] that by (intro fis_seal_apply) simp
  then have "fis_desc_chksum (fis_seal img m) img = fis_desc_chksum m img" by (rule desc_chksum_cong)
  moreover have "desc_cksum (fis_seal img m) img = fis_desc_chksum m img"
    unfolding desc_cksum_def fis_seal_def by (rule mem_le32_put32)
  ultimately show ?thesis by simp
qed


definition fis_inside :: "addr \<Rightarrow> addr \<Rightarrow> bool" where
  "fis_inside img x \<longleftrightarrow> 36 \<le> unat (x - img) \<and> unat (x - img) < 256"

lemma length_ip3_text: "length (ip3_text a b c) \<le> 48"
  using length_ip_text [of a] length_ip_text [of b] length_ip_text [of c] by (simp add: ip3_text_def)

lemma unat_diff_add: "unat (x - (img + of_nat k)) < n \<Longrightarrow> k + n < 2 ^ 32 \<Longrightarrow> unat (x - img) = unat (x - (img + of_nat k)) + k"
  for x img :: addr
proof -
  assume a: "unat (x - (img + of_nat k)) < n" "k + n < 2 ^ 32"
  have k: "unat (of_nat k :: addr) = k" using a by (subst unat_of_nat) simp
  have "x - img = (x - (img + of_nat k)) + of_nat k" by simp
  then have "unat (x - img) = unat ((x - (img + of_nat k)) + of_nat k)" by simp
  also have "\<dots> = unat (x - (img + of_nat k)) + unat (of_nat k :: addr)"
    using a k by (intro unat_add_lem [THEN iffD1]) simp
  finally show ?thesis using k by simp
qed

lemma fis_seal_put_frame:
  assumes "\<not> fis_inside img x"
  shows "fis_seal img (put_bytes m (img + 36) (ip3_text a b c)) x = m x"
proof -
  have "\<not> unat (x - (img + 248)) < 4"
    using assms unat_diff_add [of x img 248 4] by (auto simp: fis_inside_def)
  moreover have "\<not> unat (x - (img + 36)) < length (ip3_text a b c)"
    using assms unat_diff_add [of x img 36 48] length_ip3_text [of a b c] by (auto simp: fis_inside_def)
  ultimately show ?thesis using length_ip3_text [of a b c] by (simp add: fis_seal_apply put_bytes_apply)
qed

lemma fis_seal_put_ips:
  "stores (fis_seal img (put_bytes m (img + 36) (ip3_text a b c))) (img + 36) (ip3_text a b c)"
proof -
  let ?m = "put_bytes m (img + 36) (ip3_text a b c)"
  have "fis_seal img ?m (img + 36 + of_nat j) = ?m (img + 36 + of_nat j)" if "j < length (ip3_text a b c)" for j
    using unat_offset_below [of "36 + j" 248 img] that length_ip3_text [of a b c]
    by (intro fis_seal_apply) (simp add: algebra_simps)
  then have "mem_bytes (fis_seal img ?m) (img + 36) (length (ip3_text a b c)) = mem_bytes ?m (img + 36) (length (ip3_text a b c))"
    by (intro mem_bytes_cong) simp
  then show ?thesis using stores_put_bytes [of "ip3_text a b c" m "img + 36"] length_ip3_text [of a b c] by (simp add: stores_def)
qed


lemma find_loop_entry: "find_loop m fn n p = Some img \<Longrightarrow> img \<noteq> 0 \<Longrightarrow> \<exists>k<n. img = fis_entry p k"
proof (induction n arbitrary: p)
  case (Suc n)
  show ?case
  proof (cases "img = p")
    case False
    then have "find_loop m fn n (p + FIS_ENTRY_SIZE) = Some img"
      using Suc.prems by (auto split: if_splits bind_splits)
    from Suc.IH [OF this Suc.prems(2)] show ?thesis by (auto simp: fis_entry_Suc)
  qed (auto simp: fis_entry_def)
qed simp

lemma find_loop_keep:
  assumes "cstr m fn name" "cstr m' fn name" "desc_cksum m' img = fis_desc_chksum m' img"
    and "\<And>i. i < n \<Longrightarrow> cstr m (fis_entry p i) (ns i) \<and> cstr m' (fis_entry p i) (ns i)"
    and "\<And>i. i < n \<Longrightarrow> img \<noteq> fis_entry p i \<Longrightarrow> desc_cksum m' (fis_entry p i) = desc_cksum m (fis_entry p i) \<and>
      fis_desc_chksum m' (fis_entry p i) = fis_desc_chksum m (fis_entry p i)"
    and "\<And>i. i < n \<Longrightarrow> m' (fis_entry p i) = m (fis_entry p i)"
    and "find_loop m fn n p = Some img" "img \<noteq> 0"
  shows "find_loop m' fn n p = Some img"
  using assms(4-7)
proof (induction n arbitrary: p ns)
  case (Suc n)
  have p0: "fis_entry p 0 = p" by (simp add: fis_entry_def)
  have c: "sys_strncasecmp m' fn p = sys_strncasecmp m fn p" "\<exists>r. sys_strncasecmp m fn p = Some r"
    using sys_strncasecmp_cstr [OF assms(1), of p "ns 0"] sys_strncasecmp_cstr [OF assms(2), of p "ns 0"]
      Suc.prems(1) [of 0] p0 by simp_all
  have f: "m' p = m p" using Suc.prems(3) [of 0] p0 by simp
  have k: "img = p \<or> desc_cksum m' p = desc_cksum m p \<and> fis_desc_chksum m' p = fis_desc_chksum m p"
    using Suc.prems(2) [of 0] p0 by auto
  have ih: "find_loop m' fn n (p + FIS_ENTRY_SIZE) = Some img" if "find_loop m fn n (p + FIS_ENTRY_SIZE) = Some img"
    by (rule Suc.IH [of "p + FIS_ENTRY_SIZE" "\<lambda>i. ns (Suc i)"])
      (use Suc.prems(1) [of "Suc _"] Suc.prems(2) [of "Suc _"] Suc.prems(3) [of "Suc _"] that in \<open>simp_all add: fis_entry_Suc\<close>)
  from c(2) obtain r where r: "sys_strncasecmp m fn p = Some r" by blast
  show ?case using Suc.prems(4) k ih assms(3) assms(8) c r f by (auto split: if_splits)
qed simp

lemma entry_not_inside:
  assumes "k < 24" "i < 24" "j < 256" "i = k \<longrightarrow> j < 36"
  shows "\<not> fis_inside (fis_entry p k) (fis_entry p i + of_nat j)"
proof -
  have e: "fis_entry p i + of_nat j = p + of_nat (256 * i + j)" "fis_entry p k = p + of_nat (256 * k)"
    by (simp_all add: fis_entry_def FIS_ENTRY_SIZE_def algebra_simps)
  show ?thesis
  proof (cases "k \<le> i")
    case True
    then have u: "unat (fis_entry p i + of_nat j - fis_entry p k) = 256 * i + j - 256 * k"
      unfolding e using assms by (intro unat_offset) simp_all
    have "256 * i + j - 256 * k < 36 \<or> 256 \<le> 256 * i + j - 256 * k"
      using True assms by (cases "i = k") auto
    then show ?thesis unfolding fis_inside_def u by auto
  next
    case False
    then have "256 * i + j < 256 * k" using assms by linarith
    then have "2 ^ 31 \<le> unat (fis_entry p i + of_nat j - fis_entry p k)"
      unfolding e using assms by (intro unat_offset_below) simp_all
    then show ?thesis by (simp add: fis_inside_def)
  qed
qed

lemma desc_cksum_cong:
  "(\<And>j. j < 256 \<Longrightarrow> m' (img + of_nat j) = m (img + of_nat j)) \<Longrightarrow> desc_cksum m' img = desc_cksum m img"
proof -
  assume a: "\<And>j. j < 256 \<Longrightarrow> m' (img + of_nat j) = m (img + of_nat j)"
  show ?thesis using a [of 248] a [of 249] a [of 250] a [of 251]
    by (simp add: desc_cksum_def mem_le32_def add.assoc)
qed

lemma find_loop_outside:
  assumes out: "\<And>x. \<not> fis_inside img x \<Longrightarrow> m' x = m x" and "desc_cksum m' img = fis_desc_chksum m' img"
    and fn: "cstr m fn name" "\<forall>j\<le>length name. \<not> fis_inside img (fn + of_nat j)"
    and ns: "\<forall>i<24. cstr m (fis_entry p i) (ns i) \<and> length (ns i) < 36"
    and img: "find_loop m fn 24 p = Some img" "img \<noteq> 0"
  shows "find_loop m' fn 24 p = Some img"
proof -
  obtain k where k: "k < 24" "img = fis_entry p k" using find_loop_entry [OF img] by blast
  have same: "m' (fis_entry p i + of_nat j) = m (fis_entry p i + of_nat j)" if "i < 24" "j < 256" "i = k \<longrightarrow> j < 36" for i j
    using that k entry_not_inside [of k i j p] by (intro out) simp
  have fn': "cstr m' fn name" using fn by (intro cstr_cong [OF fn(1)]) (simp add: out)
  show ?thesis
  proof (rule find_loop_keep [OF fn(1) fn' assms(2) _ _ _ img])
    fix i :: nat
    assume i: "i < 24"
    have n: "cstr m (fis_entry p i) (ns i)" "length (ns i) < 36" using ns i by simp_all
    have "cstr m' (fis_entry p i) (ns i)"
      using n(1)
    proof (rule cstr_cong)
      fix j
      assume "j \<le> length (ns i)"
      then show "m' (fis_entry p i + of_nat j) = m (fis_entry p i + of_nat j)" using n(2) i by (intro same) simp_all
    qed
    then show "cstr m (fis_entry p i) (ns i) \<and> cstr m' (fis_entry p i) (ns i)" using ns i by simp
    show "m' (fis_entry p i) = m (fis_entry p i)" using same [of i 0] i by (cases "i = k") simp_all
    assume "img \<noteq> fis_entry p i"
    then have "i \<noteq> k" using k by auto
    then show "desc_cksum m' (fis_entry p i) = desc_cksum m (fis_entry p i) \<and>
        fis_desc_chksum m' (fis_entry p i) = fis_desc_chksum m (fis_entry p i)"
      using same i by (intro conjI desc_cksum_cong desc_chksum_cong) simp_all
  qed
qed


section \<open>Properties\<close>

text \<open>A directory at 0x1000 with one good entry, BOOT; the literals of the loader are at 0x9000 and 0x9100.\<close>

definition demo_sys :: "(addr \<Rightarrow> u8 list) sys" where
  "demo_sys =
     \<lparr>smem = put_bytes (put_bytes (put_bytes (\<lambda>_. 0) 0x1000 BOARD_FIS_BOOT_NAME) 0x10f8 [0x34, 1]) 0x9000 BOARD_FIS_BOOT_NAME,
      sheap = snd no_heap, sflash = small_nand, fis_datap = 0x1000, vctl_datap = 0,
      my_ip_addr = 0xc0a80001, my_ip_netmask = 0xffffff00, my_ip_gateway = 0xc0a800fe,
      my_mac_addr = default_macs, gmac_macs = []\<rparr>"

definition demo_sysenv :: "(addr \<Rightarrow> u8 list) sysenv" where
  "demo_sysenv = \<lparr>hw = plain_hw, sinfo = fst no_heap, flash_ctrl = 0x1000,
     lit = (\<lambda>s. if s = BOARD_FIS_BOOT_NAME then 0x9000 else 0x9100), apps_addr = 0, apps_size = 0, appsimg_size = 0\<rparr>"

lemma demo_smem: "smem demo_sys x = (if x = 0x1000 \<or> x = 0x9000 then 66 else if x = 0x1001 \<or> x = 0x1002 \<or> x = 0x9001 \<or> x = 0x9002 then 79
    else if x = 0x1003 \<or> x = 0x9003 then 84 else if x = 0x10f8 then 0x34 else if x = 0x10f9 then 1 else 0)"
  by (simp add: demo_sys_def BOARD_FIS_BOOT_NAME_def)

lemma demo_zero: "4 \<le> unat (x - 0x1000) \<Longrightarrow> unat (x - 0x1000) < 248 \<Longrightarrow> smem demo_sys x = 0"
  by (auto simp: demo_smem)

lemma chksum_zeros: "(\<And>j. j < n \<Longrightarrow> m (p + of_nat j) = 0) \<Longrightarrow> chksum_loop m p n acc = acc"
proof (induction n arbitrary: p)
  case (Suc n)
  have "m (p + 1 + of_nat j) = 0" if "j < n" for j
    using Suc.prems [of "Suc j"] that by (simp add: algebra_simps)
  then show ?case using Suc.IH [of "p + 1"] Suc.prems [of 0] by simp
qed simp

lemma demo_names: "i < 24 \<Longrightarrow> cstr (smem demo_sys) (fis_entry 0x1000 i) (if i = 0 then BOARD_FIS_BOOT_NAME else [])"
proof -
  assume i: "i < 24"
  have "\<forall>j\<in>set (upt 1 24). fis_entry 0x1000 j \<notin> {0x1000, 0x1001, 0x1002, 0x1003, 0x10f8, 0x10f9, 0x9000, 0x9001, 0x9002, 0x9003}"
    by (simp add: upt_rec fis_entry_def FIS_ENTRY_SIZE_def)
  moreover have "i \<noteq> 0 \<Longrightarrow> i \<in> set (upt 1 24)" using i by simp
  ultimately show ?thesis
    by (cases "i = 0") (auto simp: fis_entry_def demo_smem BOARD_FIS_BOOT_NAME_def)
qed

lemma demo_cksum: "desc_cksum (smem demo_sys) 0x1000 = 0x134" "fis_desc_chksum (smem demo_sys) 0x1000 = 0x134"
proof -
  show "desc_cksum (smem demo_sys) 0x1000 = 0x134" by (simp add: desc_cksum_def mem_le32_def demo_smem)
  have n: "unat (FIS_ENTRY_SIZE - 8) = Suc (Suc (Suc (Suc 244)))" by (simp add: FIS_ENTRY_SIZE_def)
  have "smem demo_sys (0x1004 + of_nat j) = 0" if "j < 244" for j
  proof -
    have "unat (0x1004 + of_nat j - 0x1000 :: addr) = j + 4"
      using unat_offset [of "j + 4" 0 "0x1000"] that by (simp add: algebra_simps)
    then show ?thesis using that by (intro demo_zero) simp_all
  qed
  then have "chksum_loop (smem demo_sys) 0x1004 244 acc = acc" for acc by (rule chksum_zeros)
  then show "fis_desc_chksum (smem demo_sys) 0x1000 = 0x134"
    unfolding fis_desc_chksum_def n chksum_loop.simps by (simp add: demo_smem)
qed

lemma demo_literal: "cstr (smem demo_sys) 0x9000 BOARD_FIS_BOOT_NAME"
  by (simp add: demo_smem BOARD_FIS_BOOT_NAME_def)

lemma demo_datap: "fis_datap demo_sys = 0x1000"
  by (simp add: demo_sys_def)

lemma demo_ips: "my_ip_netmask demo_sys = 0xffffff00" "my_ip_gateway demo_sys = 0xc0a800fe"
  by (simp_all add: demo_sys_def)

lemma demo_lit: "lit demo_sysenv BOARD_FIS_BOOT_NAME = 0x9000" "lit demo_sysenv ip_fmt \<noteq> 0"
  by (simp_all add: demo_sysenv_def)

lemma max_entry_Suc: "FIS_MAX_ENTRY = Suc 23"
  by (simp add: FIS_MAX_ENTRY_def)

lemma demo_find: "fis_find_image 0x9000 demo_sys = Some 0x1000"
proof -
  have "sys_strncasecmp (smem demo_sys) 0x9000 0x1000 = Some 0"
    using sys_strncasecmp_cstr [OF demo_literal, of "0x1000" BOARD_FIS_BOOT_NAME] demo_names [of 0] by (simp add: fis_entry_def)
  then show ?thesis
    unfolding fis_find_image_def max_entry_Suc find_loop.simps demo_datap using demo_cksum by (simp add: demo_smem)
qed

text \<open>The directory search returns the first entry, before the first erased one, whose name is the
  given one up to case and whose checksum is right; 0 when there is none.\<close>

lemma fis_find_image_first:
  assumes "cstr (smem s) filename name" and "\<forall>i<FIS_MAX_ENTRY. cstr (smem s) (fis_entry (fis_datap s) i) (ns i)"
  shows "fis_find_image filename s =
    Some (case List.find (\<lambda>i. fis_matches (smem s) name (ns i) (fis_entry (fis_datap s) i))
        (takeWhile (\<lambda>i. smem s (fis_entry (fis_datap s) i) \<noteq> 0xff) [0..<FIS_MAX_ENTRY])
      of None \<Rightarrow> 0 | Some i \<Rightarrow> fis_entry (fis_datap s) i)"
  unfolding fis_find_image_def using assms by (intro find_loop_find) auto

lemma fis_find_image_first_example: "fis_find_image 0x9000 demo_sys = Some 0x1000"
proof -
  have u: "[0..<FIS_MAX_ENTRY] = 0 # [1..<24]" by (simp add: FIS_MAX_ENTRY_def upt_rec)
  have n: "\<forall>i<FIS_MAX_ENTRY. cstr (smem demo_sys) (fis_entry 0x1000 i) (if i = 0 then BOARD_FIS_BOOT_NAME else [])"
    using demo_names by (simp add: FIS_MAX_ENTRY_def)
  have z: "fis_entry 0x1000 0 = 0x1000" by (simp add: fis_entry_def)
  have "fis_matches (smem demo_sys) BOARD_FIS_BOOT_NAME BOARD_FIS_BOOT_NAME 0x1000" "smem demo_sys 0x1000 \<noteq> 0xff"
    by (simp_all add: fis_matches_def demo_cksum, simp add: demo_smem)
  then show ?thesis
    using fis_find_image_first [of demo_sys "0x9000" BOARD_FIS_BOOT_NAME "\<lambda>i. if i = 0 then BOARD_FIS_BOOT_NAME else []"] n
    by (simp add: demo_datap demo_literal u z)
qed

text \<open>C11. Setting the IP address through the directory: the table that is written to flash still has
  its BOOT entry in the same place with a right checksum, the settings read back from it are the new address with the
  mask and the gateway of the configuration, and nothing outside the data and checksum of the entry
  has changed.\<close>

theorem fis_set_ip_addr_saved:
  assumes "lit E ip_fmt \<noteq> 0"
    and "cstr (smem s) (lit E BOARD_FIS_BOOT_NAME) BOARD_FIS_BOOT_NAME"
    and "\<forall>j\<le>4. \<not> fis_inside img (lit E BOARD_FIS_BOOT_NAME + of_nat j)"
    and "\<forall>i<24. cstr (smem s) (fis_entry (fis_datap s) i) (ns i) \<and> length (ns i) < 36"
    and "fis_find_image (lit E BOARD_FIS_BOOT_NAME) s = Some img" "img \<noteq> 0"
  shows "\<exists>m. fis_set_ip_addr E ipaddr s = fis_write_flash E (s\<lparr>smem := m\<rparr>) \<and>
    fis_find_image (lit E BOARD_FIS_BOOT_NAME) (s\<lparr>smem := m\<rparr>) = Some img \<and>
    fis_get_ips (img + 36) m = Some (ipaddr, my_ip_netmask s, my_ip_gateway s) \<and>
    (\<forall>x. fis_inside img x \<or> m x = smem s x)"
proof -
  define m where "m = fis_seal img (put_bytes (smem s) (img + 36) (ip3_text ipaddr (my_ip_netmask s) (my_ip_gateway s)))"
  have out: "\<not> fis_inside img x \<Longrightarrow> m x = smem s x" for x by (simp add: m_def fis_seal_put_frame)
  have "fis_set_ip_addr E ipaddr s = fis_write_flash E (s\<lparr>smem := m\<rparr>)"
    using assms(5,6) by (simp add: fis_set_ip_addr_def fis_put_ips_eq [OF assms(1)] m_def)
  moreover have "find_loop m (lit E BOARD_FIS_BOOT_NAME) 24 (fis_datap s) = Some img"
    using assms(3-6) by (intro find_loop_outside [OF out _ assms(2)])
      (simp_all add: m_def fis_seal_matches fis_find_image_def FIS_MAX_ENTRY_def BOARD_FIS_BOOT_NAME_def)
  moreover have "fis_get_ips (img + 36) m = Some (ipaddr, my_ip_netmask s, my_ip_gateway s)"
    unfolding m_def by (intro fis_get_ips_eq fis_seal_put_ips)
  ultimately show ?thesis using out by (intro exI [of _ m]) (auto simp: fis_find_image_def FIS_MAX_ENTRY_def)
qed

theorem fis_set_ip_addr_saved_witness:
  "\<exists>m. fis_set_ip_addr demo_sysenv 0x0a000001 demo_sys = fis_write_flash demo_sysenv (demo_sys\<lparr>smem := m\<rparr>) \<and>
    fis_get_ips 0x1024 m = Some (0x0a000001, 0xffffff00, 0xc0a800fe)"
proof -
  have "\<not> fis_inside 0x1000 (0x9000 + of_nat j)" if "j \<le> 4" for j
    using unat_offset [of "0x8000 + j" 0 "0x1000"] that by (simp add: fis_inside_def)
  then have "\<exists>m. fis_set_ip_addr demo_sysenv 0x0a000001 demo_sys = fis_write_flash demo_sysenv (demo_sys\<lparr>smem := m\<rparr>) \<and>
    fis_find_image (lit demo_sysenv BOARD_FIS_BOOT_NAME) (demo_sys\<lparr>smem := m\<rparr>) = Some 0x1000 \<and>
    fis_get_ips (0x1000 + 36) m = Some (0x0a000001, my_ip_netmask demo_sys, my_ip_gateway demo_sys) \<and>
    (\<forall>x. fis_inside 0x1000 x \<or> m x = smem demo_sys x)"
    by (intro fis_set_ip_addr_saved [where ns = "\<lambda>i. if i = 0 then BOARD_FIS_BOOT_NAME else []"])
      (insert \<open>\<And>j. j \<le> 4 \<Longrightarrow> \<not> fis_inside 0x1000 (0x9000 + of_nat j)\<close>, simp_all add: demo_lit demo_literal demo_datap demo_find demo_names, simp add: BOARD_FIS_BOOT_NAME_def)
  then show ?thesis by (simp add: demo_ips) blast
qed

end
