(* ===== verification/Vctl.thy ===== *)
theory Vctl
  imports Fis
begin

text \<open>
  The version control area (\<open>src/src/sys/sys_vctl.c\<close>): a header and a sequence of typed entries in
  flash, of which a copy is kept in RAM at \<open>vctl_datap\<close>; and the part of \<open>src/src/sys/sys_cfg.c\<close> that
  loads and saves the configuration.  The configuration is that of \<open>Fis\<close>: with the image directory, on NAND flash.

  The local buffer \<open>entry_buf\<close> of each function lies on the stack; its address is the parameter
  \<open>entry_buf\<close>.  A \<open>return;\<close> of a function with a result is \<open>None\<close> inside the result, and what its
  caller does when it looks at it is not defined (\<open>None\<close>).
\<close>

section \<open>Layout\<close>

definition VCTL_HDR_MAGIC :: "u8 list" where "VCTL_HDR_MAGIC = map of_char ''FLFM''"
definition VCTL_ENTRY_MAGIC :: "u8 list" where "VCTL_ENTRY_MAGIC = map of_char ''FLEN''"
definition VCTL_MAGIC_SIZE :: u32 where "VCTL_MAGIC_SIZE = 4"
definition VCTL_HDR_SIZE :: u32 where "VCTL_HDR_SIZE = 8"
definition VCTL_ENTRY_SIZE :: u32 where "VCTL_ENTRY_SIZE = 20"
definition VCT_VLAN :: u32 where "VCT_VLAN = 8"
definition VCT_RECOVER :: u32 where "VCT_RECOVER = 9"
definition VCT_IP :: u32 where "VCT_IP = 0x80"
definition VCT_BOOT_FILE :: u32 where "VCT_BOOT_FILE = 0x81"

definition entry_num :: "mem \<Rightarrow> addr \<Rightarrow> u32" where "entry_num m mhead = mem_le32 m (mhead + 4)"
definition entry_size :: "mem \<Rightarrow> addr \<Rightarrow> u32" where "entry_size m entry = mem_le32 m (entry + 4)"
definition entry_type :: "mem \<Rightarrow> addr \<Rightarrow> u32" where "entry_type m entry = mem_le32 m (entry + 8)"

section \<open>Entries\<close>

fun get_entry_loop ::
  "'c sysenv \<Rightarrow> u32 \<Rightarrow> addr \<Rightarrow> int \<Rightarrow> nat \<Rightarrow> addr \<Rightarrow> 'c sys \<Rightarrow> (int option \<times> 'c sys) option" where
  "get_entry_loop E type result sz 0 entry s = Some (Some (-1), s)"
| "get_entry_loop E type result sz (Suc n) entry s =
     (let esize = entry_size (smem s) entry in
      if entry_type (smem s) entry = type then
        (if sint esize \<le> sz then map_option (Pair (Some 0)) (sys_copy E result entry esize s)
         else Some (Some (-1), s))
      else if entry + esize > vctl_datap s + BOARD_FLASH_VCTLIMG_SIZE then Some (Some (-1), s)
      else get_entry_loop E type result sz n (entry + esize) s)"

definition sys_get_vctl_entry ::
  "'c sysenv \<Rightarrow> u32 \<Rightarrow> addr \<Rightarrow> int \<Rightarrow> 'c sys \<Rightarrow> (int option \<times> 'c sys) option" where
  "sys_get_vctl_entry E type result sz s =
     Option.bind (fis_find_image (lit E BOARD_FIS_VCTL_NAME) s) (\<lambda>img.
       if img = 0 then Some (None, s)
       else
         (let mhead = vctl_datap s; num = entry_num (smem s) mhead in
          if sys_memcmp (smem s) mhead (lit E VCTL_HDR_MAGIC) VCTL_MAGIC_SIZE \<noteq> 0 \<or> num = 0 then Some (Some (-1), s)
          else if num > 128 then Some (Some (-1), s)
          else get_entry_loop E type result sz (unat num) (mhead + VCTL_HDR_SIZE) s))"

text \<open>The locals of the loop of \<open>sys_save_vctl_entry\<close>.\<close>

record save_vars =
  verctl_buf :: addr
  new_bytes :: u32
  new_total :: u32
  added :: bool

definition save_copy :: "'c sysenv \<Rightarrow> addr \<Rightarrow> u32 \<Rightarrow> bool \<Rightarrow> save_vars \<Rightarrow> 'c sys \<Rightarrow> (save_vars \<times> 'c sys) option" where
  "save_copy E srce sz new v s =
     (if new_bytes v + sz < BOARD_FLASH_VCTLIMG_SIZE then
        map_option (Pair (v\<lparr>verctl_buf := verctl_buf v + sz, new_bytes := new_bytes v + sz,
            new_total := new_total v + 1, added := added v \<or> new\<rparr>))
          (sys_copy E (verctl_buf v) srce sz s)
      else Some (v, s))"

fun save_loop ::
  "'c sysenv \<Rightarrow> u32 \<Rightarrow> addr \<Rightarrow> u32 \<Rightarrow> nat \<Rightarrow> addr \<Rightarrow> save_vars \<Rightarrow> 'c sys \<Rightarrow> (save_vars \<times> 'c sys) option" where
  "save_loop E type dp sz 0 entry v s = Some (v, s)"
| "save_loop E type dp sz (Suc n) entry v s =
     (let esize = entry_size (smem s) entry in
      Option.bind
        (if entry_type (smem s) entry \<noteq> type then save_copy E entry esize False v s
         else if \<not> added v then save_copy E dp sz True v s
         else Some (v, s))
        (\<lambda>(v, s).
          if entry + esize > vctl_datap s + BOARD_FLASH_VCTLIMG_SIZE then Some (v, s)
          else save_loop E type dp sz n (entry + esize) v s))"

text \<open>The new contents of the area, built in the fresh block at \<open>new_hdr\<close>.\<close>

definition save_build :: "'c sysenv \<Rightarrow> u32 \<Rightarrow> addr \<Rightarrow> u32 \<Rightarrow> addr \<Rightarrow> 'c sys \<Rightarrow> (save_vars \<times> 'c sys) option" where
  "save_build E type dp sz new_hdr s =
     (let mhead = vctl_datap s;
          org_total = (if sys_memcmp (smem s) mhead (lit E VCTL_HDR_MAGIC) VCTL_MAGIC_SIZE \<noteq> 0 then 0
                       else nat (sint (entry_num (smem s) mhead))) in
      Option.bind (sys_copy E new_hdr (lit E VCTL_HDR_MAGIC) VCTL_MAGIC_SIZE s) (\<lambda>s.
      Option.bind (save_loop E type dp sz org_total (mhead + VCTL_HDR_SIZE)
          \<lparr>verctl_buf = new_hdr + VCTL_HDR_SIZE, new_bytes = VCTL_HDR_SIZE, new_total = 0, added = False\<rparr> s) (\<lambda>(v, s).
      Option.bind (if \<not> added v then save_copy E dp sz True v s else Some (v, s)) (\<lambda>(v, s).
        Some (v, s\<lparr>smem := put32 (smem s) (new_hdr + 4) (new_total v)\<rparr>)))))"

definition sys_save_vctl_entry ::
  "'c sysenv \<Rightarrow> u32 \<Rightarrow> addr \<Rightarrow> u32 \<Rightarrow> 'c sys \<Rightarrow> (int option \<times> 'c sys) option" where
  "sys_save_vctl_entry E type dp sz s =
     Option.bind (fis_find_image (lit E BOARD_FIS_VCTL_NAME) s) (\<lambda>img.
       if img = 0 then Some (None, s)
       else
         (let vctl_addr = flash_base (smem s) img in
          Option.bind (sys_malloc (sinfo E) BOARD_FLASH_VCTLIMG_SIZE (sheap s)) (\<lambda>(new_hdr, h).
          (let s = s\<lparr>sheap := h\<rparr> in
           if new_hdr = 0 then Some (Some (-1), s)
           else
             Option.bind (save_build E type dp sz new_hdr s) (\<lambda>(v, s).
             map_option (\<lambda>(stat, err_addr, fl). (None, s\<lparr>sflash := fl\<rparr>))
               (flash_nand_program (hw E) vctl_addr (mem_bytes (smem s) new_hdr (unat (new_bytes v))) 0
                 (file_size (smem s) img) (sflash s)))))))"

section \<open>MAC addresses\<close>

fun hex_pairs :: "mem \<Rightarrow> addr \<Rightarrow> nat \<Rightarrow> u8 list" where
  "hex_pairs m cp 0 = []"
| "hex_pairs m cp (Suc n) = ucast (char2hex (m cp) * 16 + char2hex (m (cp + 1))) # hex_pairs m (cp + 2) n"

text \<open>A \<open>sprintf\<close> of MAC bytes, and one into memory; both with the length it returns.\<close>

definition mac_args :: "u8 list \<Rightarrow> arg list" where
  "mac_args mac = map (\<lambda>b. ArgInt (ucast b)) (take 6 mac)"

definition put_text :: "'c sysenv \<Rightarrow> addr \<Rightarrow> u8 list \<Rightarrow> arg list \<Rightarrow> mem \<Rightarrow> (int \<times> mem) option" where
  "put_text E dp fmt args m =
     map_option (\<lambda>(t, n). (n, put_bytes m dp (t @ [0]))) (sys_sprintf [] [] (lit E fmt) fmt args)"

definition mac_fmt :: "u8 list" where "mac_fmt = map of_char ''%02X%02X%02X%02X%02X%02X:''"
definition mac1_fmt :: "u8 list" where "mac1_fmt = map of_char ''MAC1:0x%02X%02X%02X%02X%02X%02X:ID1:1:MAP1:0x10:''"
definition mac2_fmt :: "u8 list" where "mac2_fmt = map of_char ''MAC2:0x%02X%02X%02X%02X%02X%02X:ID2:2:MAP2:0x0f''"

text \<open>\<open>sprintf(mac_buf, ...); memcpy(cp, mac_buf, 13);\<close>\<close>

definition put_mac :: "'c sysenv \<Rightarrow> addr \<Rightarrow> u8 list \<Rightarrow> mem \<Rightarrow> mem option" where
  "put_mac E cp mac m =
     map_option (\<lambda>(t, _). put_bytes m cp (take 13 (t @ [0]))) (sys_sprintf [] [] (lit E mac_fmt) mac_fmt (mac_args mac))"

text \<open>The head of a new entry.\<close>

definition new_entry :: "'c sysenv \<Rightarrow> addr \<Rightarrow> u32 \<Rightarrow> 'c sys \<Rightarrow> 'c sys option" where
  "new_entry E entry type s =
     map_option (\<lambda>s. s\<lparr>smem := put32 (put32
         (sys_memset (sys_memset (smem s) (entry + 12) 0x30 4) (entry + 16) 0x30 4)
         (entry + 8) type) (entry + 4) VCTL_ENTRY_SIZE\<rparr>)
       (sys_copy E entry (lit E VCTL_ENTRY_MAGIC) VCTL_MAGIC_SIZE s)"

definition save_entry :: "'c sysenv \<Rightarrow> u32 \<Rightarrow> addr \<Rightarrow> 'c sys \<Rightarrow> 'c sys option" where
  "save_entry E type entry s = map_option snd (sys_save_vctl_entry E type entry (entry_size (smem s) entry) s)"

definition sys_set_vctl_mac :: "'c sysenv \<Rightarrow> addr \<Rightarrow> u8 list \<Rightarrow> u8 list \<Rightarrow> 'c sys \<Rightarrow> 'c sys option" where
  "sys_set_vctl_mac E entry_buf mac1 mac2 s =
     Option.bind (sys_get_vctl_entry E VCT_VLAN entry_buf 128
         (s\<lparr>smem := sys_memset (smem s) entry_buf 0 128\<rparr>)) (\<lambda>(r, s).
       case r of None \<Rightarrow> None
       | Some r \<Rightarrow>
         if r = 0 then
           Option.bind (put_mac E (entry_buf + VCTL_ENTRY_SIZE + 7) mac1 (smem s)) (\<lambda>m.
           Option.bind (put_mac E (entry_buf + VCTL_ENTRY_SIZE + 43) mac2 m) (\<lambda>m.
             save_entry E VCT_VLAN entry_buf (s\<lparr>smem := m\<rparr>)))
         else
           Option.bind (new_entry E entry_buf VCT_VLAN s) (\<lambda>s.
           (let cp = entry_buf + VCTL_ENTRY_SIZE in
            Option.bind (put_text E cp mac1_fmt (mac_args mac1) (smem s)) (\<lambda>(len, m).
            (let m = put32 m (entry_buf + 4) (entry_size m entry_buf + of_int len); cp = cp + of_int len in
             Option.bind (put_text E cp mac2_fmt (mac_args mac2) m) (\<lambda>(len, m).
               save_entry E VCT_VLAN entry_buf
                 (s\<lparr>smem := put32 m (entry_buf + 4) (entry_size m entry_buf + of_int (len + 1))\<rparr>)))))))"

text \<open>\<open>sys_get_vctl_mac\<close> returns the two addresses it leaves; \<open>entry_buf'\<close> is the buffer of the
  \<open>sys_set_vctl_mac\<close> it calls when an address is followed by a zero byte.\<close>

definition sys_get_vctl_mac ::
  "'c sysenv \<Rightarrow> addr \<Rightarrow> addr \<Rightarrow> u8 list \<Rightarrow> u8 list \<Rightarrow> 'c sys \<Rightarrow> (u8 list \<times> u8 list \<times> 'c sys) option" where
  "sys_get_vctl_mac E entry_buf entry_buf' mac1 mac2 s =
     Option.bind (sys_get_vctl_entry E VCT_VLAN entry_buf 128 s) (\<lambda>(r, s).
       case r of None \<Rightarrow> None
       | Some r \<Rightarrow>
         if r = 0 then
           (let m = smem s; cp1 = entry_buf + VCTL_ENTRY_SIZE + 7; cp2 = entry_buf + VCTL_ENTRY_SIZE + 43;
                mac1 = hex_pairs m cp1 6; mac2 = hex_pairs m cp2 6 in
            if m (cp1 + 12) = 0 \<or> m (cp2 + 12) = 0 then
              map_option (\<lambda>s. (mac1, mac2, s)) (sys_set_vctl_mac E entry_buf' mac1 mac2 s)
            else Some (mac1, mac2, s))
         else Some (mac1, mac2, s))"

section \<open>IP settings\<close>

partial_function (option) sys_find_str :: "mem \<Rightarrow> addr \<Rightarrow> addr \<Rightarrow> addr option" where
  "sys_find_str m strp1 strp2 =
     (if m strp1 = 0 then Some 0
      else if sys_toupper (m strp1) = sys_toupper (m strp2) then
        Option.bind (sys_strlen m strp2) (\<lambda>n.
          if sys_memicmp m strp1 strp2 n = 0 then Some strp1 else sys_find_str m (strp1 + 1) strp2)
      else sys_find_str m (strp1 + 1) strp2)"

partial_function (option) sys_copy_str :: "mem \<Rightarrow> addr \<Rightarrow> addr \<Rightarrow> (addr \<times> mem) option" where
  "sys_copy_str m strp1 strp2 =
     (if m strp2 \<noteq> 0 \<and> m strp2 \<noteq> 0x20 then sys_copy_str (m(strp1 := m strp2)) (strp1 + 1) (strp2 + 1)
      else Some (strp2, m(strp1 := 0)))"

definition ip_key :: "u8 list" where "ip_key = map of_char ''IP:''"
definition netmask_key :: "u8 list" where "netmask_key = map of_char ''Netmask:''"
definition gateway_key :: "u8 list" where "gateway_key = map of_char ''Gateway:''"

text \<open>The three values behind their keywords; one that is not found leaves the rest as it was.\<close>

definition read_ips :: "'c sysenv \<Rightarrow> mem \<Rightarrow> addr \<Rightarrow> u32 \<times> u32 \<times> u32 \<Rightarrow> (u32 \<times> u32 \<times> u32) option" where
  "read_ips E m cp = (\<lambda>(ipaddr, netmask, gateway).
     Option.bind (sys_find_str m cp (lit E ip_key)) (\<lambda>cp.
       if cp = 0 then Some (ipaddr, netmask, gateway)
       else
         Option.bind (str2ip m (cp + 3)) (\<lambda>ipaddr.
         Option.bind (sys_find_str m (cp + 3) (lit E netmask_key)) (\<lambda>cp.
           if cp = 0 then Some (ipaddr, netmask, gateway)
           else
             Option.bind (str2ip m (cp + 8)) (\<lambda>netmask.
             Option.bind (sys_find_str m (cp + 8) (lit E gateway_key)) (\<lambda>cp.
               if cp = 0 then Some (ipaddr, netmask, gateway)
               else map_option (\<lambda>gateway. (ipaddr, netmask, gateway)) (str2ip m (cp + 8))))))))"

definition sys_get_vctl_ip ::
  "'c sysenv \<Rightarrow> addr \<Rightarrow> u32 \<times> u32 \<times> u32 \<Rightarrow> 'c sys \<Rightarrow> ((u32 \<times> u32 \<times> u32) \<times> 'c sys) option" where
  "sys_get_vctl_ip E entry_buf ips s =
     Option.bind (sys_get_vctl_entry E VCT_IP entry_buf 128 s) (\<lambda>(r, s).
       case r of None \<Rightarrow> None
       | Some r \<Rightarrow>
         if r = 0 then map_option (\<lambda>ips. (ips, s)) (read_ips E (smem s) (entry_buf + VCTL_ENTRY_SIZE) ips)
         else Some (ips, s))"

definition ip_args :: "u32 \<Rightarrow> arg list" where
  "ip_args ip = [ArgInt (IP1 ip), ArgInt (IP2 ip), ArgInt (IP3 ip), ArgInt (IP4 ip)]"

definition vctl_ip_fmt :: "u8 list" where
  "vctl_ip_fmt = map of_char ''IP:%d.%d.%d.%d Netmask:%d.%d.%d.%d Gateway:%d.%d.%d.%d''"

definition vctl_recover_fmt :: "u8 list" where
  "vctl_recover_fmt = map of_char ''IP:%d.%d.%d.%d Netmask:%d.%d.%d.%d Server:%d.%d.%d.%d Recover:%d''"

definition round4 :: "u32 \<Rightarrow> u32" where "round4 n = (n + 3) AND NOT 3"

text \<open>The setters of text entries: the entry is read or created, its text and size are replaced.\<close>

definition set_text_entry ::
  "'c sysenv \<Rightarrow> addr \<Rightarrow> u32 \<Rightarrow> u32 \<Rightarrow> u8 list \<Rightarrow> (mem \<Rightarrow> arg list option) \<Rightarrow> 'c sys \<Rightarrow> 'c sys option" where
  "set_text_entry E entry_buf buf_len type fmt args s =
     Option.bind (sys_get_vctl_entry E type entry_buf (sint buf_len)
         (s\<lparr>smem := sys_memset (smem s) entry_buf 0 buf_len\<rparr>)) (\<lambda>(r, s).
       case r of None \<Rightarrow> None
       | Some r \<Rightarrow>
         Option.bind (if r = 0 then Some s else new_entry E entry_buf type s) (\<lambda>s.
         Option.bind (args (smem s)) (\<lambda>args.
         Option.bind (put_text E (entry_buf + VCTL_ENTRY_SIZE) fmt args (smem s)) (\<lambda>(len, m).
           save_entry E type entry_buf
             (s\<lparr>smem := put32 m (entry_buf + 4) (round4 (of_int len + VCTL_ENTRY_SIZE + 1))\<rparr>)))))"

definition sys_set_vctl_ip :: "'c sysenv \<Rightarrow> addr \<Rightarrow> u32 \<Rightarrow> u32 \<Rightarrow> u32 \<Rightarrow> 'c sys \<Rightarrow> 'c sys option" where
  "sys_set_vctl_ip E entry_buf ipaddr netmask gateway s =
     set_text_entry E entry_buf 128 VCT_IP vctl_ip_fmt
       (\<lambda>_. Some (ip_args ipaddr @ ip_args netmask @ ip_args gateway)) s"

definition sys_set_vctl_recover ::
  "'c sysenv \<Rightarrow> addr \<Rightarrow> u32 \<Rightarrow> u32 \<Rightarrow> u32 \<Rightarrow> u32 \<Rightarrow> 'c sys \<Rightarrow> 'c sys option" where
  "sys_set_vctl_recover E entry_buf ipaddr netmask gateway recovery s =
     set_text_entry E entry_buf 128 VCT_RECOVER vctl_recover_fmt
       (\<lambda>_. Some (ip_args ipaddr @ ip_args netmask @ ip_args gateway @ [ArgInt recovery])) s"

section \<open>Boot file names\<close>

definition boot_file_fmt :: "u8 list" where "boot_file_fmt = map of_char ''1:0x%X %s 2:0x%X %s''"

definition str_at :: "mem \<Rightarrow> addr \<Rightarrow> u8 list option" where
  "str_at m p = map_option (\<lambda>n. mem_bytes m p (unat n)) (sys_strlen m p)"

definition boot_file_args :: "addr \<Rightarrow> u32 \<Rightarrow> addr \<Rightarrow> u32 \<Rightarrow> mem \<Rightarrow> arg list option" where
  "boot_file_args f1_name f1_addr f2_name f2_addr m =
     Option.bind (str_at m f1_name) (\<lambda>t1.
     Option.bind (str_at m f2_name) (\<lambda>t2.
       Some [ArgInt f1_addr, ArgStr f1_name t1, ArgInt f2_addr, ArgStr f2_name t2]))"

definition sys_set_vctl_boot_file :: "'c sysenv \<Rightarrow> addr \<Rightarrow> addr \<Rightarrow> u32 \<Rightarrow> addr \<Rightarrow> u32 \<Rightarrow> 'c sys \<Rightarrow> 'c sys option" where
  "sys_set_vctl_boot_file E entry_buf f1_name f1_addr f2_name f2_addr s =
     set_text_entry E entry_buf 512 VCT_BOOT_FILE boot_file_fmt (boot_file_args f1_name f1_addr f2_name f2_addr) s"

text \<open>One \<open>n:value name\<close> group; the result is the place behind it, 0 when the function returns early.\<close>

definition read_boot_file ::
  "'c sysenv \<Rightarrow> u8 list \<Rightarrow> addr \<Rightarrow> addr \<Rightarrow> u32 \<Rightarrow> mem \<Rightarrow> (addr \<times> u32 \<times> mem) option" where
  "read_boot_file E key f_name cp f_addr m =
     Option.bind (sys_find_str m cp (lit E key)) (\<lambda>cp.
       if cp = 0 then Some (0, f_addr, m)
       else
         Option.bind (str2value m (cp + 2)) (\<lambda>f_addr.
         Option.bind (sys_find_str m (cp + 2) (lit E [0x20])) (\<lambda>cp.
           if cp = 0 then Some (0, f_addr, m)
           else map_option (\<lambda>(cp, m). (cp, f_addr, m)) (sys_copy_str m f_name (cp + 1)))))"

definition sys_get_vctl_boot_file ::
  "'c sysenv \<Rightarrow> addr \<Rightarrow> addr \<Rightarrow> u32 \<Rightarrow> addr \<Rightarrow> u32 \<Rightarrow> 'c sys \<Rightarrow> (u32 \<times> u32 \<times> 'c sys) option" where
  "sys_get_vctl_boot_file E entry_buf f1_name f1_addr f2_name f2_addr s =
     Option.bind (sys_get_vctl_entry E VCT_BOOT_FILE entry_buf 512 s) (\<lambda>(r, s).
       case r of None \<Rightarrow> None
       | Some r \<Rightarrow>
         if r = 0 then
           Option.bind (read_boot_file E (map of_char ''1:'') f1_name (entry_buf + VCTL_ENTRY_SIZE) f1_addr (smem s))
             (\<lambda>(cp, f1_addr, m).
               if cp = 0 then Some (f1_addr, f2_addr, s\<lparr>smem := m\<rparr>)
               else map_option (\<lambda>(cp, f2_addr, m). (f1_addr, f2_addr, s\<lparr>smem := m\<rparr>))
                 (read_boot_file E (map of_char ''2:'') f2_name cp f2_addr m))
         else Some (f1_addr, f2_addr, s))"

section \<open>Initialisation\<close>

definition sys_vctl_init :: "'c sysenv \<Rightarrow> addr \<Rightarrow> addr \<Rightarrow> 'c sys \<Rightarrow> (int option \<times> 'c sys) option" where
  "sys_vctl_init E entry_buf entry_buf' s =
     Option.bind (fis_find_image (lit E BOARD_FIS_VCTL_NAME) s) (\<lambda>img.
       if img = 0 then Some (None, s)
       else
         Option.bind (sys_malloc (sinfo E) BOARD_FLASH_VCTLIMG_SIZE (sheap s)) (\<lambda>(p, h).
         Option.bind (sys_copy E p (flash_base (smem s) img) BOARD_FLASH_VCTLIMG_SIZE (s\<lparr>sheap := h, vctl_datap := p\<rparr>)) (\<lambda>s.
         Option.bind (sys_get_vctl_entry E VCT_VLAN entry_buf 128 s) (\<lambda>(r, s).
           case r of None \<Rightarrow> None
           | Some r \<Rightarrow>
             map_option (Pair (Some 0))
               (if r \<noteq> 0 then sys_set_vctl_mac E entry_buf' (default_macs ! 0) (default_macs ! 1) s else Some s)))))"

definition sys_init_cfg :: "'c sysenv \<Rightarrow> addr \<Rightarrow> addr \<Rightarrow> 'c sys \<Rightarrow> 'c sys option" where
  "sys_init_cfg E entry_buf entry_buf' s =
     (let s = s\<lparr>my_ip_addr := IPIV 192 168 0 200, my_ip_netmask := IPIV 255 255 255 0,
                my_ip_gateway := IPIV 192 168 0 254\<rparr> in
      Option.bind (sys_get_vctl_mac E entry_buf entry_buf' (my_mac_addr s ! 0) (my_mac_addr s ! 1) s) (\<lambda>(mac1, mac2, s).
      (let s = s\<lparr>my_mac_addr := [mac1, mac2]\<rparr> in
       map_option (\<lambda>((ipaddr, netmask, gateway), s).
           s\<lparr>my_ip_addr := ipaddr, my_ip_netmask := netmask, my_ip_gateway := gateway\<rparr>)
         (sys_get_vctl_ip E entry_buf (my_ip_addr s, my_ip_netmask s, my_ip_gateway s) s))))"

definition sys_save_mac :: "'c sysenv \<Rightarrow> addr \<Rightarrow> 'c sys \<Rightarrow> 'c sys option" where
  "sys_save_mac E entry_buf s = sys_set_vctl_mac E entry_buf (my_mac_addr s ! 0) (my_mac_addr s ! 1) s"

definition sys_save_ip_cfg :: "'c sysenv \<Rightarrow> addr \<Rightarrow> 'c sys \<Rightarrow> 'c sys option" where
  "sys_save_ip_cfg E entry_buf s = sys_set_vctl_ip E entry_buf (my_ip_addr s) (my_ip_netmask s) (my_ip_gateway s) s"

section \<open>Regions of memory\<close>

definition apart :: "addr \<Rightarrow> nat \<Rightarrow> addr \<Rightarrow> nat \<Rightarrow> bool" where
  "apart q n p k \<longleftrightarrow> (\<forall>i<n. \<forall>j<k. q + of_nat i \<noteq> p + of_nat j)"

definition outside :: "addr \<Rightarrow> nat \<Rightarrow> addr \<Rightarrow> bool" where
  "outside q n x \<longleftrightarrow> (\<forall>i<n. x \<noteq> q + of_nat i)"

lemma apart_sub:
  "apart q n p k \<Longrightarrow> i + n' \<le> n \<Longrightarrow> j + k' \<le> k \<Longrightarrow> apart (q + of_nat i) n' (p + of_nat j) k'"
  unfolding apart_def
proof (intro allI impI)
  fix a b
  assume "\<forall>i<n. \<forall>j<k. q + of_nat i \<noteq> p + of_nat j" "i + n' \<le> n" "j + k' \<le> k" "a < n'" "b < k'"
  then have "q + of_nat (i + a) \<noteq> p + of_nat (j + b)" by (metis add_less_cancel_left order_less_le_trans)
  then show "q + of_nat i + of_nat a \<noteq> p + of_nat j + of_nat b" by (simp add: add.assoc)
qed

lemma apart_outside: "apart q n p k \<Longrightarrow> j < k \<Longrightarrow> outside q n (p + of_nat j)"
  unfolding apart_def outside_def by metis

lemma put_bytes_outside: "outside q (length xs) x \<Longrightarrow> put_bytes m q xs x = m x"
proof (induction xs arbitrary: m q)
  case (Cons y xs)
  have "outside (q + 1) (length xs) x"
    unfolding outside_def
  proof (intro allI impI)
    fix i assume "i < length xs"
    then show "x \<noteq> q + 1 + of_nat i" using Cons.prems by (simp add: outside_def add.assoc) (metis Suc_less_eq of_nat_Suc)
  qed
  moreover have "x \<noteq> q" using Cons.prems by (auto simp: outside_def dest: spec [of _ 0])
  ultimately show ?case using Cons.IH [of "q + 1" "m(q := y)"] by (simp del: fun_upd_apply) simp
qed simp

lemma outside_sub: "outside q n x \<Longrightarrow> i + n' \<le> n \<Longrightarrow> outside (q + of_nat i) n' x"
  unfolding outside_def
proof (intro allI impI)
  fix a assume "\<forall>i<n. x \<noteq> q + of_nat i" "i + n' \<le> n" "a < n'"
  then have "x \<noteq> q + of_nat (i + a)" by (metis add_less_cancel_left order_less_le_trans)
  then show "x \<noteq> q + of_nat i + of_nat a" by (simp add: add.assoc)
qed

lemma sys_copy_ram:
  assumes "srce < BOARD_FLASH_BASE_ADDR" and "apart dest (unat n) srce (unat n)"
  shows "sys_copy E dest srce n s = Some (s\<lparr>smem := put_bytes (smem s) dest (mem_bytes (smem s) srce (unat n))\<rparr>)"
  using assms by (simp add: sys_copy_def memcpy_put_bytes apart_def linorder_not_le [symmetric])

section \<open>Entries as byte lists\<close>

definition le32 :: "u32 \<Rightarrow> u8 list" where
  "le32 v = [ucast v, ucast (drop_bit 8 v), ucast (drop_bit 16 v), ucast (drop_bit 24 v)]"

definition ent_type :: "u8 list \<Rightarrow> u32" where "ent_type e = le32_at e 8"

text \<open>A well formed entry: its size field is its length, and it has at least the head.\<close>

definition ent_ok :: "u8 list \<Rightarrow> bool" where
  "ent_ok e \<longleftrightarrow> 20 \<le> length e \<and> length e < 0x20000 \<and> le32_at e 4 = of_nat (length e)"

definition area_bytes :: "u8 list list \<Rightarrow> u8 list" where
  "area_bytes es = VCTL_HDR_MAGIC @ le32 (of_nat (length es)) @ concat es"

lemma stores_nth: "stores m p xs \<Longrightarrow> i < length xs \<Longrightarrow> m (p + of_nat i) = xs ! i"
  using nth_mem_bytes [of i "length xs" m p] by (simp add: stores_def)

lemma stores_le32_at: "stores m p e \<Longrightarrow> i + 3 < length e \<Longrightarrow> mem_le32 m (p + of_nat i) = le32_at e i"
proof -
  assume s: "stores m p e" "i + 3 < length e"
  have "m (p + of_nat i + of_nat k) = e ! (i + k)" if "k < 4" for k
    using stores_nth [OF s(1), of "i + k"] s(2) that by (simp add: add.assoc)
  from this [of 0] this [of 1] this [of 2] this [of 3] show ?thesis
    by (simp add: mem_le32_def le32_at_def)
qed

lemma stores_entry:
  assumes "stores m p e" "ent_ok e"
  shows "entry_size m p = of_nat (length e)" "entry_type m p = ent_type e"
  using stores_le32_at [OF assms(1), of 4] stores_le32_at [OF assms(1), of 8] assms(2)
  by (simp_all add: entry_size_def entry_type_def ent_type_def ent_ok_def)

lemma stores_le32: "stores m p (le32 v) \<Longrightarrow> mem_le32 m p = v"
  by (simp add: le32_def mem_le32_iff add.assoc)

lemma area_parts:
  assumes "stores m p (area_bytes es)"
  shows "mem_bytes m p 4 = VCTL_HDR_MAGIC" "entry_num m p = of_nat (length es)" "stores m (p + 8) (concat es)"
proof -
  have l: "length VCTL_HDR_MAGIC = 4" "length (le32 v) = 4" for v by (simp_all add: VCTL_HDR_MAGIC_def le32_def)
  have "stores m p VCTL_HDR_MAGIC" "stores m (p + 4) (le32 (of_nat (length es)))" "stores m (p + 8) (concat es)"
    using assms l by (simp_all add: area_bytes_def stores_append add.assoc)
  then show "mem_bytes m p 4 = VCTL_HDR_MAGIC" "entry_num m p = of_nat (length es)" "stores m (p + 8) (concat es)"
    using l by (simp_all add: stores_def [of m p] entry_num_def stores_le32)
qed


section \<open>Reading an entry\<close>

definition AREA :: nat where "AREA = 0x20000"

lemma area_size: "BOARD_FLASH_VCTLIMG_SIZE = of_nat AREA"
  by (simp add: BOARD_FLASH_VCTLIMG_SIZE_def AREA_def)

lemma area_inside:
  assumes "unat p + AREA \<le> 0x30000000" "k < AREA"
  shows "\<not> p + of_nat k > p + BOARD_FLASH_VCTLIMG_SIZE" "p + of_nat k < BOARD_FLASH_BASE_ADDR"
proof -
  have u: "unat (p + of_nat j) = unat p + j" if "j \<le> AREA" for j
    using assms that by (simp add: unat_word_ariths unat_of_nat take_bit_nat_eq_self AREA_def)
  show "\<not> p + of_nat k > p + BOARD_FLASH_VCTLIMG_SIZE" "p + of_nat k < BOARD_FLASH_BASE_ADDR"
    using u [of k] u [of AREA] assms by (simp_all add: area_size word_less_nat_alt BOARD_FLASH_BASE_ADDR_def AREA_def)
qed

lemma ent_ok_length: "ent_ok e \<Longrightarrow> unat (of_nat (length e) :: u32) = length e" "ent_ok e \<Longrightarrow> sint (of_nat (length e) :: u32) = int (length e)"
  by (simp_all add: ent_ok_def unat_of_nat take_bit_nat_eq_self sint_of_nat_small)

lemma get_loop_find:
  assumes "unat (vctl_datap s) + AREA \<le> 0x30000000"
    and "stores (smem s) (vctl_datap s + of_nat k) (concat es)" and "\<forall>e\<in>set es. ent_ok e"
    and "k + length (concat es) < AREA" and "apart result (nat sz) (vctl_datap s) AREA"
  shows "get_entry_loop E type result sz (length es) (vctl_datap s + of_nat k) s =
    Some (case List.find (\<lambda>e. ent_type e = type) es of
        None \<Rightarrow> (Some (-1), s)
      | Some e \<Rightarrow> if int (length e) \<le> sz then (Some 0, s\<lparr>smem := put_bytes (smem s) result e\<rparr>) else (Some (-1), s))"
  using assms(2-4)
proof (induction es arbitrary: k)
  case (Cons e es)
  have st: "stores (smem s) (vctl_datap s + of_nat k) e" "stores (smem s) (vctl_datap s + of_nat (k + length e)) (concat es)"
    using Cons.prems(1) by (simp_all add: stores_append add.assoc)
  have e: "ent_ok e" and k: "k + length e < AREA" "length e \<le> AREA" using Cons.prems by (simp_all add: ent_ok_def)
  note f = stores_entry [OF st(1) e]
  show ?case
  proof (cases "ent_type e = type")
    case True
    have "sys_copy E result (vctl_datap s + of_nat k) (of_nat (length e)) s = Some (s\<lparr>smem := put_bytes (smem s) result e\<rparr>)"
      if "int (length e) \<le> sz"
    proof -
      have "apart (result + of_nat 0) (length e) (vctl_datap s + of_nat k) (length e)"
        using k that by (intro apart_sub [OF assms(5)]) simp_all
      then show ?thesis
        using sys_copy_ram [OF area_inside(2) [OF assms(1), of k], of result "of_nat (length e)" E s] k st(1) ent_ok_length [OF e]
        by (simp add: stores_def)
    qed
    then show ?thesis using f True ent_ok_length [OF e] by (simp add: Let_def)
  next
    case False
    show ?thesis
      using Cons.IH [OF st(2)] Cons.prems f False area_inside(1) [OF assms(1) k(1)] by (simp add: Let_def add.assoc)
  qed
qed simp

text \<open>What the functions of the area rely on: the image directory knows it, the literal of its head,
  and the copy in RAM, a well formed list of entries below the flash window.\<close>

definition vctl_ready :: "'c sysenv \<Rightarrow> u8 list list \<Rightarrow> 'c sys \<Rightarrow> bool" where
  "vctl_ready E es s \<longleftrightarrow>
     (\<exists>img. fis_find_image (lit E BOARD_FIS_VCTL_NAME) s = Some img \<and> img \<noteq> 0) \<and>
     stores (smem s) (lit E VCTL_HDR_MAGIC) VCTL_HDR_MAGIC \<and>
     stores (smem s) (vctl_datap s) (area_bytes es) \<and> length (area_bytes es) < AREA \<and> length es \<le> 128 \<and>
     (\<forall>e\<in>set es. ent_ok e) \<and> unat (vctl_datap s) + AREA \<le> 0x30000000"

lemma length_area: "length (area_bytes es) = 8 + length (concat es)"
  by (simp add: area_bytes_def VCTL_HDR_MAGIC_def le32_def)

lemma area_head:
  assumes "stores m p (area_bytes es)" "stores m l VCTL_HDR_MAGIC"
  shows "sys_memcmp m p l VCTL_MAGIC_SIZE = 0"
proof -
  have "length VCTL_HDR_MAGIC = 4" by (simp add: VCTL_HDR_MAGIC_def)
  then have "mem_bytes m l 4 = VCTL_HDR_MAGIC" using assms(2) by (simp add: stores_def)
  then show ?thesis using area_parts(1) [OF assms(1)]
    by (simp add: sys_memcmp_def VCTL_MAGIC_SIZE_def memcmp_loop_eq_0)
qed

lemma get_entry_find:
  assumes "vctl_ready E es s" and "apart result (nat sz) (vctl_datap s) AREA"
  shows "sys_get_vctl_entry E type result sz s =
    Some (case List.find (\<lambda>e. ent_type e = type) es of
        None \<Rightarrow> (Some (-1), s)
      | Some e \<Rightarrow> if int (length e) \<le> sz then (Some 0, s\<lparr>smem := put_bytes (smem s) result e\<rparr>) else (Some (-1), s))"
proof -
  obtain img where img: "fis_find_image (lit E BOARD_FIS_VCTL_NAME) s = Some img" "img \<noteq> 0"
    using assms(1) by (auto simp: vctl_ready_def)
  have r: "stores (smem s) (lit E VCTL_HDR_MAGIC) VCTL_HDR_MAGIC" "stores (smem s) (vctl_datap s) (area_bytes es)"
    "length (area_bytes es) < AREA" "length es \<le> 128" "\<forall>e\<in>set es. ent_ok e" "unat (vctl_datap s) + AREA \<le> 0x30000000"
    using assms(1) by (simp_all add: vctl_ready_def)
  note a = area_parts [OF r(2)]
  have n: "unat (of_nat (length es) :: u32) = length es" using r(4) by (simp add: unat_of_nat take_bit_nat_eq_self)
  have z1: "\<not> (of_nat (length es) :: u32) > 128" using r(4) n by (simp add: word_less_nat_alt)
  have z2: "(of_nat (length es) :: u32) = 0 \<longleftrightarrow> es = []"
    using n by (cases es) auto
  have l: "get_entry_loop E type result sz (length es) (vctl_datap s + of_nat 8) s =
    Some (case List.find (\<lambda>e. ent_type e = type) es of
        None \<Rightarrow> (Some (-1), s)
      | Some e \<Rightarrow> if int (length e) \<le> sz then (Some 0, s\<lparr>smem := put_bytes (smem s) result e\<rparr>) else (Some (-1), s))"
    using a(3) r assms(2) by (intro get_loop_find) (simp_all add: length_area)
  show ?thesis
    using l img z1 z2 area_head [OF r(2,1)] by (cases "es = []") (simp_all add: sys_get_vctl_entry_def a(2) n VCTL_HDR_SIZE_def)
qed


section \<open>Writing an entry\<close>

text \<open>The list of entries after a save: the first entry of the type is replaced, further ones are
  dropped, and the new entry comes last when there is none.\<close>

fun merge_entries :: "u32 \<Rightarrow> u8 list \<Rightarrow> bool \<Rightarrow> u8 list list \<Rightarrow> u8 list list" where
  "merge_entries type new done [] = []"
| "merge_entries type new done (e # es) =
     (if ent_type e \<noteq> type then e # merge_entries type new done es
      else (if done then [] else [new]) @ merge_entries type new True es)"

definition vctl_update :: "u32 \<Rightarrow> u8 list \<Rightarrow> u8 list list \<Rightarrow> u8 list list" where
  "vctl_update type new es =
     merge_entries type new False es @ (if \<exists>e\<in>set es. ent_type e = type then [] else [new])"

lemma merge_none: "\<forall>e\<in>set es. ent_type e \<noteq> type \<Longrightarrow> merge_entries type new d es = es"
  by (induction es) auto

definition agrees :: "addr \<Rightarrow> mem \<Rightarrow> mem \<Rightarrow> bool" where
  "agrees q m m' \<longleftrightarrow> (\<forall>x. outside q AREA x \<longrightarrow> m' x = m x)"

lemma agrees_stores: "agrees q m m' \<Longrightarrow> apart q AREA p (length xs) \<Longrightarrow> stores m' p xs = stores m p xs"
proof -
  assume a: "agrees q m m'" "apart q AREA p (length xs)"
  have "mem_bytes m' p (length xs) = mem_bytes m p (length xs)"
    using a apart_outside [OF a(2)] by (intro mem_bytes_cong) (simp add: agrees_def)
  then show ?thesis by (simp add: stores_def)
qed

lemma agrees_refl: "agrees q m m" by (simp add: agrees_def)

lemma agrees_put: "agrees q m m' \<Longrightarrow> k + length xs \<le> AREA \<Longrightarrow> agrees q m (put_bytes m' (q + of_nat k) xs)"
  unfolding agrees_def using outside_sub [of q AREA _ k "length xs"] put_bytes_outside by metis

lemma mem_bytes_snoc_put:
  assumes "mem_bytes m q n = out" and "n + length xs \<le> 2 ^ 32"
  shows "mem_bytes (put_bytes m (q + of_nat n) xs) q (n + length xs) = out @ xs"
proof -
  have "mem_bytes (put_bytes m (q + of_nat n) xs) q (n + length xs) = splice n xs (mem_bytes m q (n + length xs))"
    using assms(2) by (intro put_bytes_splice) simp_all
  moreover have "length out = n" using assms(1) by auto
  ultimately show ?thesis using assms(1) by (simp add: mem_bytes_append splice_def)
qed

definition vars_of :: "addr \<Rightarrow> nat \<Rightarrow> nat \<Rightarrow> bool \<Rightarrow> save_vars" where
  "vars_of q n t a = \<lparr>verctl_buf = q + of_nat n, new_bytes = of_nat n, new_total = of_nat t, added = a\<rparr>"

lemma save_copy_block:
  assumes "srce < BOARD_FLASH_BASE_ADDR" and "apart q AREA srce (length xs)" and "stores m srce xs"
    and "agrees q m (smem s)" and "n + length xs < AREA"
  shows "save_copy E srce (of_nat (length xs)) new (vars_of q n t a) s =
    Some (vars_of q (n + length xs) (t + 1) (a \<or> new), s\<lparr>smem := put_bytes (smem s) (q + of_nat n) xs\<rparr>)"
proof -
  have u: "unat (of_nat (length xs) :: u32) = length xs" "unat (of_nat (n + length xs) :: u32) = n + length xs"
    using assms(5) by (simp_all add: unat_of_nat take_bit_nat_eq_self AREA_def del: of_nat_add)
  have lt: "of_nat n + of_nat (length xs) < BOARD_FLASH_VCTLIMG_SIZE"
    using u(2) assms(5) by (simp add: word_less_nat_alt BOARD_FLASH_VCTLIMG_SIZE_def AREA_def)
  have "apart (q + of_nat n) (length xs) (srce + of_nat 0) (length xs)"
    using assms(2,5) by (intro apart_sub [of q AREA srce "length xs"]) simp_all
  moreover have "stores (smem s) srce xs" using agrees_stores assms(2-4) by blast
  ultimately have "sys_copy E (q + of_nat n) srce (of_nat (length xs)) s = Some (s\<lparr>smem := put_bytes (smem s) (q + of_nat n) xs\<rparr>)"
    using sys_copy_ram [OF assms(1), of "q + of_nat n" "of_nat (length xs)" E s] u(1) by (simp add: stores_def)
  then show ?thesis using lt by (simp add: save_copy_def vars_of_def algebra_simps)
qed

lemma save_loop_merge:
  assumes p: "unat p + AREA \<le> 0x30000000" "apart q AREA p AREA"
    and d: "d < BOARD_FLASH_BASE_ADDR" "apart q AREA d (length new)" "stores m d new"
  shows "stores m (p + of_nat k) (concat es) \<Longrightarrow> \<forall>e\<in>set es. ent_ok e \<Longrightarrow> k + length (concat es) < AREA \<Longrightarrow>
    vctl_datap s = p \<Longrightarrow> agrees q m (smem s) \<Longrightarrow>
    n + length (concat es) + (if a then 0 else length new) < AREA \<Longrightarrow> mem_bytes (smem s) q n = out \<Longrightarrow>
    \<exists>m'. save_loop E type d (of_nat (length new)) (length es) (p + of_nat k) (vars_of q n t a) s =
        Some (vars_of q (n + length (concat (merge_entries type new a es))) (t + length (merge_entries type new a es))
           (a \<or> (\<exists>e\<in>set es. ent_type e = type)), s\<lparr>smem := m'\<rparr>) \<and>
      agrees q m m' \<and>
      mem_bytes m' q (n + length (concat (merge_entries type new a es))) = out @ concat (merge_entries type new a es)"
proof (induction es arbitrary: k n t a s out)
  case Nil
  then show ?case by (intro exI [of _ "smem s"]) simp
next
  case (Cons e es)
  have st: "stores m (p + of_nat k) e" "stores m (p + of_nat (k + length e)) (concat es)"
    using Cons.prems(1) by (simp_all add: stores_append add.assoc)
  have e: "ent_ok e" and k: "k + length e < AREA" "k < AREA" using Cons.prems by (simp_all add: ent_ok_def)
  have ap: "apart q AREA (p + of_nat k) (length e)"
    using apart_sub [OF p(2), of 0 AREA k "length e"] k by simp
  have "stores (smem s) (p + of_nat k) e" using agrees_stores [OF Cons.prems(5) ap] st(1) by simp
  note f = stores_entry [OF this e]
  have brk: "\<not> p + of_nat k + of_nat (length e) > p + BOARD_FLASH_VCTLIMG_SIZE"
    using area_inside(1) [OF p(1) k(1)] by (simp add: add.assoc)
  have nx: "p + of_nat k + of_nat (length e) = p + of_nat (k + length e)" by (simp add: add.assoc)
  show ?case
  proof (cases "ent_type e = type")
    case False
    let ?s = "s\<lparr>smem := put_bytes (smem s) (q + of_nat n) e\<rparr>"
    have c: "save_copy E (p + of_nat k) (of_nat (length e)) False (vars_of q n t a) s = Some (vars_of q (n + length e) (t + 1) a, ?s)"
      using save_copy_block [OF area_inside(2) [OF p(1) k(2)] ap st(1) Cons.prems(5), of n E False t a] Cons.prems(6) by simp
    have "agrees q m (smem ?s)" "mem_bytes (smem ?s) q (n + length e) = out @ e"
      using agrees_put [OF Cons.prems(5), of n e] mem_bytes_snoc_put [OF Cons.prems(7), of e] Cons.prems(6) by (simp_all add: AREA_def)
    from Cons.IH [OF st(2) _ _ _ this(1) _ this(2), of a "t + 1"] Cons.prems
    obtain m' where "save_loop E type d (of_nat (length new)) (length es) (p + of_nat (k + length e)) (vars_of q (n + length e) (t + 1) a) ?s =
        Some (vars_of q (n + length e + length (concat (merge_entries type new a es))) (t + 1 + length (merge_entries type new a es))
           (a \<or> (\<exists>e\<in>set es. ent_type e = type)), ?s\<lparr>smem := m'\<rparr>)" "agrees q m m'"
      "mem_bytes m' q (n + length e + length (concat (merge_entries type new a es))) = (out @ e) @ concat (merge_entries type new a es)"
      by auto
    then show ?thesis using c brk f False Cons.prems(4)
      by (intro exI [of _ m']) (simp add: Let_def nx [unfolded of_nat_add] add.assoc)
  next
    case True
    show ?thesis
    proof (cases a)
      case True
      from Cons.IH [OF st(2) _ _ Cons.prems(4,5) _ Cons.prems(7), of True t] Cons.prems
      obtain m' where "save_loop E type d (of_nat (length new)) (length es) (p + of_nat (k + length e)) (vars_of q n t True) s =
        Some (vars_of q (n + length (concat (merge_entries type new True es))) (t + length (merge_entries type new True es))
           True, s\<lparr>smem := m'\<rparr>)" "agrees q m m'"
        "mem_bytes m' q (n + length (concat (merge_entries type new True es))) = out @ concat (merge_entries type new True es)"
        using True by auto
      then show ?thesis using brk f Cons.prems(4) True \<open>ent_type e = type\<close>
        by (intro exI [of _ m']) (simp add: Let_def nx [unfolded of_nat_add] add.assoc, simp add: vars_of_def)
    next
      case False
      let ?s = "s\<lparr>smem := put_bytes (smem s) (q + of_nat n) new\<rparr>"
      have l: "n + length new < AREA" using Cons.prems(6) False by simp
      have c: "save_copy E d (of_nat (length new)) True (vars_of q n t a) s = Some (vars_of q (n + length new) (t + 1) True, ?s)"
        using save_copy_block [OF d Cons.prems(5) l, of E True t a] by simp
      have "agrees q m (smem ?s)" "mem_bytes (smem ?s) q (n + length new) = out @ new"
        using agrees_put [OF Cons.prems(5), of n new] mem_bytes_snoc_put [OF Cons.prems(7), of new] l by (simp_all add: AREA_def)
      from Cons.IH [OF st(2) _ _ _ this(1) _ this(2), of True "t + 1"] Cons.prems False
      obtain m' where "save_loop E type d (of_nat (length new)) (length es) (p + of_nat (k + length e)) (vars_of q (n + length new) (t + 1) True) ?s =
        Some (vars_of q (n + length new + length (concat (merge_entries type new True es))) (t + 1 + length (merge_entries type new True es))
           True, ?s\<lparr>smem := m'\<rparr>)" "agrees q m m'"
      "mem_bytes m' q (n + length new + length (concat (merge_entries type new True es))) = (out @ new) @ concat (merge_entries type new True es)"
        by auto
      then show ?thesis using c brk f True False Cons.prems(4)
        by (intro exI [of _ m']) (simp add: Let_def nx [unfolded of_nat_add] add.assoc, simp add: vars_of_def)
    qed
  qed
qed

lemma length_merge_done: "length (concat (merge_entries type new True es)) \<le> length (concat es)"
  by (induction es) auto

lemma length_merge: "length (concat (merge_entries type new d es)) \<le> length (concat es) + length new"
proof (induction es arbitrary: d)
  case (Cons e es)
  show ?case using Cons.IH [of d] length_merge_done [of type new es] by (auto intro: order_trans)
qed simp

lemma length_update: "length (concat (vctl_update type new es)) \<le> length (concat es) + length new"
proof (cases "\<exists>e\<in>set es. ent_type e = type")
  case True
  then show ?thesis using length_merge [of type new False es] by (simp add: vctl_update_def)
next
  case False
  then have "merge_entries type new False es = es" by (intro merge_none) auto
  then show ?thesis using False by (auto simp: vctl_update_def)
qed

lemma save_build_area:
  assumes r: "vctl_ready E es s"
    and new: "length (area_bytes es) + length new < AREA" "stores (smem s) d new" "d < BOARD_FLASH_BASE_ADDR"
    and ap: "apart q AREA (vctl_datap s) AREA" "apart q AREA d (length new)" "apart q AREA (lit E VCTL_HDR_MAGIC) 4"
    and lt: "lit E VCTL_HDR_MAGIC < BOARD_FLASH_BASE_ADDR"
    and es': "es' = vctl_update type new es"
  shows "\<exists>m'. save_build E type d (of_nat (length new)) q s =
      Some (vars_of q (length (area_bytes es')) (length es') True, s\<lparr>smem := m'\<rparr>) \<and>
    mem_bytes m' q (length (area_bytes es')) = area_bytes es' \<and> agrees q (smem s) m'"
proof -
  let ?m = "smem s" and ?p = "vctl_datap s" and ?A = "length (concat es)"
  have rd: "stores ?m (lit E VCTL_HDR_MAGIC) VCTL_HDR_MAGIC" "stores ?m ?p (area_bytes es)"
    "length (area_bytes es) < AREA" "length es \<le> 128" "\<forall>e\<in>set es. ent_ok e" "unat ?p + AREA \<le> 0x30000000"
    using r by (simp_all add: vctl_ready_def)
  note a = area_parts [OF rd(2)]
  have l4: "length VCTL_HDR_MAGIC = 4" "unat VCTL_MAGIC_SIZE = 4" by (simp_all add: VCTL_HDR_MAGIC_def VCTL_MAGIC_SIZE_def)
  have num: "nat (sint (entry_num ?m ?p)) = length es" using rd(4) by (simp add: a(2) sint_of_nat_small)
  define m0 where "m0 = put_bytes ?m q VCTL_HDR_MAGIC"
  define g where "g = mem_bytes m0 (q + 4) 4"
  have "apart (q + of_nat 0) 4 (lit E VCTL_HDR_MAGIC + of_nat 0) 4"
    using ap(3) by (rule apart_sub) (simp_all add: AREA_def)
  then have c0: "sys_copy E q (lit E VCTL_HDR_MAGIC) VCTL_MAGIC_SIZE s = Some (s\<lparr>smem := m0\<rparr>)"
    using sys_copy_ram [OF lt, of q VCTL_MAGIC_SIZE E s] rd(1) l4 by (simp add: m0_def stores_def)
  have ag0: "agrees q ?m m0" unfolding m0_def
    using agrees_put [OF agrees_refl, of 0 VCTL_HDR_MAGIC q ?m] l4 by (simp add: AREA_def)
  have h0: "mem_bytes m0 q 8 = VCTL_HDR_MAGIC @ g"
    using mem_bytes_append [of m0 q 4 4] mem_bytes_put_bytes [of VCTL_HDR_MAGIC ?m q] l4 by (simp add: m0_def g_def)
  have bound: "8 + ?A + (if False then 0 else length new) < AREA" using new(1) by (simp add: length_area)
  have st8: "stores ?m (?p + of_nat 8) (concat es)" using a(3) by simp
  from save_loop_merge [OF rd(6) ap(1) new(3) ap(2) new(2) st8 rd(5) _ _ _ bound, of "s\<lparr>smem := m0\<rparr>" "VCTL_HDR_MAGIC @ g" E type 0]
  obtain m1 where m1: "save_loop E type d (of_nat (length new)) (length es) (?p + 8) (vars_of q 8 0 False) (s\<lparr>smem := m0\<rparr>) =
        Some (vars_of q (8 + length (concat (merge_entries type new False es))) (length (merge_entries type new False es))
           (\<exists>e\<in>set es. ent_type e = type), s\<lparr>smem := m1\<rparr>)" "agrees q ?m m1"
      "mem_bytes m1 q (8 + length (concat (merge_entries type new False es))) = (VCTL_HDR_MAGIC @ g) @ concat (merge_entries type new False es)"
    using rd(3) ag0 h0 by (auto simp: length_area)
  let ?v1 = "vars_of q (8 + length (concat (merge_entries type new False es))) (length (merge_entries type new False es)) (\<exists>e\<in>set es. ent_type e = type)"
  have "\<exists>m2. (if \<not> added ?v1 then save_copy E d (of_nat (length new)) True ?v1 (s\<lparr>smem := m1\<rparr>) else Some (?v1, s\<lparr>smem := m1\<rparr>)) =
      Some (vars_of q (8 + length (concat es')) (length es') True, s\<lparr>smem := m2\<rparr>) \<and> agrees q ?m m2 \<and>
      mem_bytes m2 q (8 + length (concat es')) = (VCTL_HDR_MAGIC @ g) @ concat es'"
  proof (cases "\<exists>e\<in>set es. ent_type e = type")
    case True
    then show ?thesis using m1(2,3) by (intro exI [of _ m1]) (simp add: vars_of_def es' vctl_update_def)
  next
    case False
    then have me: "merge_entries type new False es = es" by (intro merge_none) auto
    have l: "8 + ?A + length new < AREA" using bound by simp
    have "save_copy E d (of_nat (length new)) True (vars_of q (8 + ?A) (length es) False) (s\<lparr>smem := m1\<rparr>) =
        Some (vars_of q (8 + ?A + length new) (length es + 1) True, s\<lparr>smem := put_bytes m1 (q + of_nat (8 + ?A)) new\<rparr>)"
      using save_copy_block [OF new(3) ap(2) new(2) _ l, of "s\<lparr>smem := m1\<rparr>" E True "length es" False] m1(2) by simp
    moreover have "agrees q ?m (put_bytes m1 (q + of_nat (8 + ?A)) new)" using agrees_put [OF m1(2), of "8 + ?A" new] l by simp
    moreover have "mem_bytes (put_bytes m1 (q + of_nat (8 + ?A)) new) q (8 + ?A + length new) = ((VCTL_HDR_MAGIC @ g) @ concat es) @ new"
      using mem_bytes_snoc_put [of m1 q "8 + ?A" _ new] m1(3) l unfolding me by (simp add: AREA_def)
    ultimately show ?thesis using False me
      by (intro exI [of _ "put_bytes m1 (q + of_nat (8 + ?A)) new"]) (auto simp: vars_of_def es' vctl_update_def add.assoc)
  qed
  then obtain m2 where m2: "(if \<not> added ?v1 then save_copy E d (of_nat (length new)) True ?v1 (s\<lparr>smem := m1\<rparr>) else Some (?v1, s\<lparr>smem := m1\<rparr>)) =
      Some (vars_of q (8 + length (concat es')) (length es') True, s\<lparr>smem := m2\<rparr>)" "agrees q ?m m2"
      "mem_bytes m2 q (8 + length (concat es')) = (VCTL_HDR_MAGIC @ g) @ concat es'"
    by blast
  have len': "8 + length (concat es') < AREA" using bound length_update [of type new es] by (simp add: es')
  define m3 where "m3 = put32 m2 (q + 4) (of_nat (length es'))"
  have p32: "m3 = put_bytes m2 (q + of_nat 4) (le32 (of_nat (length es')))"
    by (simp add: m3_def put32_bytes_eq le32_def)
  have "mem_bytes m3 q (8 + length (concat es')) = splice 4 (le32 (of_nat (length es'))) ((VCTL_HDR_MAGIC @ g) @ concat es')"
    unfolding p32 m2(3) [symmetric] using len' by (intro put_bytes_splice) (simp_all add: le32_def AREA_def)
  then have bytes: "mem_bytes m3 q (8 + length (concat es')) = area_bytes es'"
    using l4 by (simp add: splice_def area_bytes_def le32_def g_def)
  have ag3: "agrees q ?m m3" unfolding p32
    by (rule agrees_put [OF m2(2)]) (simp add: le32_def AREA_def)
  have v0: "\<lparr>verctl_buf = q + 8, new_bytes = 8, new_total = 0, added = False\<rparr> = vars_of q 8 0 False"
    by (simp add: vars_of_def)
  have "save_build E type d (of_nat (length new)) q s = Some (vars_of q (8 + length (concat es')) (length es') True, s\<lparr>smem := m3\<rparr>)"
    unfolding save_build_def Let_def num VCTL_HDR_SIZE_def v0 area_head [OF rd(2,1)] c0
    by (simp only: simp_thms if_False bind.bind_lunit m1(1) m2(1) prod.case) (simp add: vars_of_def m3_def)
  then show ?thesis using bytes ag3 by (intro exI [of _ m3]) (simp add: length_area)
qed

lemma toupper_zero: "sys_toupper c = 0 \<longleftrightarrow> c = 0"
proof -
  have "c = 0x20" if "c - 0x20 = 0" using that by simp
  then show ?thesis by (auto simp: sys_toupper_def split: if_splits)
qed

section \<open>Searching and the IP text\<close>

lemma first_occ_skip:
  "b \<noteq> [] \<Longrightarrow> \<forall>c\<in>set bs. c \<noteq> hd b \<Longrightarrow> first_occ b (bs @ x) = map_option ((+) (length bs)) (first_occ b x)"
proof (induction bs)
  case (Cons c bs)
  then have "take (length b) (c # bs @ x) \<noteq> b" by (cases b) auto
  then show ?case using Cons by (simp add: option.map_comp o_def)
next
  case Nil
  then show ?case by (cases "first_occ b x") simp_all
qed

lemma first_occ_prefix: "first_occ b (b @ x) = Some 0"
  by (cases b; cases x) simp_all

lemma find_str_cstr:
  assumes "cstr m q b" and "b \<noteq> []"
  shows "cstr m p a \<Longrightarrow> length b < 2 ^ 32 \<Longrightarrow> sys_find_str m p q =
    Some (case first_occ (map sys_toupper b) (map sys_toupper a) of None \<Rightarrow> 0 | Some i \<Rightarrow> p + of_nat i)"
proof (induction a arbitrary: p)
  case Nil
  then show ?case using assms(2) by (subst sys_find_str.simps) simp
next
  case (Cons c a)
  have n: "m p \<noteq> 0" "m p = c" using Cons.prems(1) by simp_all
  have l: "sys_strlen m q = Some (of_nat (length b))" by (rule sys_strlen_cstr [OF assms(1)])
  have u: "unat (of_nat (length b) :: u32) = length b" using Cons.prems(2) by (simp add: unat_of_nat take_bit_nat_eq_self)
  have q: "mem_bytes m q (length b) = b" using cstr_mem_bytes [OF assms(1)] .
  have z: "0 \<notin> set b" "0 \<notin> set (c # a)" using assms(1) Cons.prems(1) by (simp_all add: cstr_stores)
  have cmp: "sys_memicmp m p q (of_nat (length b)) = 0 \<longleftrightarrow>
      take (length b) (map sys_toupper (c # a)) = map sys_toupper b"
  proof (cases "length b \<le> length (c # a)")
    case True
    have "mem_bytes m p (length (c # a)) = c # a" using cstr_mem_bytes [OF Cons.prems(1)] .
    then have "mem_bytes m p (length b) = take (length b) (c # a)"
      using mem_bytes_append [of m p "length b" "length (c # a) - length b"] True by (metis append_eq_conv_conj le_add_diff_inverse length_mem_bytes)
    then show ?thesis by (simp only: sys_memicmp_def u memicmp_loop_eq_0 q take_map)
  next
    case False
    let ?k = "length (c # a)"
    have "m (p + of_nat ?k) = 0" by (rule cstr_end [OF Cons.prems(1)])
    then have "map sys_toupper (mem_bytes m p (length b)) ! ?k = 0" using False by (simp add: nth_mem_bytes sys_toupper_def del: length_Cons)
    moreover have "map sys_toupper b ! ?k \<noteq> 0" using False z(1) nth_mem [of ?k b] toupper_zero by (auto simp del: length_Cons nth_mem)
    ultimately have "map sys_toupper (mem_bytes m p (length b)) \<noteq> map sys_toupper b" by metis
    moreover have "take (length b) (map sys_toupper (c # a)) \<noteq> map sys_toupper b" using False by (auto dest: arg_cong [of _ _ length])
    ultimately show ?thesis by (simp add: sys_memicmp_def u memicmp_loop_eq_0 q)
  qed
  have hd: "sys_toupper (m p) \<noteq> sys_toupper (m q) \<Longrightarrow> take (length b) (map sys_toupper (c # a)) \<noteq> map sys_toupper b"
    using assms n(2) by (cases b) auto
  have ih: "sys_find_str m (p + 1) q = Some (case first_occ (map sys_toupper b) (map sys_toupper a) of None \<Rightarrow> 0 | Some i \<Rightarrow> p + 1 + of_nat i)"
    using Cons by simp
  show ?case
    using ih cmp hd n l by (subst sys_find_str.simps) (auto simp: algebra_simps split: option.splits)
qed

definition vctl_ip_text :: "u32 \<Rightarrow> u32 \<Rightarrow> u32 \<Rightarrow> u8 list" where
  "vctl_ip_text a b c = ip_key @ ip_text a @ 0x20 # netmask_key @ ip_text b @ 0x20 # gateway_key @ ip_text c"

lemma vprintf_lit:
  "\<forall>c\<in>set s. c \<notin> {0, 0x25, 0x0a} \<Longrightarrow> vprintf_loop (s @ fmt) args n bf =
    map_option (\<lambda>(ps, res). (map Putc s @ ps, res + int (length s))) (vprintf_loop fmt args n bf)"
proof (induction s)
  case (Cons c s)
  then show ?case by (cases "vprintf_loop fmt args n bf") (auto simp: vprintf_plain)
next
  case Nil
  then show ?case by (cases "vprintf_loop fmt args n bf") auto
qed

definition cvt_buf :: "u32 \<Rightarrow> u8 list \<Rightarrow> u8 list" where
  "cvt_buf v bf = dec_text (unat v) @ [0] @ drop (length (dec_text (unat v)) + 1) bf"

lemma vprintf_ip_args:
  "vprintf_loop (ip_fmt @ fmt) (ip_args ip @ args) n bf =
    map_option (\<lambda>(ps, res). (map Putc (ip_text ip) @ ps, res + int (length (ip_text ip))))
      (vprintf_loop fmt args (-1) (cvt_buf (IP4 ip) (cvt_buf (IP3 ip) (cvt_buf (IP2 ip) (cvt_buf (IP1 ip) bf)))))"
proof -
  have u: "unat (IP1 ip) < 2 ^ 31" "unat (IP2 ip) < 2 ^ 31" "unat (IP3 ip) < 2 ^ 31" "unat (IP4 ip) < 2 ^ 31"
    using unat_IP_less [of ip] by (simp_all add: less_trans)
  note d = vprintf_d [folded cvt_buf_def] 
  show ?thesis
    by (simp add: ip_fmt_def ip_args_def d [OF u(1)] d [OF u(2)] d [OF u(3)] d [OF u(4)] vprintf_plain)
      (cases "vprintf_loop fmt args (-1) (cvt_buf (IP4 ip) (cvt_buf (IP3 ip) (cvt_buf (IP2 ip) (cvt_buf (IP1 ip) bf))))";
       auto simp: ip_text_def)
qed

lemma sys_sprintf_vctl_ip:
  assumes "fmt_addr \<noteq> 0"
  shows "sys_sprintf old buf0 fmt_addr vctl_ip_fmt (ip_args a @ ip_args b @ ip_args c) =
    Some (vctl_ip_text a b c, int (length (vctl_ip_text a b c)))"
proof (rule sprintf_puts [OF assms])
  have f: "vctl_ip_fmt @ [0] = ip_key @ ip_fmt @ (0x20 # netmask_key) @ ip_fmt @ (0x20 # gateway_key) @ ip_fmt @ [0]"
    by (simp add: vctl_ip_fmt_def ip_fmt_def ip_key_def netmask_key_def gateway_key_def)
  have k: "\<forall>c\<in>set ip_key. c \<notin> {0, 0x25, 0x0a}" "\<forall>c\<in>set (0x20 # netmask_key). c \<notin> {0, 0x25, 0x0a}"
    "\<forall>c\<in>set (0x20 # gateway_key). c \<notin> {0, 0x25, 0x0a}"
    by (simp_all add: ip_key_def netmask_key_def gateway_key_def)
  show "vprintf_loop (vctl_ip_fmt @ [0]) (ip_args a @ ip_args b @ ip_args c) 0 buf0 =
      Some (map Putc (vctl_ip_text a b c), int (length (vctl_ip_text a b c)))"
    unfolding f vprintf_lit [OF k(1)] vprintf_ip_args vprintf_lit [OF k(2)] vprintf_lit [OF k(3)]
    using vprintf_ip_args [of "[0]" c "[]"] by (simp add: vprintf_end vctl_ip_text_def)
  show "8 \<notin> set (vctl_ip_text a b c)" "0 \<notin> set (vctl_ip_text a b c)"
    using ip_text_chars [of 8] ip_text_chars [of 0]
    by (auto simp: is_digit_def vctl_ip_text_def ip_key_def netmask_key_def gateway_key_def)
qed (simp_all add: vctl_ip_fmt_def vctl_ip_text_def ip_key_def)

lemma str2ip_text_end: "stores m p (ip_text ip @ [e]) \<Longrightarrow> \<not> is_digit e \<Longrightarrow> str2ip m p = Some ip"
proof -
  assume "stores m p (ip_text ip @ [e])" "\<not> is_digit e"
  then have "str2ip m p = Some (IPIV (dec_value (dec_text (unat (IP1 ip)))) (dec_value (dec_text (unat (IP2 ip))))
      (dec_value (dec_text (unat (IP3 ip)))) (dec_value (dec_text (unat (IP4 ip)))))"
    using dec_text_digits by (intro str2ip_dotted) (auto simp: ip_text_def)
  then show "str2ip m p = Some ip" by (simp add: dec_value_text IPIV_parts)
qed

text \<open>A keyword behind an address.\<close>

lemma find_key:
  assumes "cstr m q key" "key \<noteq> []" "length key < 2 ^ 32" "sys_toupper (hd key) \<notin> set [0x20, 0x2e]" "\<not> is_digit (sys_toupper (hd key))"
    and "cstr m p (ip_text ip @ 0x20 # key @ rest)"
  shows "sys_find_str m p q = Some (p + of_nat (length (ip_text ip) + 1))"
proof -
  have up: "sys_toupper c = c" if "c \<in> set (ip_text ip @ [0x20])" for c
    using that ip_text_chars [of c ip] by (auto simp: sys_toupper_def is_digit_def word_le_nat_alt)
  then have mp: "map sys_toupper (ip_text ip @ [0x20]) = ip_text ip @ [0x20]" by (rule map_idI)
  have "\<forall>c\<in>set (ip_text ip @ [0x20]). c \<noteq> hd (map sys_toupper key)"
    using assms(2,4,5) ip_text_chars [of _ ip] by (cases key) auto
  then have "first_occ (map sys_toupper key) ((ip_text ip @ [0x20]) @ map sys_toupper key @ map sys_toupper rest) =
      map_option ((+) (length (ip_text ip @ [0x20]))) (Some 0)"
    using assms(2) first_occ_prefix [of "map sys_toupper key"] by (subst first_occ_skip) simp_all
  moreover have "map sys_toupper (ip_text ip @ 0x20 # key @ rest) =
      (ip_text ip @ [0x20]) @ map sys_toupper key @ map sys_toupper rest"
    using mp by simp
  ultimately show ?thesis
    using find_str_cstr [OF assms(1,2,6,3)] by simp
qed

lemma ip_keys: "length ip_key = 3" "length netmask_key = 8" "length gateway_key = 8"
  by (simp_all add: ip_key_def netmask_key_def gateway_key_def)

lemma key_facts:
  "netmask_key \<noteq> []" "gateway_key \<noteq> []" "length netmask_key < 2 ^ 32" "length gateway_key < 2 ^ 32"
  "sys_toupper (hd netmask_key) \<notin> set [0x20, 0x2e]" "sys_toupper (hd gateway_key) \<notin> set [0x20, 0x2e]"
  "\<not> is_digit (sys_toupper (hd netmask_key))" "\<not> is_digit (sys_toupper (hd gateway_key))"
  by (simp_all add: netmask_key_def gateway_key_def sys_toupper_def is_digit_def)

lemma length_vctl_ip_text: "length (vctl_ip_text a b c) < 72"
  using length_ip_text [of a] length_ip_text [of b] length_ip_text [of c]
  by (simp add: vctl_ip_text_def ip_keys)

lemma read_ips_text:
  assumes cp: "cstr m cp (vctl_ip_text a b c)" "cp \<noteq> 0" "unat cp + 72 < 2 ^ 32"
    and keys: "cstr m (lit E ip_key) ip_key" "cstr m (lit E netmask_key) netmask_key" "cstr m (lit E gateway_key) gateway_key"
  shows "read_ips E m cp old = Some (a, b, c)"
proof -
  let ?T2 = "ip_text a @ 0x20 # netmask_key @ ip_text b @ 0x20 # gateway_key @ ip_text c"
  let ?T3 = "ip_text b @ 0x20 # gateway_key @ ip_text c"
  let ?n2 = "length (ip_text a) + 1" and ?n3 = "length (ip_text b) + 1"
  have nz: "cp + of_nat k \<noteq> 0" if "k < 72" for k
  proof -
    have "unat (cp + of_nat k) = unat cp + k" using cp(3) that by (simp add: unat_word_ariths unat_of_nat take_bit_nat_eq_self)
    then show ?thesis using cp(2) by (auto simp: unsigned_eq_0_iff)
  qed
  have len: "length (ip_text a) \<le> 15" "length (ip_text b) \<le> 15" by (rule length_ip_text)+
  have c2: "cstr m (cp + of_nat 3) ?T2"
    using cstr_drop [OF cp(1), of 3] by (simp add: vctl_ip_text_def ip_keys)
  have c3: "cstr m (cp + of_nat (3 + ?n2 + 8)) ?T3"
    using cstr_drop [OF c2, of "?n2 + 8"] by (simp add: ip_keys algebra_simps)
  have c4: "cstr m (cp + of_nat (3 + ?n2 + 8 + ?n3 + 8)) (ip_text c)"
    using cstr_drop [OF c3, of "?n3 + 8"] by (simp add: ip_keys algebra_simps)
  have f1: "sys_find_str m cp (lit E ip_key) = Some cp"
  proof -
    have "map sys_toupper (vctl_ip_text a b c) = map sys_toupper ip_key @ map sys_toupper ?T2" by (simp add: vctl_ip_text_def)
    then show ?thesis using find_str_cstr [OF keys(1) _ cp(1)] first_occ_prefix [of "map sys_toupper ip_key" "map sys_toupper ?T2"]
      by (simp add: ip_keys) (simp add: ip_key_def)
  qed
  have v1: "str2ip m (cp + of_nat 3) = Some a"
    using c2 by (intro str2ip_text_end [of _ _ _ "0x20"]) (auto simp: cstr_stores stores_append is_digit_def)
  have v2: "str2ip m (cp + of_nat (3 + ?n2 + 8)) = Some b"
    using c3 by (intro str2ip_text_end [of _ _ _ "0x20"]) (auto simp: cstr_stores stores_append is_digit_def)
  have v3: "str2ip m (cp + of_nat (3 + ?n2 + 8 + ?n3 + 8)) = Some c" using c4 by (rule str2ip_text)
  have f2: "sys_find_str m (cp + of_nat 3) (lit E netmask_key) = Some (cp + of_nat (3 + ?n2))"
    using find_key [OF keys(2) key_facts(1,3,5,7) c2] by (simp add: algebra_simps)
  have f3: "sys_find_str m (cp + of_nat (3 + ?n2 + 8)) (lit E gateway_key) = Some (cp + of_nat (3 + ?n2 + 8 + ?n3))"
    using find_key [OF keys(3) key_facts(2,4,6,8) c3] by (simp add: algebra_simps)
  have p: "cp + 3 = cp + of_nat 3" "cp + of_nat (3 + ?n2) + 8 = cp + of_nat (3 + ?n2 + 8)"
    "cp + of_nat (3 + ?n2 + 8 + ?n3) + 8 = cp + of_nat (3 + ?n2 + 8 + ?n3 + 8)" by (simp_all add: algebra_simps)
  have z: "cp + of_nat (3 + ?n2) \<noteq> 0" "cp + of_nat (3 + ?n2 + 8 + ?n3) \<noteq> 0"
    using len by (intro nz; linarith)+
  obtain o1 o2 o3 where old: "old = (o1, o2, o3)" by (cases old)
  show ?thesis
    unfolding read_ips_def old by (simp only: prod.case f1 bind.bind_lunit p v1 f2 v2 f3 v3 if_not_P [OF cp(2)] if_not_P [OF z(1)] if_not_P [OF z(2)] option.map)
qed


lemma find_merge_same: "ent_type new = type \<Longrightarrow> \<exists>e\<in>set es. ent_type e = type \<Longrightarrow>
    List.find (\<lambda>e. ent_type e = type) (merge_entries type new False es) = Some new"
  by (induction es) auto

lemma find_merge_other: "ent_type new = type \<Longrightarrow> ty \<noteq> type \<Longrightarrow>
    List.find (\<lambda>e. ent_type e = ty) (merge_entries type new d es) = List.find (\<lambda>e. ent_type e = ty) es"
  by (induction es arbitrary: d) auto

lemma find_append: "List.find P (xs @ ys) = (case List.find P xs of None \<Rightarrow> List.find P ys | Some x \<Rightarrow> Some x)"
  by (induction xs) auto

lemma find_update_same: "ent_type new = type \<Longrightarrow>
    List.find (\<lambda>e. ent_type e = type) (vctl_update type new es) = Some new"
proof (cases "\<exists>e\<in>set es. ent_type e = type")
  case False
  assume n: "ent_type new = type"
  have "merge_entries type new False es = es" using False by (intro merge_none) auto
  moreover have "List.find (\<lambda>e. ent_type e = type) es = None" using False by (auto simp: find_None_iff)
  ultimately show ?thesis using False n by (auto simp: vctl_update_def find_append)
qed (simp add: vctl_update_def find_append find_merge_same)

lemma find_update_other: "ent_type new = type \<Longrightarrow> ty \<noteq> type \<Longrightarrow>
    List.find (\<lambda>e. ent_type e = ty) (vctl_update type new es) = List.find (\<lambda>e. ent_type e = ty) es"
  by (auto simp: vctl_update_def find_append find_merge_other split: option.split)

section \<open>The setter of the IP entry\<close>

text \<open>The image directory with its names, and the literal of the name of the area, as text.\<close>

definition fis_named :: "'c sysenv \<Rightarrow> (nat \<Rightarrow> u8 list) \<Rightarrow> 'c sys \<Rightarrow> bool" where
  "fis_named E ns s \<longleftrightarrow>
     cstr (smem s) (lit E BOARD_FIS_VCTL_NAME) BOARD_FIS_VCTL_NAME \<and>
     (\<forall>i<24. cstr (smem s) (fis_entry (fis_datap s) i) (ns i) \<and> length (ns i) < 256)"

lemma fis_find_frame:
  assumes "fis_named E ns s"
    and "\<And>j. j \<le> 4 \<Longrightarrow> m' (lit E BOARD_FIS_VCTL_NAME + of_nat j) = smem s (lit E BOARD_FIS_VCTL_NAME + of_nat j)"
    and tab: "\<And>j. j < 6144 \<Longrightarrow> m' (fis_datap s + of_nat j) = smem s (fis_datap s + of_nat j)"
  shows "fis_find_image (lit E BOARD_FIS_VCTL_NAME) (s\<lparr>smem := m'\<rparr>) = fis_find_image (lit E BOARD_FIS_VCTL_NAME) s"
    and "fis_named E ns (s\<lparr>smem := m'\<rparr>)"
proof -
  let ?p = "fis_datap s" and ?m = "smem s" and ?f = "lit E BOARD_FIS_VCTL_NAME"
  have n: "cstr ?m ?f BOARD_FIS_VCTL_NAME" "\<And>i. i < 24 \<Longrightarrow> cstr ?m (fis_entry ?p i) (ns i)" "\<And>i. i < 24 \<Longrightarrow> length (ns i) < 256"
    using assms(1) by (simp_all add: fis_named_def)
  have l: "length BOARD_FIS_VCTL_NAME = 4" by (simp add: BOARD_FIS_VCTL_NAME_def)
  have n1: "cstr m' ?f BOARD_FIS_VCTL_NAME" using assms(2) l by (intro cstr_cong [OF n(1)]) simp
  have e: "m' (fis_entry ?p i + of_nat j) = ?m (fis_entry ?p i + of_nat j)" if "i < 24" "j < 256" for i j
  proof -
    have "fis_entry ?p i + of_nat j = ?p + of_nat (256 * i + j)" by (simp add: fis_entry_def FIS_ENTRY_SIZE_def algebra_simps)
    moreover have "256 * i + j < 6144" using that by linarith
    ultimately show ?thesis using tab [of "256 * i + j"] by (simp only:)
  qed
  have n2: "cstr m' (fis_entry ?p i) (ns i)" if "i < 24" for i
    using n(3) [OF that] that by (intro cstr_cong [OF n(2) [OF that]] e) simp_all
  have c: "desc_cksum m' (fis_entry ?p i) = desc_cksum ?m (fis_entry ?p i)" "fis_desc_chksum m' (fis_entry ?p i) = fis_desc_chksum ?m (fis_entry ?p i)"
    "m' (fis_entry ?p i) = ?m (fis_entry ?p i)" if "i < 24" for i
    using e that e [of i 0] by (auto intro!: desc_cksum_cong desc_chksum_cong)
  have "takeWhile (\<lambda>i. m' (fis_entry ?p i) \<noteq> 0xff) [0..<24] = takeWhile (\<lambda>i. ?m (fis_entry ?p i) \<noteq> 0xff) [0..<24]"
    using c(3) by (intro takeWhile_cong) auto
  moreover have "List.find (\<lambda>i. fis_matches m' BOARD_FIS_VCTL_NAME (ns i) (fis_entry ?p i)) xs =
      List.find (\<lambda>i. fis_matches ?m BOARD_FIS_VCTL_NAME (ns i) (fis_entry ?p i)) xs" if "set xs \<subseteq> {..<24}" for xs
    using that by (induction xs) (auto simp: fis_matches_def c)
  moreover have "set (takeWhile P [0..<24]) \<subseteq> {..<24}" for P using set_takeWhileD by fastforce
  ultimately show "fis_find_image ?f (s\<lparr>smem := m'\<rparr>) = fis_find_image ?f s"
    unfolding fis_find_image_def FIS_MAX_ENTRY_def
    by (simp add: find_loop_find [OF n1, of 24 "fis_datap s", OF n2] find_loop_find [OF n(1), of 24 "fis_datap s", OF n(2)])
  show "fis_named E ns (s\<lparr>smem := m'\<rparr>)" using n1 n2 n(3) by (simp add: fis_named_def)
qed

text \<open>A buffer of 128 bytes that overlaps nothing the functions of the area read.\<close>

definition buf_apart :: "'c sysenv \<Rightarrow> addr \<Rightarrow> 'c sys \<Rightarrow> bool" where
  "buf_apart E eb s \<longleftrightarrow>
     apart eb 128 (vctl_datap s) AREA \<and> apart eb 128 (fis_datap s) 6144 \<and>
     (\<forall>l\<in>set [VCTL_HDR_MAGIC, VCTL_ENTRY_MAGIC, BOARD_FIS_VCTL_NAME, ip_key, netmask_key, gateway_key]. apart eb 128 (lit E l) 9)"

definition within :: "addr \<Rightarrow> mem \<Rightarrow> mem \<Rightarrow> bool" where
  "within eb m m' \<longleftrightarrow> (\<forall>x. outside eb 128 x \<longrightarrow> m' x = m x)"

lemma within_stores: "within eb m m' \<Longrightarrow> apart eb 128 p n \<Longrightarrow> length xs \<le> n \<Longrightarrow> stores m' p xs = stores m p xs"
proof -
  assume a: "within eb m m'" "apart eb 128 p n" "length xs \<le> n"
  have "mem_bytes m' p (length xs) = mem_bytes m p (length xs)"
    using a apart_outside [OF a(2)] by (intro mem_bytes_cong) (simp add: within_def)
  then show ?thesis by (simp add: stores_def)
qed

lemma vctl_ready_frame:
  assumes "vctl_ready E es s" "fis_named E ns s" "buf_apart E eb s" "within eb (smem s) m'"
  shows "vctl_ready E es (s\<lparr>smem := m'\<rparr>)"
proof -
  have ap: "apart eb 128 (vctl_datap s) AREA" "apart eb 128 (fis_datap s) 6144" "apart eb 128 (lit E VCTL_HDR_MAGIC) 9"
    "apart eb 128 (lit E BOARD_FIS_VCTL_NAME) 9"
    using assms(3) by (simp_all add: buf_apart_def)
  have "fis_find_image (lit E BOARD_FIS_VCTL_NAME) (s\<lparr>smem := m'\<rparr>) = fis_find_image (lit E BOARD_FIS_VCTL_NAME) s"
    using assms(4) apart_outside [OF ap(2)] apart_outside [OF ap(4)]
    by (intro fis_find_frame [OF assms(2)]) (simp_all add: within_def)
  moreover have "stores m' (lit E VCTL_HDR_MAGIC) VCTL_HDR_MAGIC = stores (smem s) (lit E VCTL_HDR_MAGIC) VCTL_HDR_MAGIC"
    by (rule within_stores [OF assms(4) ap(3)]) (simp add: VCTL_HDR_MAGIC_def)
  moreover have "stores m' (vctl_datap s) (area_bytes es) = stores (smem s) (vctl_datap s) (area_bytes es)"
    by (rule within_stores [OF assms(4) ap(1)]) (use assms(1) in \<open>simp add: vctl_ready_def\<close>)
  ultimately show ?thesis using assms(1) by (simp add: vctl_ready_def)
qed

lemma nth_splice:
  "k + length xs \<le> length L \<Longrightarrow> i < length L \<Longrightarrow>
   splice k xs L ! i = (if k \<le> i \<and> i < k + length xs then xs ! (i - k) else L ! i)"
  by (auto simp: splice_def nth_append)

text \<open>Bytes of the buffer and of the rest of memory, under a write into the buffer.\<close>

lemma within_put:
  assumes "within eb m m'" "k + length xs \<le> 128"
  shows "within eb m (put_bytes m' (eb + of_nat k) xs)"
    "mem_bytes (put_bytes m' (eb + of_nat k) xs) eb 128 = splice k xs (mem_bytes m' eb 128)"
proof -
  show "within eb m (put_bytes m' (eb + of_nat k) xs)"
    using assms outside_sub [of eb 128 _ k "length xs"] unfolding within_def by (metis put_bytes_outside)
  show "mem_bytes (put_bytes m' (eb + of_nat k) xs) eb 128 = splice k xs (mem_bytes m' eb 128)"
    using assms(2) by (intro put_bytes_splice) simp_all
qed

lemma memset_put: "n < 2 ^ 32 \<Longrightarrow> sys_memset m p d (of_nat n) = put_bytes m p (replicate n (ucast d))"
proof
  fix x
  assume "n < 2 ^ 32"
  moreover have "unat (of_nat n :: u32) = n" using \<open>n < 2 ^ 32\<close> by (subst unat_of_nat) simp
  ultimately show "sys_memset m p d (of_nat n) x = put_bytes m p (replicate n (ucast d)) x"
    by (simp add: sys_memset_def sys_memset_loop_apply put_bytes_apply)
qed

lemma put32_le32: "put32 m p v = put_bytes m p (le32 v)"
  by (simp add: put32_bytes_eq le32_def)

text \<open>A buffer whose bytes 8 to 11 hold the type.\<close>

definition buf_typed :: "addr \<Rightarrow> u32 \<Rightarrow> mem \<Rightarrow> mem \<Rightarrow> bool" where
  "buf_typed eb type m m' \<longleftrightarrow> within eb m m' \<and> le32_at (mem_bytes m' eb 128) 8 = type"

lemma le32_at_cong: "(\<And>j. j < 4 \<Longrightarrow> e ! (i + j) = e' ! (i + j)) \<Longrightarrow> le32_at e i = le32_at e' i"
  unfolding le32_at_def by (metis add_0_right one_less_numeral_iff semiring_norm(76) numeral_less_iff semiring_norm(78,80,81) zero_less_numeral)


lemma le32_at_le32: "le32_at (le32 v) 0 = v"
proof -
  have s: "stores (put_bytes (\<lambda>_. 0) 0 (le32 v)) 0 (le32 v)" by (rule stores_put_bytes) (simp add: le32_def)
  then show ?thesis using stores_le32_at [OF s, of 0] stores_le32 [OF s] by (simp add: le32_def)
qed

lemma le32_at_splice:
  assumes "k + 4 \<le> length L"
  shows "le32_at (splice k (le32 v) L) k = v"
proof -
  have "le32_at (splice k (le32 v) L) k = le32_at (le32 v) 0"
    using assms unfolding le32_at_def by (simp add: nth_splice le32_def add.commute)
  then show ?thesis by (simp add: le32_at_le32)
qed

lemma le32_at_splice_other:
  assumes "k + length xs \<le> length L" "i + 4 \<le> length L" "i + 4 \<le> k \<or> k + length xs \<le> i"
  shows "le32_at (splice k xs L) i = le32_at L i"
  using assms unfolding le32_at_def by (auto simp: nth_splice)

lemma buf_typed_put:
  assumes "buf_typed eb type m m'" "k + length xs \<le> 128" "12 \<le> k \<or> k + length xs \<le> 8"
  shows "buf_typed eb type m (put_bytes m' (eb + of_nat k) xs)"
  using assms within_put [of eb m m' k xs] by (auto simp: buf_typed_def le32_at_splice_other)

lemma new_entry_typed:
  assumes "within eb m (smem s)" "apart eb 128 (lit E VCTL_ENTRY_MAGIC) 9" "lit E VCTL_ENTRY_MAGIC < BOARD_FLASH_BASE_ADDR"
  shows "\<exists>m'. new_entry E eb type s = Some (s\<lparr>smem := m'\<rparr>) \<and> buf_typed eb type m m'"
proof -
  let ?X = "mem_bytes (smem s) (lit E VCTL_ENTRY_MAGIC) 4"
  have "apart (eb + of_nat 0) 4 (lit E VCTL_ENTRY_MAGIC + of_nat 0) 4" using assms(2) by (rule apart_sub) simp_all
  then have c: "sys_copy E eb (lit E VCTL_ENTRY_MAGIC) VCTL_MAGIC_SIZE s = Some (s\<lparr>smem := put_bytes (smem s) (eb + of_nat 0) ?X\<rparr>)"
    using sys_copy_ram [OF assms(3), of eb VCTL_MAGIC_SIZE E s] by (simp add: VCTL_MAGIC_SIZE_def)
  let ?m1 = "put_bytes (smem s) (eb + of_nat 0) ?X"
  let ?m2 = "put_bytes ?m1 (eb + of_nat 12) (replicate 4 0x30)"
  let ?m3 = "put_bytes ?m2 (eb + of_nat 16) (replicate 4 0x30)"
  let ?m4 = "put_bytes ?m3 (eb + of_nat 8) (le32 type)"
  let ?m5 = "put_bytes ?m4 (eb + of_nat 4) (le32 VCTL_ENTRY_SIZE)"
  have w1: "within eb m ?m1" using assms(1) by (rule within_put(1)) simp
  have w2: "within eb m ?m2" using w1 by (rule within_put(1)) simp
  have w3: "within eb m ?m3" using w2 by (rule within_put(1)) simp
  have w4: "within eb m ?m4" using w3 by (rule within_put(1)) (simp add: le32_def)
  have "mem_bytes ?m4 eb 128 = splice 8 (le32 type) (mem_bytes ?m3 eb 128)"
    using w3 by (rule within_put(2)) (simp add: le32_def)
  then have "buf_typed eb type m ?m4" using w4 by (simp add: buf_typed_def le32_at_splice)
  then have "buf_typed eb type m ?m5" by (rule buf_typed_put) (simp_all add: le32_def)
  moreover have "new_entry E eb type s = Some (s\<lparr>smem := ?m5\<rparr>)"
    using memset_put [of 4 _ _ "0x30"] by (simp add: new_entry_def c put32_le32)
  ultimately show ?thesis by blast
qed

text \<open>A saved entry with a text: its head, the text and a terminator.\<close>

definition text_entry :: "u32 \<Rightarrow> u8 list \<Rightarrow> u8 list \<Rightarrow> bool" where
  "text_entry type t e \<longleftrightarrow> ent_ok e \<and> ent_type e = type \<and> length e \<le> 128 \<and>
     length t + 20 < length e \<and> take (length t + 1) (drop 20 e) = t @ [0]"

lemma round4_of_nat:
  assumes "n + 3 < 2 ^ 32"
  shows "unat (round4 (of_nat n)) = (n + 3) div 4 * 4"
proof -
  have "round4 (of_nat n) = push_bit 2 (drop_bit 2 (of_nat (n + 3) :: u32))"
  proof -
    have m: "NOT 3 = (NOT (mask 2) :: u32)" by (simp add: mask_eq_exp_minus_1)
    have "x AND NOT (mask 2) = push_bit 2 (drop_bit 2 x)" for x :: u32
    proof (rule bit_word_eqI)
      fix n assume "n < LENGTH(32)"
      moreover have "n < 2 \<or> Suc (Suc (n - 2)) = n" by linarith
      ultimately show "bit (x AND NOT (mask 2)) n = bit (push_bit 2 (drop_bit 2 x)) n" by (auto simp: bit_simps)
    qed
    then show ?thesis unfolding round4_def m by (simp add: add.commute)
  qed
  moreover have "unat (of_nat (n + 3) :: u32) = n + 3" using assms by (subst unat_of_nat) simp
  ultimately show ?thesis using assms
    by (simp add: unsigned_push_bit_eq unsigned_drop_bit_eq push_bit_nat_def drop_bit_nat_def take_bit_nat_eq_self del: of_nat_add)
qed


lemma stores_take_bytes: "n \<le> 128 \<Longrightarrow> stores m eb (take n (mem_bytes m eb 128))"
proof -
  assume n: "n \<le> 128"
  have "mem_bytes m eb 128 = mem_bytes m eb n @ mem_bytes m (eb + of_nat n) (128 - n)"
    using mem_bytes_append [of m eb n "128 - n"] n by simp
  then have "take n (mem_bytes m eb 128) = mem_bytes m eb n" by simp
  then show ?thesis by (simp add: stores_def)
qed

lemma text_entry_built:
  assumes "buf_typed eb type m m1" "length t < 100"
    and m3: "m3 = put32 (put_bytes m1 (eb + VCTL_ENTRY_SIZE) (t @ [0])) (eb + 4) (round4 (of_nat (length t + 21)))"
  shows "within eb m m3" "\<exists>e. stores m3 eb e \<and> text_entry type t e \<and> entry_size m3 eb = of_nat (length e)"
proof -
  define k where "k = (length t + 24) div 4 * 4"
  have k: "length t + 21 \<le> k" "k \<le> 124" using assms(2) by (simp_all add: k_def)
  have u: "unat (round4 (of_nat (length t + 21))) = k" using round4_of_nat [of "length t + 21"] assms(2) by (simp add: k_def)
  have "of_nat (unat (round4 (of_nat (length t + 21)))) = round4 (of_nat (length t + 21))" by simp
  then have sz: "round4 (of_nat (length t + 21)) = of_nat k" unfolding u by (rule sym)
  let ?m2 = "put_bytes m1 (eb + of_nat 20) (t @ [0])"
  have e3: "m3 = put_bytes ?m2 (eb + of_nat 4) (le32 (of_nat k))"
    unfolding m3 sz by (simp add: put32_le32 VCTL_ENTRY_SIZE_def)
  have w1: "within eb m m1" and t1: "le32_at (mem_bytes m1 eb 128) 8 = type" using assms(1) by (simp_all add: buf_typed_def)
  have w2: "within eb m ?m2" using w1 by (rule within_put(1)) (use assms(2) in simp)
  have b2: "mem_bytes ?m2 eb 128 = splice 20 (t @ [0]) (mem_bytes m1 eb 128)" using w1 by (rule within_put(2)) (use assms(2) in simp)
  show w3: "within eb m m3" unfolding e3 using w2 by (rule within_put(1)) (simp add: le32_def)
  have b3: "mem_bytes m3 eb 128 = splice 4 (le32 (of_nat k)) (splice 20 (t @ [0]) (mem_bytes m1 eb 128))"
    unfolding e3 using within_put(2) [OF w2, of 4 "le32 (of_nat k)"] b2 by (simp add: le32_def)
  let ?B = "mem_bytes m3 eb 128" and ?e = "take k (mem_bytes m3 eb 128)"
  have l4: "length (le32 v) = 4" for v by (simp add: le32_def)
  have st: "stores m3 eb ?e" using k by (intro stores_take_bytes) simp
  have le: "length ?e = k" using k by simp
  have at: "le32_at ?e i = le32_at ?B i" if "i + 4 \<le> 20" for i
    using that k by (simp add: le32_at_def)
  have "le32_at ?B 4 = of_nat k" unfolding b3 by (rule le32_at_splice) (use assms(2) in simp)
  then have a4: "le32_at ?e 4 = of_nat k" using at [of 4] by simp
  have "le32_at ?B 8 = type" unfolding b3 using assms(2) t1 by (subst le32_at_splice_other; simp add: l4)+
  then have a8: "ent_type ?e = type" using at [of 8] by (simp add: ent_type_def)
  have "take (length t + 1) (drop 20 ?e) = t @ [0]"
  proof (rule nth_equalityI)
    show "length (take (length t + 1) (drop 20 ?e)) = length (t @ [0])" using k by simp
    fix i assume "i < length (take (length t + 1) (drop 20 ?e))"
    then have i: "i < length t + 1" by simp
    have "take (length t + 1) (drop 20 ?e) ! i = ?B ! (20 + i)" using i k by simp
    also have "\<dots> = (t @ [0]) ! i" unfolding b3 using i assms(2) by (simp add: nth_splice l4)
    finally show "take (length t + 1) (drop 20 ?e) ! i = (t @ [0]) ! i" .
  qed
  moreover have "ent_ok ?e" using a4 le k by (simp add: ent_ok_def)
  ultimately have te: "text_entry type t ?e" using a8 le k by (simp add: text_entry_def)
  have "entry_size m3 eb = of_nat (length ?e)" using stores_entry(1) [OF st] te by (simp add: text_entry_def)
  then show "\<exists>e. stores m3 eb e \<and> text_entry type t e \<and> entry_size m3 eb = of_nat (length e)" using st te by blast
qed


lemma set_text_entry_built:
  assumes r: "vctl_ready E es s" "fis_named E ns s" "buf_apart E eb s" "lit E VCTL_ENTRY_MAGIC < BOARD_FLASH_BASE_ADDR"
    and t: "sys_sprintf [] [] (lit E fmt) fmt a = Some (t, int (length t))" "length t < 100"
  shows "\<exists>m' e. set_text_entry E eb 128 type fmt (\<lambda>_. Some a) s =
        map_option snd (sys_save_vctl_entry E type eb (of_nat (length e)) (s\<lparr>smem := m'\<rparr>)) \<and>
      within eb (smem s) m' \<and> stores m' eb e \<and> text_entry type t e"
proof -
  define m0 where "m0 = sys_memset (smem s) eb 0 128"
  have "m0 = put_bytes (smem s) (eb + of_nat 0) (replicate 128 0)"
    using memset_put [of 128 "smem s" eb 0] by (simp add: m0_def)
  then have w0: "within eb (smem s) m0" using within_put(1) [of eb "smem s" "smem s" 0 "replicate 128 0"] by (simp add: within_def)
  let ?s0 = "s\<lparr>smem := m0\<rparr>"
  have ap: "apart eb 128 (vctl_datap s) AREA" "apart eb 128 (lit E VCTL_ENTRY_MAGIC) 9" using r(3) by (simp_all add: buf_apart_def)
  have rd: "vctl_ready E es ?s0" by (rule vctl_ready_frame [OF r(1-3) w0])
  have get: "sys_get_vctl_entry E type eb 128 ?s0 = Some (case List.find (\<lambda>e. ent_type e = type) es of
        None \<Rightarrow> (Some (-1), ?s0)
      | Some e \<Rightarrow> if int (length e) \<le> 128 then (Some 0, ?s0\<lparr>smem := put_bytes m0 eb e\<rparr>) else (Some (-1), ?s0))"
    using get_entry_find [OF rd, of eb 128 type] ap(1) by (simp split: option.split)
  obtain mn where mn: "new_entry E eb type ?s0 = Some (?s0\<lparr>smem := mn\<rparr>)" "buf_typed eb type (smem s) mn"
    using new_entry_typed [of eb "smem s" ?s0 E type] w0 ap(2) r(4) by auto
  have "\<exists>m1 rc. sys_get_vctl_entry E type eb 128 ?s0 = Some (Some rc, s\<lparr>smem := (if rc = 0 then m1 else m0)\<rparr>) \<and>
      (if rc = 0 then Some (s\<lparr>smem := m1\<rparr>) else new_entry E eb type ?s0) = Some (s\<lparr>smem := m1\<rparr>) \<and>
      buf_typed eb type (smem s) m1"
  proof (cases "\<exists>e. List.find (\<lambda>e. ent_type e = type) es = Some e \<and> length e \<le> 128")
    case True
    then obtain e where e: "List.find (\<lambda>e. ent_type e = type) es = Some e" "length e \<le> 128" by blast
    have et: "ent_type e = type" "e \<in> set es" using e(1) by (auto simp: find_Some_iff)
    then have "20 \<le> length e" using r(1) by (auto simp: vctl_ready_def ent_ok_def)
    then have "le32_at (splice 0 e (mem_bytes m0 eb 128)) 8 = ent_type e"
      using e(2) by (simp add: ent_type_def le32_at_def nth_splice)
    then have "buf_typed eb type (smem s) (put_bytes m0 (eb + of_nat 0) e)"
      using within_put [OF w0, of 0 e] e(2) et(1) by (simp add: buf_typed_def)
    then show ?thesis using get e by (intro exI [of _ "put_bytes m0 eb e"] exI [of _ 0]) simp
  next
    case False
    then have "sys_get_vctl_entry E type eb 128 ?s0 = Some (Some (-1), ?s0)"
      using get by (auto split: option.splits)
    then show ?thesis using mn by (intro exI [of _ mn] exI [of _ "-1"]) simp
  qed
  then obtain m1 rc where m1: "sys_get_vctl_entry E type eb 128 ?s0 = Some (Some rc, s\<lparr>smem := (if rc = 0 then m1 else m0)\<rparr>)"
      "(if rc = 0 then Some (s\<lparr>smem := m1\<rparr>) else new_entry E eb type ?s0) = Some (s\<lparr>smem := m1\<rparr>)"
      "buf_typed eb type (smem s) m1" by blast
  let ?m2 = "put_bytes m1 (eb + VCTL_ENTRY_SIZE) (t @ [0])"
  define m3 where "m3 = put32 ?m2 (eb + 4) (round4 (of_nat (length t + 21)))"
  obtain e where e: "stores m3 eb e" "text_entry type t e" "entry_size m3 eb = of_nat (length e)"
    using text_entry_built(2) [OF m1(3) t(2) m3_def] by blast
  have n: "of_nat (length t) + VCTL_ENTRY_SIZE + 1 = (of_nat (length t) + 21 :: u32)" by (simp add: VCTL_ENTRY_SIZE_def)
  have "set_text_entry E eb 128 type fmt (\<lambda>_. Some a) s = save_entry E type eb (s\<lparr>smem := m3\<rparr>)"
  proof (cases "rc = 0")
    case True
    then show ?thesis using m1(1) t(1) by (simp add: set_text_entry_def m0_def put_text_def m3_def n)
  next
    case False
    then show ?thesis using m1(1,2) t(1) by (simp add: set_text_entry_def m0_def put_text_def m3_def n)
  qed
  then show ?thesis using e text_entry_built(1) [OF m1(3) t(2) m3_def]
    by (intro exI [of _ m3] exI [of _ e]) (simp add: save_entry_def)
qed

text \<open>Reading a saved IP entry.\<close>

lemma get_vctl_ip_text:
  assumes r: "vctl_ready E es s" "buf_apart E eb s" "List.find (\<lambda>e. ent_type e = VCT_IP) es = Some e"
    and e: "text_entry VCT_IP (vctl_ip_text a b c) e"
    and keys: "cstr (smem s) (lit E ip_key) ip_key" "cstr (smem s) (lit E netmask_key) netmask_key"
      "cstr (smem s) (lit E gateway_key) gateway_key"
    and eb: "unat eb + 128 < 2 ^ 32"
  shows "\<exists>m'. sys_get_vctl_ip E eb old s = Some ((a, b, c), s\<lparr>smem := m'\<rparr>)"
proof -
  let ?m = "put_bytes (smem s) eb e" and ?t = "vctl_ip_text a b c"
  have l: "length e \<le> 128" using e by (simp add: text_entry_def)
  have ap: "apart eb 128 (lit E ip_key) 9" "apart eb 128 (lit E netmask_key) 9" "apart eb 128 (lit E gateway_key) 9"
    "apart eb 128 (vctl_datap s) AREA" using r(2) by (simp_all add: buf_apart_def)
  have w: "within eb (smem s) ?m"
    using within_put(1) [of eb "smem s" "smem s" 0 e] l by (simp add: within_def)
  have k: "cstr ?m (lit E ip_key) ip_key" "cstr ?m (lit E netmask_key) netmask_key" "cstr ?m (lit E gateway_key) gateway_key"
    using keys within_stores [OF w ap(1), of "ip_key @ [0]"] within_stores [OF w ap(2), of "netmask_key @ [0]"]
      within_stores [OF w ap(3), of "gateway_key @ [0]"] by (simp_all add: cstr_stores ip_keys)
  have "stores ?m eb e" using l by (intro stores_put_bytes) simp
  moreover have "e = take 20 e @ (?t @ [0]) @ drop (length ?t + 1) (drop 20 e)"
    using e append_take_drop_id [of "length ?t + 1" "drop 20 e"] by (simp add: text_entry_def)
  ultimately have "stores ?m (eb + of_nat (length (take 20 e))) (?t @ [0])"
    by (metis stores_append)
  moreover have "length (take 20 e) = 20" using e by (simp add: text_entry_def)
  ultimately have "cstr ?m (eb + 20) ?t"
    using ip_text_nonzero by (simp add: cstr_stores vctl_ip_text_def ip_key_def netmask_key_def gateway_key_def)
  moreover have "unat (eb + 20) = unat eb + 20" using eb by (simp add: unat_word_ariths)
  moreover from this have "eb + 20 \<noteq> 0" by (auto simp: unsigned_eq_0_iff)
  ultimately have "read_ips E ?m (eb + 20) old = Some (a, b, c)"
    using eb k by (intro read_ips_text) simp_all
  then show ?thesis
    using get_entry_find [OF r(1), of eb 128 VCT_IP] ap(4) r(3) l
    by (intro exI [of _ ?m]) (simp add: sys_get_vctl_ip_def VCTL_ENTRY_SIZE_def)
qed

section \<open>A concrete area\<close>

text \<open>A directory at 0x1000 with one entry, VCTL; the literals from 0x9000 on; the area at 0x200000; a
  buffer at 0x8000; the heap of \<open>SysMalloc\<close>.\<close>

definition demo_vlit :: "u8 list \<Rightarrow> addr" where
  "demo_vlit l =
     (if l = BOARD_FIS_VCTL_NAME then 0x9000 else if l = VCTL_HDR_MAGIC then 0x9010
      else if l = VCTL_ENTRY_MAGIC then 0x9020 else if l = ip_key then 0x9030
      else if l = netmask_key then 0x9040 else if l = gateway_key then 0x9050 else 0x9100)"

definition demo_vlow :: mem where
  "demo_vlow = put_bytes (put_bytes (put_bytes (put_bytes (put_bytes (put_bytes (put_bytes (put_bytes (\<lambda>_. 0)
     0x1000 BOARD_FIS_VCTL_NAME) 0x10f8 [0x39, 1])
     0x9000 BOARD_FIS_VCTL_NAME) 0x9010 VCTL_HDR_MAGIC) 0x9020 VCTL_ENTRY_MAGIC)
     0x9030 ip_key) 0x9040 netmask_key) 0x9050 gateway_key"

definition demo_vsys :: "u8 list list \<Rightarrow> (addr \<Rightarrow> u8 list) sys" where
  "demo_vsys es = demo_sys\<lparr>smem := put_bytes demo_vlow 0x200000 (area_bytes es), sheap := snd small_heap, vctl_datap := 0x200000\<rparr>"

definition demo_venv :: "(addr \<Rightarrow> u8 list) sysenv" where
  "demo_venv = demo_sysenv\<lparr>sinfo := fst small_heap, lit := demo_vlit\<rparr>"

lemma demo_vlit: "lit demo_venv BOARD_FIS_VCTL_NAME = 0x9000" "lit demo_venv VCTL_HDR_MAGIC = 0x9010"
  "lit demo_venv VCTL_ENTRY_MAGIC = 0x9020" "lit demo_venv ip_key = 0x9030" "lit demo_venv netmask_key = 0x9040"
  "lit demo_venv gateway_key = 0x9050" "lit demo_venv vctl_ip_fmt = 0x9100"
  by (simp_all add: demo_venv_def demo_vlit_def BOARD_FIS_VCTL_NAME_def VCTL_HDR_MAGIC_def VCTL_ENTRY_MAGIC_def
    ip_key_def netmask_key_def gateway_key_def vctl_ip_fmt_def)

lemma demo_vfields: "fis_datap (demo_vsys es) = 0x1000" "vctl_datap (demo_vsys es) = 0x200000" "sheap (demo_vsys es) = snd small_heap"
  by (simp_all add: demo_vsys_def demo_sys_def)

lemma demo_vmem: "unat x < 0x200000 \<Longrightarrow> length (area_bytes es) < AREA \<Longrightarrow> smem (demo_vsys es) x = demo_vlow x"
proof -
  assume a: "unat x < 0x200000" "length (area_bytes es) < AREA"
  have "unat (x - 0x200000) = 2 ^ 32 + unat x - 0x200000" using a(1) by (simp add: unat_sub_if_size word_size)
  then show ?thesis using a by (simp add: demo_vsys_def put_bytes_apply AREA_def)
qed

lemma demo_vlow: "demo_vlow x =
    (if x \<in> {0x1000, 0x9000} then 86 else if x \<in> {0x1001, 0x9001} then 67 else if x \<in> {0x1002, 0x9002} then 84
     else if x \<in> {0x1003, 0x9003} then 76 else if x = 0x10f8 then 0x39 else if x = 0x10f9 then 1
     else if x < 0x9010 then 0 else demo_vlow x)"
  by (simp add: demo_vlow_def BOARD_FIS_VCTL_NAME_def VCTL_HDR_MAGIC_def VCTL_ENTRY_MAGIC_def ip_key_def netmask_key_def gateway_key_def)


lemma demo_vzero: "4 \<le> unat (x - 0x1000) \<Longrightarrow> unat (x - 0x1000) < 248 \<Longrightarrow> demo_vlow x = 0"
  by (auto simp: demo_vlow_def BOARD_FIS_VCTL_NAME_def VCTL_HDR_MAGIC_def VCTL_ENTRY_MAGIC_def ip_key_def netmask_key_def gateway_key_def)

lemma demo_vcksum: "desc_cksum demo_vlow 0x1000 = 0x139" "fis_desc_chksum demo_vlow 0x1000 = 0x139"
proof -
  show "desc_cksum demo_vlow 0x1000 = 0x139" by (simp add: desc_cksum_def mem_le32_def demo_vlow [of "0x10f8"] demo_vlow [of "0x10f9"] demo_vlow [of "0x10fa"] demo_vlow [of "0x10fb"])
  have n: "unat (FIS_ENTRY_SIZE - 8) = Suc (Suc (Suc (Suc 244)))" by (simp add: FIS_ENTRY_SIZE_def)
  have "demo_vlow (0x1004 + of_nat j) = 0" if "j < 244" for j
  proof -
    have "unat (0x1004 + of_nat j - 0x1000 :: addr) = j + 4"
      using unat_offset [of "j + 4" 0 "0x1000"] that by (simp add: algebra_simps)
    then show ?thesis using that by (intro demo_vzero) simp_all
  qed
  then have "chksum_loop demo_vlow 0x1004 244 acc = acc" for acc by (rule chksum_zeros)
  then show "fis_desc_chksum demo_vlow 0x1000 = 0x139"
    unfolding fis_desc_chksum_def n chksum_loop.simps
    by (simp add: demo_vlow [of "0x1000"] demo_vlow [of "0x1001"] demo_vlow [of "0x1002"] demo_vlow [of "0x1003"])
qed

lemma demo_vnames: "i < 24 \<Longrightarrow> cstr demo_vlow (fis_entry 0x1000 i) (if i = 0 then BOARD_FIS_VCTL_NAME else [])"
proof (cases "i = 0")
  case True
  then show ?thesis by (simp add: fis_entry_def BOARD_FIS_VCTL_NAME_def demo_vlow [of "0x1000"] demo_vlow [of "0x1001"] demo_vlow [of "0x1002"]
    demo_vlow [of "0x1003"] demo_vlow [of "0x1004"])
next
  case False
  assume "i < 24"
  have "\<forall>j\<in>set (upt 1 24). demo_vlow (fis_entry 0x1000 j) = 0"
    by (simp add: upt_rec fis_entry_def FIS_ENTRY_SIZE_def demo_vlow_def BOARD_FIS_VCTL_NAME_def VCTL_HDR_MAGIC_def VCTL_ENTRY_MAGIC_def
      ip_key_def netmask_key_def gateway_key_def)
  moreover have "i \<in> set (upt 1 24)" using False \<open>i < 24\<close> by simp
  ultimately show ?thesis using False by simp
qed


lemma apart_ranges:
  assumes "unat q + n \<le> unat p \<or> unat p + k \<le> unat q" "unat q + n \<le> 2 ^ 32" "unat p + k \<le> 2 ^ 32"
  shows "apart q n p k"
  unfolding apart_def
proof (intro allI impI notI)
  fix i j
  assume a: "i < n" "j < k" "q + of_nat i = p + of_nat j"
  have "unat (q + of_nat i) = unat q + i" "unat (p + of_nat j) = unat p + j"
    using assms(2,3) a(1,2) by (simp_all add: unat_word_ariths unat_of_nat take_bit_nat_eq_self)
  then show False using a assms(1) by simp
qed

lemma demo_vready:
  assumes "\<forall>e\<in>set es. ent_ok e" "length es \<le> 128" "length (area_bytes es) < AREA"
  shows "vctl_ready demo_venv es (demo_vsys es)" "fis_find_image 0x9000 (demo_vsys es) = Some 0x1000"
    "fis_named demo_venv (\<lambda>i. if i = 0 then BOARD_FIS_VCTL_NAME else []) (demo_vsys es)"
proof -
  let ?m = "smem (demo_vsys es)"
  have low: "?m (p + of_nat j) = demo_vlow (p + of_nat j)" if "unat p + j < 0x200000" for p j
  proof (rule demo_vmem [OF _ assms(3)])
    show "unat (p + of_nat j) < 0x200000" using that by (simp add: unat_word_ariths unat_of_nat take_bit_nat_eq_self)
  qed
  have l0: "cstr demo_vlow 0x9000 BOARD_FIS_VCTL_NAME"
    by (simp add: BOARD_FIS_VCTL_NAME_def demo_vlow [of "0x9000"] demo_vlow [of "0x9001"] demo_vlow [of "0x9002"] demo_vlow [of "0x9003"] demo_vlow [of "0x9004"])
  have lit: "cstr ?m 0x9000 BOARD_FIS_VCTL_NAME"
    by (rule cstr_cong [OF l0], rule low) (simp add: BOARD_FIS_VCTL_NAME_def)
  have ent: "cstr ?m (fis_entry 0x1000 i) (if i = 0 then BOARD_FIS_VCTL_NAME else [])" if "i < 24" for i
  proof (rule cstr_cong [OF demo_vnames [OF that]], rule low)
    fix j assume j: "j \<le> length (if i = 0 then BOARD_FIS_VCTL_NAME else [])"
    have "unat (fis_entry 0x1000 i) = 0x1000 + i * 256"
      using that by (simp add: fis_entry_def FIS_ENTRY_SIZE_def unat_word_ariths unat_of_nat take_bit_nat_eq_self)
    moreover have "j \<le> 4" using j by (auto simp: BOARD_FIS_VCTL_NAME_def split: if_splits)
    ultimately show "unat (fis_entry 0x1000 i) + j < 0x200000" using that by simp
  qed
  show named: "fis_named demo_venv (\<lambda>i. if i = 0 then BOARD_FIS_VCTL_NAME else []) (demo_vsys es)"
  proof -
    have "length BOARD_FIS_VCTL_NAME < 256" by (simp add: BOARD_FIS_VCTL_NAME_def)
    then show ?thesis using lit ent by (simp add: fis_named_def demo_vlit demo_vfields)
  qed
  have ck: "desc_cksum ?m 0x1000 = 0x139" "fis_desc_chksum ?m 0x1000 = 0x139"
    using desc_cksum_cong [of ?m "0x1000" demo_vlow] desc_chksum_cong [of ?m "0x1000" demo_vlow] low [of "0x1000"] by (simp_all add: demo_vcksum)
  have f0: "?m 0x1000 = 86" using low [of "0x1000" 0] by (simp add: demo_vlow [of "0x1000"])
  have "sys_strncasecmp ?m 0x9000 0x1000 = Some 0"
    using sys_strncasecmp_cstr [OF lit, of "0x1000" BOARD_FIS_VCTL_NAME] ent [of 0] by (simp add: fis_entry_def)
  then show find: "fis_find_image 0x9000 (demo_vsys es) = Some 0x1000"
    unfolding fis_find_image_def max_entry_Suc find_loop.simps demo_vfields using ck f0 by simp
  have mg: "stores demo_vlow 0x9010 VCTL_HDR_MAGIC"
    by (simp add: VCTL_HDR_MAGIC_def demo_vlow_def BOARD_FIS_VCTL_NAME_def VCTL_ENTRY_MAGIC_def ip_key_def netmask_key_def gateway_key_def)
  have "mem_bytes ?m 0x9010 (length VCTL_HDR_MAGIC) = mem_bytes demo_vlow 0x9010 (length VCTL_HDR_MAGIC)"
    by (rule mem_bytes_cong, rule low) (simp add: VCTL_HDR_MAGIC_def)
  then have magic: "stores ?m 0x9010 VCTL_HDR_MAGIC" using mg by (simp add: stores_def)
  have "stores ?m 0x200000 (area_bytes es)"
    using stores_put_bytes [of "area_bytes es" demo_vlow "0x200000"] assms(3) by (simp add: demo_vsys_def AREA_def)
  then show "vctl_ready demo_venv es (demo_vsys es)"
    using find magic assms by (simp add: vctl_ready_def demo_vlit demo_vfields AREA_def)
qed

lemma demo_buf_apart: "buf_apart demo_venv 0x8000 (demo_vsys es)"
  unfolding buf_apart_def demo_vfields by (auto simp: demo_vlit AREA_def intro!: apart_ranges)

text \<open>An entry without text.\<close>

definition demo_entry :: "u8 list" where
  "demo_entry = [70, 76, 69, 78, 20, 0, 0, 0, 128, 0, 0, 0, 48, 48, 48, 48, 48, 48, 48, 48]"

lemma demo_entry: "ent_ok demo_entry" "ent_type demo_entry = VCT_IP" "length demo_entry = 20"
  unfolding demo_entry_def by (simp_all add: ent_ok_def ent_type_def le32_at_def VCT_IP_def)

lemma demo_areas: "length (area_bytes []) < AREA" "length (area_bytes [demo_entry]) < AREA"
  by (simp_all add: length_area demo_entry AREA_def)

lemma demo_malloc: "\<exists>h. sys_malloc (fst small_heap) BOARD_FLASH_VCTLIMG_SIZE (snd small_heap) = Some (0x100020, h)"
proof -
  obtain r h' bs' where "sys_malloc (fst small_heap) BOARD_FLASH_VCTLIMG_SIZE (snd small_heap) = Some (r, h')"
    "(r, view h' bs') = abs_malloc (round16 BOARD_FLASH_VCTLIMG_SIZE) (view (snd small_heap) [0x100000])"
    using malloc_inv [OF small_heap_inv(1), of BOARD_FLASH_VCTLIMG_SIZE] by blast
  moreover have "fst (abs_malloc (round16 BOARD_FLASH_VCTLIMG_SIZE) (view (snd small_heap) [0x100000])) = 0x100020"
    unfolding small_heap_inv(2) by (simp add: round16_def collect_def BOARD_FLASH_VCTLIMG_SIZE_def)
  ultimately show ?thesis by (metis fst_conv)
qed

section \<open>Saving and loading\<close>

lemma save_entry_programs:
  assumes r: "vctl_ready E es s" "fis_find_image (lit E BOARD_FIS_VCTL_NAME) s = Some img"
    and new: "length (area_bytes es) + length new < AREA" "stores (smem s) d new" "d < BOARD_FLASH_BASE_ADDR"
    and heap: "sys_malloc (sinfo E) BOARD_FLASH_VCTLIMG_SIZE (sheap s) = Some (q, h)" "q \<noteq> 0"
    and ap: "apart q AREA (vctl_datap s) AREA" "apart q AREA d (length new)" "apart q AREA (lit E VCTL_HDR_MAGIC) 4"
      "apart q AREA img 256"
    and lt: "lit E VCTL_HDR_MAGIC < BOARD_FLASH_BASE_ADDR"
  shows "\<exists>m'. sys_save_vctl_entry E type d (of_nat (length new)) s =
      map_option (\<lambda>(stat, err_addr, fl). (None, s\<lparr>sheap := h, smem := m', sflash := fl\<rparr>))
        (flash_nand_program (hw E) (flash_base (smem s) img) (area_bytes (vctl_update type new es)) 0
          (file_size (smem s) img) (sflash s)) \<and>
    (\<forall>x. outside q AREA x \<longrightarrow> m' x = smem s x)"
proof -
  let ?es = "vctl_update type new es" and ?s = "s\<lparr>sheap := h\<rparr>"
  have rd: "vctl_ready E es ?s" using r(1) by (simp add: vctl_ready_def fis_find_image_def)
  obtain m' where m': "save_build E type d (of_nat (length new)) q ?s =
      Some (vars_of q (length (area_bytes ?es)) (length ?es) True, ?s\<lparr>smem := m'\<rparr>)"
    "mem_bytes m' q (length (area_bytes ?es)) = area_bytes ?es" "agrees q (smem s) m'"
    using save_build_area [OF rd new(1) _ new(3) _ ap(2,3) lt refl, of type] new(2) ap(1) by auto
  have "length (area_bytes ?es) < AREA" using new(1) length_update [of type new es] by (simp add: length_area)
  then have u: "unat (of_nat (length (area_bytes ?es)) :: u32) = length (area_bytes ?es)"
    by (simp add: unat_of_nat take_bit_nat_eq_self AREA_def)
  have "m' (img + of_nat j) = smem s (img + of_nat j)" if "j < 256" for j
    using m'(3) apart_outside [OF ap(4) that] by (simp add: agrees_def)
  from this [of 24] this [of 25] this [of 26] this [of 27] have fs: "file_size m' img = file_size (smem s) img"
    by (simp add: file_size_def mem_le32_def add.assoc)
  have "img \<noteq> 0" using r by (auto simp: vctl_ready_def)
  then have "sys_save_vctl_entry E type d (of_nat (length new)) s =
      map_option (\<lambda>(stat, err_addr, fl). (None, s\<lparr>sheap := h, smem := m', sflash := fl\<rparr>))
        (flash_nand_program (hw E) (flash_base (smem s) img) (area_bytes ?es) 0 (file_size (smem s) img) (sflash s))"
    using heap r(2) m'(1,2) u fs by (simp add: sys_save_vctl_entry_def Let_def vars_of_def)
  then show ?thesis using m'(3) by (auto simp: agrees_def)
qed

text \<open>A state in which the area has been loaded with the given contents.\<close>

definition area_loaded :: "'c sysenv \<Rightarrow> u8 list \<Rightarrow> 'c sys \<Rightarrow> bool" where
  "area_loaded E A s \<longleftrightarrow>
     (\<exists>img. fis_find_image (lit E BOARD_FIS_VCTL_NAME) s = Some img \<and> img \<noteq> 0) \<and>
     stores (smem s) (lit E VCTL_HDR_MAGIC) VCTL_HDR_MAGIC \<and>
     stores (smem s) (vctl_datap s) A \<and> unat (vctl_datap s) + AREA \<le> 0x30000000"

lemma vctl_ready_loaded:
  "vctl_ready E es s \<longleftrightarrow> area_loaded E (area_bytes es) s \<and> length (area_bytes es) < AREA \<and> length es \<le> 128 \<and> (\<forall>e\<in>set es. ent_ok e)"
  by (auto simp: vctl_ready_def area_loaded_def)

lemma set_merge: "set (merge_entries type new d es) \<subseteq> insert new (set es)"
  by (induction es arbitrary: d) auto

lemma set_update: "set (vctl_update type new es) \<subseteq> insert new (set es)"
  using set_merge [of type new False es] by (auto simp: vctl_update_def)

lemma vctl_ready_update:
  assumes "vctl_ready E es s" and "area_loaded E (area_bytes (vctl_update type new es)) s'"
    and "length (area_bytes es) + length new < AREA" and "length (vctl_update type new es) \<le> 128" and "ent_ok new"
  shows "vctl_ready E (vctl_update type new es) s'"
  using assms length_update [of type new es] set_update [of type new es]
  by (auto simp: vctl_ready_loaded length_area)

text \<open>A lookup returns a code and copies bytes; both depend on the list of entries only.\<close>

definition lookup_result :: "u32 \<Rightarrow> int \<Rightarrow> u8 list list \<Rightarrow> int option \<times> u8 list" where
  "lookup_result type sz es =
     (case List.find (\<lambda>e. ent_type e = type) es of
        None \<Rightarrow> (Some (-1), [])
      | Some e \<Rightarrow> if int (length e) \<le> sz then (Some 0, e) else (Some (-1), []))"

lemma get_entry_result:
  assumes "vctl_ready E es s" and "apart result (nat sz) (vctl_datap s) AREA"
  shows "sys_get_vctl_entry E type result sz s =
    Some (fst (lookup_result type sz es), s\<lparr>smem := put_bytes (smem s) result (snd (lookup_result type sz es))\<rparr>)"
  by (simp add: get_entry_find [OF assms] lookup_result_def split: option.split)

section \<open>Properties\<close>

text \<open>C12. A save is an update of the list of entries.  What \<open>sys_save_vctl_entry\<close> hands to the flash is
  the encoding of the area with the new entry in the place of the first one of its type, or at the end; the
  copy in RAM is not brought up to date: memory changes only inside the block taken from the heap, and
  the block is not given back.\<close>

theorem sys_save_vctl_entry_refines:
  assumes r: "vctl_ready E es s" "fis_find_image (lit E BOARD_FIS_VCTL_NAME) s = Some img"
    and new: "length (area_bytes es) + length new < AREA" "stores (smem s) d new" "d < BOARD_FLASH_BASE_ADDR"
    and heap: "sys_malloc (sinfo E) BOARD_FLASH_VCTLIMG_SIZE (sheap s) = Some (q, h)" "q \<noteq> 0"
    and ap: "apart q AREA (vctl_datap s) AREA" "apart q AREA d (length new)" "apart q AREA (lit E VCTL_HDR_MAGIC) 4"
      "apart q AREA img 256"
    and lt: "lit E VCTL_HDR_MAGIC < BOARD_FLASH_BASE_ADDR"
  shows "\<exists>m'. sys_save_vctl_entry E type d (of_nat (length new)) s =
      map_option (\<lambda>(stat, err_addr, fl). (None, s\<lparr>sheap := h, smem := m', sflash := fl\<rparr>))
        (flash_nand_program (hw E) (flash_base (smem s) img) (area_bytes (vctl_update type new es)) 0
          (file_size (smem s) img) (sflash s)) \<and>
    (\<forall>x. outside q AREA x \<longrightarrow> m' x = smem s x)"
  using save_entry_programs [OF assms] .

theorem sys_save_vctl_entry_refines_witness:
  "\<exists>m' h. sys_save_vctl_entry demo_venv VCT_VLAN 0x9010 4 (demo_vsys []) =
    map_option (\<lambda>(stat, err_addr, fl). (None, (demo_vsys [])\<lparr>sheap := h, smem := m', sflash := fl\<rparr>))
      (flash_nand_program (hw demo_venv) (flash_base (smem (demo_vsys [])) 0x1000)
        (area_bytes [VCTL_HDR_MAGIC]) 0 (file_size (smem (demo_vsys [])) 0x1000) (sflash (demo_vsys [])))"
proof -
  obtain h where h: "sys_malloc (sinfo demo_venv) BOARD_FLASH_VCTLIMG_SIZE (sheap (demo_vsys [])) = Some (0x100020, h)"
    using demo_malloc by (auto simp: demo_vfields demo_venv_def)
  note r = demo_vready [of "[]", simplified, OF demo_areas(1)]
  have m: "stores (smem (demo_vsys [])) 0x9010 VCTL_HDR_MAGIC" using r(1) by (simp add: vctl_ready_def demo_vlit)
  have l: "length VCTL_HDR_MAGIC = 4" by (simp add: VCTL_HDR_MAGIC_def)
  have ap: "apart 0x100020 0x20000 0x200000 0x20000" "apart 0x100020 0x20000 0x9010 4" "apart 0x100020 0x20000 0x1000 256"
    by (rule apart_ranges; simp)+
  show ?thesis
    using sys_save_vctl_entry_refines [of demo_venv "[]" "demo_vsys []" "0x1000" VCTL_HDR_MAGIC "0x9010" "0x100020" h VCT_VLAN]
      r(1,2) h m l ap
    by (auto simp: demo_vlit demo_vfields length_area AREA_def BOARD_FLASH_BASE_ADDR_def vctl_update_def)
qed

text \<open>C14. What is saved is found again.  \<open>sys_save_vctl_entry\<close> hands the image of the updated list to the flash,
  and in every state in which this image has been loaded \<open>sys_get_vctl_entry\<close> copies the new entry, whole, to a
  buffer that is large enough, and for every other type it returns the same code and copies the same
  bytes as in the state before the save.\<close>

theorem vctl_update_lookup:
  assumes r: "vctl_ready E es s" "fis_find_image (lit E BOARD_FIS_VCTL_NAME) s = Some img"
    and new: "length (area_bytes es) + length new < AREA" "stores (smem s) d new" "d < BOARD_FLASH_BASE_ADDR"
    and heap: "sys_malloc (sinfo E) BOARD_FLASH_VCTLIMG_SIZE (sheap s) = Some (q, h)" "q \<noteq> 0"
    and ap: "apart q AREA (vctl_datap s) AREA" "apart q AREA d (length new)" "apart q AREA (lit E VCTL_HDR_MAGIC) 4"
      "apart q AREA img 256"
    and lt: "lit E VCTL_HDR_MAGIC < BOARD_FLASH_BASE_ADDR"
    and ent: "ent_ok new" "ent_type new = type" "length (vctl_update type new es) \<le> 128"
    and res: "apart result (nat sz) (vctl_datap s) AREA"
  shows "(\<exists>m'. sys_save_vctl_entry E type d (of_nat (length new)) s =
      map_option (\<lambda>(stat, err_addr, fl). (None, s\<lparr>sheap := h, smem := m', sflash := fl\<rparr>))
        (flash_nand_program (hw E) (flash_base (smem s) img) (area_bytes (vctl_update type new es)) 0
          (file_size (smem s) img) (sflash s))) \<and>
    (\<forall>s'. area_loaded E (area_bytes (vctl_update type new es)) s' \<and> apart result (nat sz) (vctl_datap s') AREA \<longrightarrow>
      (int (length new) \<le> sz \<longrightarrow>
        sys_get_vctl_entry E type result sz s' = Some (Some 0, s'\<lparr>smem := put_bytes (smem s') result new\<rparr>)) \<and>
      (\<forall>ty. ty \<noteq> type \<longrightarrow> (\<exists>rc bytes.
        sys_get_vctl_entry E ty result sz s = Some (rc, s\<lparr>smem := put_bytes (smem s) result bytes\<rparr>) \<and>
        sys_get_vctl_entry E ty result sz s' = Some (rc, s'\<lparr>smem := put_bytes (smem s') result bytes\<rparr>))))"
proof -
  let ?A = "area_bytes (vctl_update type new es)"
  have get: "(int (length new) \<le> sz \<longrightarrow>
        sys_get_vctl_entry E type result sz s' = Some (Some 0, s'\<lparr>smem := put_bytes (smem s') result new\<rparr>)) \<and>
      (\<forall>ty. ty \<noteq> type \<longrightarrow> (\<exists>rc bytes.
        sys_get_vctl_entry E ty result sz s = Some (rc, s\<lparr>smem := put_bytes (smem s) result bytes\<rparr>) \<and>
        sys_get_vctl_entry E ty result sz s' = Some (rc, s'\<lparr>smem := put_bytes (smem s') result bytes\<rparr>)))"
    if l: "area_loaded E ?A s'" and a: "apart result (nat sz) (vctl_datap s') AREA" for s'
  proof -
    note r' = vctl_ready_update [OF r(1) l new(1) ent(3,1)]
    have "lookup_result ty sz (vctl_update type new es) = lookup_result ty sz es" if "ty \<noteq> type" for ty
      using that by (simp add: lookup_result_def find_update_other ent(2))
    moreover have "lookup_result type sz (vctl_update type new es) = (Some 0, new)" if "int (length new) \<le> sz"
      using that by (simp add: lookup_result_def find_update_same ent(2))
    ultimately show ?thesis unfolding get_entry_result [OF r' a] get_entry_result [OF r(1) res] by auto
  qed
  show ?thesis
    using save_entry_programs [OF r new heap ap lt, of type] get by blast
qed

definition demo_vlan :: "u8 list" where
  "demo_vlan = [70, 76, 69, 78, 20, 0, 0, 0, 64, 0, 0, 0, 48, 48, 48, 48, 48, 48, 48, 49]"

text \<open>The area holds two entries, the second is saved again from where it lies.\<close>

theorem vctl_update_lookup_witness:
  "area_loaded demo_venv (area_bytes [demo_vlan, demo_entry]) (demo_vsys [demo_vlan, demo_entry]) \<and>
    sys_get_vctl_entry demo_venv VCT_IP 0x8000 128 (demo_vsys [demo_vlan, demo_entry]) =
      Some (Some 0, (demo_vsys [demo_vlan, demo_entry])\<lparr>smem := put_bytes (smem (demo_vsys [demo_vlan, demo_entry])) 0x8000 demo_entry\<rparr>)"
proof -
  let ?es = "[demo_vlan, demo_entry]"
  let ?s = "demo_vsys ?es"
  have v: "ent_ok demo_vlan" "ent_type demo_vlan \<noteq> VCT_IP" "length demo_vlan = 20"
    unfolding demo_vlan_def by (simp_all add: ent_ok_def ent_type_def le32_at_def VCT_IP_def)
  have len: "length (area_bytes ?es) + length demo_entry < AREA" by (simp add: length_area v demo_entry AREA_def)
  have up: "vctl_update VCT_IP demo_entry ?es = ?es" using v demo_entry by (simp add: vctl_update_def)
  note r = demo_vready [of ?es, simplified, OF conjI [OF v(1) demo_entry(1)]]
  have r1: "vctl_ready demo_venv ?es ?s" "fis_find_image (lit demo_venv BOARD_FIS_VCTL_NAME) ?s = Some 0x1000"
    using r(1,2) len by (simp_all add: demo_vlit)
  have ld: "area_loaded demo_venv (area_bytes ?es) ?s" using r1 by (simp add: vctl_ready_loaded)
  obtain h where h: "sys_malloc (sinfo demo_venv) BOARD_FLASH_VCTLIMG_SIZE (sheap ?s) = Some (0x100020, h)"
    using demo_malloc by (auto simp: demo_vfields demo_venv_def)
  have st: "stores (smem ?s) 0x20001c demo_entry"
  proof -
    have "stores (smem ?s) 0x200000 ((VCTL_HDR_MAGIC @ le32 2 @ demo_vlan) @ demo_entry)"
      using ld by (simp add: area_loaded_def demo_vfields area_bytes_def)
    then show ?thesis unfolding stores_append by (simp add: v VCTL_HDR_MAGIC_def le32_def)
  qed
  have ap: "apart 0x100020 AREA (vctl_datap ?s) AREA" "apart 0x100020 AREA 0x20001c (length demo_entry)"
    "apart 0x100020 AREA (lit demo_venv VCTL_HDR_MAGIC) 4" "apart 0x100020 AREA 0x1000 256"
    "apart 0x8000 (nat 128) (vctl_datap ?s) AREA"
    by (rule apart_ranges; simp add: AREA_def demo_vlit demo_vfields demo_entry)+
  have lt: "lit demo_venv VCTL_HDR_MAGIC < BOARD_FLASH_BASE_ADDR" "(0x20001c :: addr) < BOARD_FLASH_BASE_ADDR"
    by (simp_all add: demo_vlit BOARD_FLASH_BASE_ADDR_def)
  have l: "length (vctl_update VCT_IP demo_entry ?es) \<le> 128" by (simp add: up)
  have "sys_get_vctl_entry demo_venv VCT_IP 0x8000 128 ?s = Some (Some 0, ?s\<lparr>smem := put_bytes (smem ?s) 0x8000 demo_entry\<rparr>)"
    using conjunct2 [OF vctl_update_lookup [OF r1 len st lt(2) h _ ap(1-4) lt(1) demo_entry(1,2) l ap(5)]] ld ap(5)
    by (simp add: up demo_entry(3))
  then show ?thesis using ld by simp
qed

text \<open>C13. The IP settings survive: \<open>sys_set_vctl_ip\<close> saves a well formed entry, and whenever the area that
  results from this save is loaded, \<open>sys_get_vctl_ip\<close> returns the three values that were set.\<close>

theorem vctl_ip_roundtrip:
  assumes "vctl_ready E es s" "fis_named E ns s" "buf_apart E eb s" "lit E VCTL_ENTRY_MAGIC < BOARD_FLASH_BASE_ADDR"
    and "lit E vctl_ip_fmt \<noteq> 0" "unat eb + 128 < 2 ^ 32"
  shows "\<exists>m' e. sys_set_vctl_ip E eb a b c s =
        map_option snd (sys_save_vctl_entry E VCT_IP eb (of_nat (length e)) (s\<lparr>smem := m'\<rparr>)) \<and>
      stores m' eb e \<and> ent_ok e \<and> ent_type e = VCT_IP \<and>
      (\<forall>s' old. vctl_ready E (vctl_update VCT_IP e es) s' \<and> buf_apart E eb s' \<and> cstr (smem s') (lit E ip_key) ip_key \<and>
          cstr (smem s') (lit E netmask_key) netmask_key \<and> cstr (smem s') (lit E gateway_key) gateway_key \<longrightarrow>
        (\<exists>m''. sys_get_vctl_ip E eb old s' = Some ((a, b, c), s'\<lparr>smem := m''\<rparr>)))"
proof -
  have "length (vctl_ip_text a b c) < 100" using length_vctl_ip_text [of a b c] by simp
  then obtain m' e where e: "sys_set_vctl_ip E eb a b c s =
        map_option snd (sys_save_vctl_entry E VCT_IP eb (of_nat (length e)) (s\<lparr>smem := m'\<rparr>))"
      "stores m' eb e" "text_entry VCT_IP (vctl_ip_text a b c) e"
    using set_text_entry_built [OF assms(1-4) sys_sprintf_vctl_ip [OF assms(5), of "[]" "[]" a b c], of VCT_IP]
    unfolding sys_set_vctl_ip_def by blast
  then have t: "ent_type e = VCT_IP" "ent_ok e" by (simp_all add: text_entry_def)
  show ?thesis
    using e t get_vctl_ip_text [OF _ _ find_update_same [OF t(1)] e(3) _ _ _ assms(6)] by blast
qed

theorem vctl_ip_roundtrip_witness:
  "\<exists>m' e. sys_set_vctl_ip demo_venv 0x8000 0xc0a80001 0xffffff00 0xc0a800fe (demo_vsys []) =
      map_option snd (sys_save_vctl_entry demo_venv VCT_IP 0x8000 (of_nat (length e)) ((demo_vsys [])\<lparr>smem := m'\<rparr>)) \<and>
    stores m' 0x8000 e \<and> ent_type e = VCT_IP"
proof -
  note r = demo_vready [of "[]", simplified, OF demo_areas(1)]
  show ?thesis
    using vctl_ip_roundtrip [OF r(1,3) demo_buf_apart, of "0xc0a80001" "0xffffff00" "0xc0a800fe"]
    by (auto simp: demo_vlit BOARD_FLASH_BASE_ADDR_def)
qed

end
