(* ===== verification/Ext2.thy ===== *)
theory Ext2
  imports Prelude
begin

text \<open>
  The reader of second extended file systems (\<open>src/src/ide/ext2fs.c\<close>, \<open>src/src/ide/ext2fs.h\<close>).

  A partition is a \<open>device\<close>: from the first sector (of 512 bytes) and a number of bytes, whether the
  read succeeds and the bytes it leaves in the buffer.  The functions of the disk driver behind it are not
  modelled.  A result is \<open>None\<close> where the C program has no defined behaviour: a division by zero, an access outside
  \<open>blockbuf\<close> or another buffer, a recursion that does not end.  Inside, each function has the result
  of the code: \<open>None\<close> for its return value 0 or \<open>NULL\<close>.  A path lookup returns its flag
  together with the \<open>INODE_INFO_T\<close> of its caller.
\<close>

section \<open>State\<close>

type_synonym device = "u32 \<Rightarrow> u32 \<Rightarrow> bool \<times> u8 list"

record ide_part =
  present :: bool
  part_id :: u32
  read_dma :: device

record inode_info =
  ino :: u32
  parent_ino :: u32
  filetype :: u8

record file_t =
  opened :: bool
  inode :: "u8 list"
  inode_info :: inode_info
  file_size :: u32
  file_pos :: u32

text \<open>The static variables: the block buffer, the open files, the descriptor of the mounted file
  system; and the names that a listing has printed.\<close>

record ext2 =
  blockbuf :: "u8 list"
  file_info :: "file_t list"
  part :: device
  blocksize :: u32
  ngroups :: u32
  blocks_per_group :: u32
  inodes_per_group :: u32
  gdesc_block :: u32
  gdesc_first :: u32
  gdesc_cache :: "u8 list"
  nr_ind_blocks :: u32
  nr_dind_blocks :: u32
  nr_tind_blocks :: u32
  ls_out :: "(u8 \<times> u8 list) list"

definition MAX_FILES :: nat where "MAX_FILES = 2"
definition IDE_SECTOR_SIZE :: u32 where "IDE_SECTOR_SIZE = 512"
definition EXT2_SUPER_MAGIC :: u16 where "EXT2_SUPER_MAGIC = 0xEF53"
definition EXT2_MIN_BLOCK_SIZE :: u32 where "EXT2_MIN_BLOCK_SIZE = 1024"
definition EXT2_MAX_BLOCK_SIZE :: nat where "EXT2_MAX_BLOCK_SIZE = 4096"
definition EXT2_NR_DIR_BLOCKS :: u32 where "EXT2_NR_DIR_BLOCKS = 12"
definition EXT2_IND_BLOCK :: nat where "EXT2_IND_BLOCK = 12"
definition EXT2_DIND_BLOCK :: nat where "EXT2_DIND_BLOCK = EXT2_IND_BLOCK + 1"
definition EXT2_TIND_BLOCK :: nat where "EXT2_TIND_BLOCK = EXT2_DIND_BLOCK + 1"
definition EXT2_ROOT_INO :: u32 where "EXT2_ROOT_INO = 2"
definition EXT2_FTYPE_REG_FILE :: u8 where "EXT2_FTYPE_REG_FILE = 1"
definition EXT2_FTYPE_DIR :: u8 where "EXT2_FTYPE_DIR = 2"
definition EXT2_FTYPE_SYMLINK :: u8 where "EXT2_FTYPE_SYMLINK = 7"
definition EXT2_INODE_SIZE :: nat where "EXT2_INODE_SIZE = 128"
definition EXT2_GROUP_SIZE :: nat where "EXT2_GROUP_SIZE = 32"
definition EXT2_GDESC_CACHE_SIZE :: u32 where "EXT2_GDESC_CACHE_SIZE = 16"
definition MAX_SYMLINK_NAME :: int where "MAX_SYMLINK_NAME = 255"

text \<open>Fields of an inode.\<close>

definition i_size :: "u8 list \<Rightarrow> u32" where "i_size ip = le32_at ip 4"
definition i_blocks :: "u8 list \<Rightarrow> u32" where "i_blocks ip = le32_at ip 28"
definition i_block :: "u8 list \<Rightarrow> nat \<Rightarrow> u32" where "i_block ip k = le32_at ip (40 + 4 * k)"

section \<open>Blocks\<close>

definition block_to_sector :: "ext2 \<Rightarrow> u32 \<Rightarrow> u32" where
  "block_to_sector st b = b * (blocksize st div IDE_SECTOR_SIZE)"

text \<open>\<open>__READ_BLOCK\<close>: a block that is larger than \<open>blockbuf\<close> is written behind it.\<close>

definition ext2_read_block :: "u32 \<Rightarrow> ext2 \<Rightarrow> (bool \<times> ext2) option" where
  "ext2_read_block b st =
     (let nbytes = blocksize st div IDE_SECTOR_SIZE * 512 in
      if unat nbytes > EXT2_MAX_BLOCK_SIZE then None
      else
        (let (ok, bs) = part st (block_to_sector st b) nbytes in
         Some (ok, st\<lparr>blockbuf := bs @ drop (length bs) (blockbuf st)\<rparr>)))"

definition block_word :: "ext2 \<Rightarrow> u32 \<Rightarrow> u32 option" where
  "block_word st k = (if 4 * unat k + 4 \<le> EXT2_MAX_BLOCK_SIZE then Some (le32_at (blockbuf st) (4 * unat k)) else None)"

text \<open>Follow a pointer: read the block \<open>b\<close> and take its word \<open>k\<close>.\<close>

definition block_entry :: "u32 \<Rightarrow> u32 \<Rightarrow> ext2 \<Rightarrow> (u32 option \<times> ext2) option" where
  "block_entry b k st =
     Option.bind (ext2_read_block b st) (\<lambda>(ok, st).
       if \<not> ok then Some (None, st) else map_option (\<lambda>w. (Some w, st)) (block_word st k))"

definition ext2fs_inode_block :: "u8 list \<Rightarrow> u32 \<Rightarrow> ext2 \<Rightarrow> (u32 option \<times> ext2) option" where
  "ext2fs_inode_block ip bindex st =
     (if bindex < EXT2_NR_DIR_BLOCKS then Some (Some (i_block ip (unat bindex)), st)
      else
        (let bindex = bindex - EXT2_NR_DIR_BLOCKS; n1 = nr_ind_blocks st; n2 = nr_dind_blocks st in
         if bindex < n1 then block_entry (i_block ip EXT2_IND_BLOCK) bindex st
         else
           (let bindex = bindex - n1 in
            if n1 = 0 then None
            else if bindex < n2 then
              Option.bind (block_entry (i_block ip EXT2_DIND_BLOCK) (bindex div n1) st) (\<lambda>(r, st).
                case r of None \<Rightarrow> Some (None, st) | Some b \<Rightarrow> block_entry b (bindex mod n1) st)
            else
              (let bindex = bindex - n2 in
               if n2 = 0 then None
               else
                 Option.bind (block_entry (i_block ip EXT2_TIND_BLOCK) (bindex div n2) st) (\<lambda>(r, st).
                 case r of None \<Rightarrow> Some (None, st) | Some b \<Rightarrow>
                   Option.bind (block_entry b (bindex mod n2 div n1) st) (\<lambda>(r, st).
                     case r of None \<Rightarrow> Some (None, st) | Some b \<Rightarrow> block_entry b (bindex mod n2 mod n1) st))))))"

section \<open>Mounting, group descriptors, inodes\<close>

definition ext2fs_mount :: "device \<Rightarrow> ext2 \<Rightarrow> (int \<times> ext2) option" where
  "ext2fs_mount p st =
     (let st = st\<lparr>part := p\<rparr>; (ok, sb) = p 2 1024 in
      if \<not> ok then Some (-1, st)
      else if le16_at sb 56 \<noteq> EXT2_SUPER_MAGIC then Some (-1, st)
      else if le32_at sb 24 \<ge> 32 then None
      else
        (let bs = push_bit (unat (le32_at sb 24)) EXT2_MIN_BLOCK_SIZE; bpg = le32_at sb 32 in
         if bpg = 0 \<or> bs = 0 then None
         else
           (let st = st\<lparr>blocksize := bs, nr_ind_blocks := bs div 4, nr_dind_blocks := bs div 4 * (bs div 4),
                  nr_tind_blocks := bs div 4 * (bs div 4) * (bs div 4), blocks_per_group := bpg,
                  ngroups := (le32_at sb 4 + bpg - 1) div bpg, inodes_per_group := le32_at sb 40,
                  gdesc_block := EXT2_MIN_BLOCK_SIZE div bs + 1, gdesc_first := 0\<rparr>;
                (ok, gd) = p (block_to_sector st (gdesc_block st)) 512
            in Some (if ok then 0 else -1, st\<lparr>gdesc_cache := gd @ drop (length gd) (gdesc_cache st)\<rparr>))))"

definition ext2fs_get_gdesc :: "u32 \<Rightarrow> ext2 \<Rightarrow> u8 list option \<times> ext2" where
  "ext2fs_get_gdesc group_nr st =
     (let hit = \<not> (group_nr < gdesc_first st \<or> group_nr \<ge> gdesc_first st + EXT2_GDESC_CACHE_SIZE);
          (ok, gd) = part st (block_to_sector st (gdesc_block st) + group_nr div 16) 512;
          st' = (if hit then st else st\<lparr>gdesc_cache := gd @ drop (length gd) (gdesc_cache st)\<rparr>) in
      if \<not> hit \<and> \<not> ok then (None, st')
      else
        (let st' = (if hit then st' else st'\<lparr>gdesc_first := group_nr div EXT2_GDESC_CACHE_SIZE * EXT2_GDESC_CACHE_SIZE\<rparr>)
         in (Some (take EXT2_GROUP_SIZE (drop (EXT2_GROUP_SIZE * unat (group_nr - gdesc_first st')) (gdesc_cache st'))), st')))"

definition ext2fs_get_inode :: "u32 \<Rightarrow> ext2 \<Rightarrow> (u8 list option \<times> ext2) option" where
  "ext2fs_get_inode i st =
     (if inodes_per_group st = 0 then None
      else
        (case ext2fs_get_gdesc ((i - 1) div inodes_per_group st) st of
           (None, st) \<Rightarrow> Some (None, st)
         | (Some gd, st) \<Rightarrow>
             if le32_at gd 8 = 0 then Some (None, st)
             else
               (let offset = (i - 1) mod inodes_per_group st * of_nat EXT2_INODE_SIZE;
                    (ok, buf) = part st (block_to_sector st (le32_at gd 8) + offset div IDE_SECTOR_SIZE) 512
                in Some (if ok then Some (take EXT2_INODE_SIZE (drop (unat (offset mod IDE_SECTOR_SIZE)) buf)) else None, st))))"


section \<open>Directories\<close>

text \<open>The entry at an offset of the block buffer; its name.\<close>

definition dir_inode :: "u8 list \<Rightarrow> nat \<Rightarrow> u32" where "dir_inode b o' = le32_at b o'"
definition dir_reclen :: "u8 list \<Rightarrow> nat \<Rightarrow> u16" where "dir_reclen b o' = le16_at b (o' + 4)"
definition dir_namelen :: "u8 list \<Rightarrow> nat \<Rightarrow> u8" where "dir_namelen b o' = b ! (o' + 6)"
definition dir_filetype :: "u8 list \<Rightarrow> nat \<Rightarrow> u8" where "dir_filetype b o' = b ! (o' + 7)"
definition dir_name :: "u8 list \<Rightarrow> nat \<Rightarrow> nat \<Rightarrow> u8 list" where "dir_name b o' n = take n (drop (o' + 8) b)"

text \<open>The loop of \<open>search_dir_block\<close>; \<open>name\<close> holds the \<open>namelen\<close> bytes that are looked for.  With a
  \<open>type\<close> that is not 0 the names are printed (\<open>out\<close>) and nothing is found.  The result is the inode and the
  type of the entry.\<close>

partial_function (option) search_loop ::
  "u32 \<Rightarrow> u8 list \<Rightarrow> u8 list \<Rightarrow> bool \<Rightarrow> u32 \<Rightarrow> (u8 \<times> u8 list) list \<Rightarrow> ((u32 \<times> u8) option \<times> (u8 \<times> u8 list) list) option" where
  "search_loop bs b name listing offset out =
     (if \<not> offset < bs then Some (None, out)
      else if unat offset + 8 > EXT2_MAX_BLOCK_SIZE then None
      else
        (let d = unat offset; reclen = dir_reclen b d; l = unat (dir_namelen b d); offset' = offset + ucast reclen in
         if reclen < 8 \<or> l + 8 > unat reclen \<or> offset' > bs + 1 then Some (None, out)
         else if \<not> listing then
           (if dir_inode b d \<noteq> 0 \<and> l = length name \<and> dir_name b d l = name
            then Some (Some (dir_inode b d, dir_filetype b d), out)
            else search_loop bs b name listing offset' out)
         else search_loop bs b name listing offset' (out @ [(dir_filetype b d, dir_name b d (min l 60))])))"

definition search_dir_block :: "u8 list \<Rightarrow> bool \<Rightarrow> ext2 \<Rightarrow> ((u32 \<times> u8) option \<times> ext2) option" where
  "search_dir_block name listing st =
     map_option (\<lambda>(r, out). (r, st\<lparr>ls_out := out\<rparr>)) (search_loop (blocksize st) (blockbuf st) name listing 0 (ls_out st))"

fun dir_lookup_loop ::
  "u8 list \<Rightarrow> u8 list \<Rightarrow> bool \<Rightarrow> nat \<Rightarrow> u32 \<Rightarrow> ext2 \<Rightarrow> ((u32 \<times> u8) option \<times> ext2) option" where
  "dir_lookup_loop ip name listing 0 i st = Some (None, st)"
| "dir_lookup_loop ip name listing (Suc n) i st =
     Option.bind (ext2fs_inode_block ip i st) (\<lambda>(r, st).
       case r of None \<Rightarrow> Some (None, st)
       | Some block_nr \<Rightarrow>
           Option.bind
             (if block_nr \<noteq> 0 then ext2_read_block block_nr st
              else if unat (blocksize st) > EXT2_MAX_BLOCK_SIZE then None
              else Some (True, st\<lparr>blockbuf := replicate (unat (blocksize st)) 0 @ drop (unat (blocksize st)) (blockbuf st)\<rparr>))
             (\<lambda>(ok, st).
               if \<not> ok then Some (None, st)
               else
                 Option.bind (search_dir_block name listing st) (\<lambda>(d, st).
                   case d of Some d \<Rightarrow> Some (Some d, st)
                   | None \<Rightarrow> dir_lookup_loop ip name listing n (i + 1) st)))"

definition ext2fs_dir_lookup :: "u32 \<Rightarrow> u8 list \<Rightarrow> bool \<Rightarrow> ext2 \<Rightarrow> ((u32 \<times> u8) option \<times> ext2) option" where
  "ext2fs_dir_lookup dir_ino name listing st =
     Option.bind (ext2fs_get_inode dir_ino st) (\<lambda>(r, st).
       case r of None \<Rightarrow> Some (None, st)
       | Some ip \<Rightarrow>
           if blocksize st = 0 then None
           else dir_lookup_loop ip name listing (unat ((i_size ip + blocksize st - 1) div blocksize st)) 0 st)"

section \<open>Paths\<close>

text \<open>The target of a symbolic link; the text ends at its first 0.\<close>

definition read_symlink :: "u32 \<Rightarrow> ext2 \<Rightarrow> (u8 list option \<times> ext2) option" where
  "read_symlink sym_ino st =
     Option.bind (ext2fs_get_inode sym_ino st) (\<lambda>(r, st).
       case r of None \<Rightarrow> Some (None, st)
       | Some ip \<Rightarrow>
           (let pathlen = sint (i_size ip); text = (\<lambda>b. takeWhile (\<lambda>c. c \<noteq> 0) (take (nat pathlen) b)) in
            if pathlen > MAX_SYMLINK_NAME then Some (None, st)
            else if pathlen < 0 then None
            else if i_blocks ip \<noteq> 0 then
              Option.bind (ext2fs_inode_block ip 0 st) (\<lambda>(r, st).
                case r of None \<Rightarrow> Some (None, st)
                | Some block_nr \<Rightarrow>
                    if block_nr = 0 then Some (None, st)
                    else Option.bind (ext2_read_block block_nr st) (\<lambda>(ok, st).
                      Some (if ok then Some (text (blockbuf st)) else None, st)))
            else if nat pathlen > EXT2_INODE_SIZE - 40 then None
            else Some (Some (text (drop 40 ip)), st)))"

text \<open>One component of a path: its name, whether a delimiter follows, the rest.\<close>

definition next_component :: "u8 list \<Rightarrow> u8 list \<times> bool \<times> u8 list" where
  "next_component path =
     (let name = takeWhile (\<lambda>c. c \<noteq> 0x2f) path; rest = dropWhile (\<lambda>c. c \<noteq> 0x2f) path
      in (name, rest \<noteq> [], drop 1 rest))"

text \<open>The loop of \<open>ext2fs_inode_lookup\<close>; \<open>follow\<close> is its call of itself for a symbolic link.  The argument
  \<open>info\<close> is what the caller's \<open>INODE_INFO_T\<close> holds: a link that was followed has written it, also when the
  lookup then fails.\<close>

type_synonym found_info = "bool \<times> inode_info"

function path_loop ::
  "(u32 \<Rightarrow> u8 list \<Rightarrow> inode_info \<Rightarrow> ext2 \<Rightarrow> (found_info \<times> ext2) option) \<Rightarrow> bool \<Rightarrow> u32 \<Rightarrow> u8 list \<Rightarrow> inode_info \<Rightarrow> ext2 \<Rightarrow>
   (found_info \<times> ext2) option" where
  "path_loop follow typ dir_ino path info st =
     (let (name, delim, rest) = next_component path in
      Option.bind (ext2fs_dir_lookup dir_ino name (typ \<and> \<not> delim) st) (\<lambda>(r, st).
        case r of None \<Rightarrow> Some ((False, info), st)
        | Some (dino, ftype) \<Rightarrow>
            if ftype = EXT2_FTYPE_SYMLINK then
              Option.bind (read_symlink dino st) (\<lambda>(t, st).
                case t of None \<Rightarrow> Some ((False, info), st)
                | Some t \<Rightarrow>
                    Option.bind (follow dir_ino t info st) (\<lambda>((found, info), st).
                      if \<not> found then Some ((False, info), st)
                      else if rest = [] then Some ((True, info), st)
                      else if filetype info \<noteq> EXT2_FTYPE_DIR then Some ((False, info), st)
                      else path_loop follow typ (ino info) rest info st))
            else if ftype = EXT2_FTYPE_DIR then
              (if rest = [] then Some ((True, \<lparr>ino = dino, parent_ino = dir_ino, filetype = ftype\<rparr>), st)
               else path_loop follow typ dino rest info st)
            else if ftype = EXT2_FTYPE_REG_FILE \<and> rest = [] then
              Some ((True, \<lparr>ino = dino, parent_ino = dir_ino, filetype = ftype\<rparr>), st)
            else Some ((False, info), st)))"
  by pat_completeness auto
termination
  by (relation "measure (\<lambda>(_, _, _, path, _). length path)")
    (auto simp: next_component_def Let_def dropWhile_eq_drop neq_Nil_conv)

text \<open>\<open>ext2fs_inode_lookup\<close>; the fuel counts the symbolic links it follows inside each other.\<close>

fun ext2fs_inode_lookup :: "nat \<Rightarrow> u32 \<Rightarrow> u8 list \<Rightarrow> bool \<Rightarrow> inode_info \<Rightarrow> ext2 \<Rightarrow> (found_info \<times> ext2) option" where
  "ext2fs_inode_lookup 0 dir_ino path typ info st = None"
| "ext2fs_inode_lookup (Suc f) dir_ino path typ info st =
     (if path = [] then Some ((False, info), st)
      else if hd path = 0x2f then
        (if tl path = [] then Some ((True, \<lparr>ino = EXT2_ROOT_INO, parent_ino = EXT2_ROOT_INO, filetype = EXT2_FTYPE_DIR\<rparr>), st)
         else path_loop (\<lambda>d t. ext2fs_inode_lookup f d t False) typ EXT2_ROOT_INO (tl path) info st)
      else path_loop (\<lambda>d t. ext2fs_inode_lookup f d t False) typ dir_ino path info st)"

section \<open>Files\<close>

definition no_info :: inode_info where
  "no_info = \<lparr>ino = 0, parent_ino = 0, filetype = 0\<rparr>"

definition no_file :: file_t where
  "no_file = \<lparr>opened = False, inode = [], inode_info = no_info, file_size = 0, file_pos = 0\<rparr>"

text \<open>The result is the index of the file in \<open>file_info\<close>.\<close>

definition ext2fs_open :: "nat \<Rightarrow> u8 list \<Rightarrow> ext2 \<Rightarrow> (nat option \<times> ext2) option" where
  "ext2fs_open fuel filepath st =
     (case List.find (\<lambda>i. \<not> opened (file_info st ! i)) [0..<MAX_FILES] of
        None \<Rightarrow> Some (None, st)
      | Some i \<Rightarrow>
          (let st = st\<lparr>file_info := (file_info st)[i := no_file\<lparr>opened := True\<rparr>]\<rparr> in
           Option.bind (ext2fs_inode_lookup fuel EXT2_ROOT_INO filepath False no_info st) (\<lambda>((found, info), st).
             if \<not> found then Some (None, st\<lparr>file_info := (file_info st)[i := no_file\<lparr>opened := True, inode_info := info\<rparr>]\<rparr>)
             else
                 Option.bind (ext2fs_get_inode (ino info) st) (\<lambda>(ip, st).
                   case ip of
                     None \<Rightarrow> Some (None, st\<lparr>file_info := (file_info st)[i := no_file\<lparr>opened := True, inode_info := info\<rparr>]\<rparr>)
                   | Some ip \<Rightarrow> Some (Some i, st\<lparr>file_info := (file_info st)[i := no_file\<lparr>opened := True, inode_info := info,
                         inode := ip, file_size := i_size ip, file_pos := 0\<rparr>]\<rparr>)))))"

definition ext2fs_close :: "nat \<Rightarrow> ext2 \<Rightarrow> ext2" where
  "ext2fs_close i st = st\<lparr>file_info := (file_info st)[i := (file_info st ! i)\<lparr>opened := False\<rparr>]\<rparr>"

definition ext2fs_file_size :: "nat \<Rightarrow> ext2 \<Rightarrow> u32" where
  "ext2fs_file_size i st = file_size (file_info st ! i)"

text \<open>\<open>ext2fs_read\<close>: the bytes stored to the caller's buffer so far are \<open>out\<close>.\<close>

function ext2_read_loop :: "u32 \<Rightarrow> u32 \<Rightarrow> u32 \<Rightarrow> u8 list \<Rightarrow> file_t \<Rightarrow> ext2 \<Rightarrow> (int \<times> u8 list \<times> file_t \<times> ext2) option" where
  "ext2_read_loop nbytes nread bindex out fp st =
     (if \<not> nread < nbytes then Some (sint nread, out, fp, st)
      else
        Option.bind (ext2fs_inode_block (inode fp) bindex st) (\<lambda>(r, st).
          case r of None \<Rightarrow> Some (-1, out, fp, st)
          | Some block_nr \<Rightarrow>
              Option.bind
                (if block_nr \<noteq> 0 then ext2_read_block block_nr st
                 else if unat (blocksize st) > EXT2_MAX_BLOCK_SIZE then None
                 else Some (True, st\<lparr>blockbuf := replicate (unat (blocksize st)) 0 @ drop (unat (blocksize st)) (blockbuf st)\<rparr>))
                (\<lambda>(ok, st).
                  if \<not> ok then Some (0, out, fp, st)
                  else if blocksize st = 0 then None
                  else
                    (let to_read = (if nbytes - nread > blocksize st then blocksize st else nbytes - nread) in
                     ext2_read_loop nbytes (nread + to_read) (bindex + 1) (out @ take (unat to_read) (blockbuf st))
                       (fp\<lparr>file_pos := file_pos fp + to_read\<rparr>) st))))"
  by pat_completeness auto
termination
proof (relation "measure (\<lambda>(nbytes, nread, _). unat (nbytes - nread))", simp, clarsimp split del: if_split)
  fix nbytes nread bs :: u32
  assume a: "nread < nbytes" "bs \<noteq> 0"
  have "nbytes - nread \<noteq> 0" using a(1) by auto
  then have "0 < nbytes - nread" by (simp add: word_gt_0)
  let ?t = "if bs < nbytes - nread then bs else nbytes - nread"
  have t: "?t \<le> nbytes - nread" "?t \<noteq> 0" using a \<open>0 < nbytes - nread\<close> by auto
  then have "unat (nbytes - nread - ?t) = unat (nbytes - nread) - unat ?t" by (intro unat_sub) simp
  moreover have "0 < unat ?t" using t(2) by (simp add: unat_gt_0)
  moreover have "unat ?t \<le> unat (nbytes - nread)" using t(1) by (simp add: word_le_nat_alt)
  ultimately have "unat (nbytes - nread - ?t) < unat (nbytes - nread)" by linarith
  then show "unat (nbytes - (nread + ?t)) < unat (nbytes - nread)" by (simp add: diff_diff_add)
qed

definition ext2fs_read :: "nat \<Rightarrow> u32 \<Rightarrow> ext2 \<Rightarrow> (int \<times> u8 list \<times> ext2) option" where
  "ext2fs_read i nbytes st =
     (let fp = file_info st ! i; bs = blocksize st;
          nbytes = (if file_pos fp + nbytes > file_size fp then file_size fp - file_pos fp else nbytes) in
      if bs = 0 then None
      else
        (let left = bs - file_pos fp mod bs;
             rem = (if left \<noteq> bs then (if left > nbytes then nbytes else left) else 0);
             out = (if left \<noteq> bs then take (unat rem) (drop (unat (bs - left)) (blockbuf st)) else []);
             fp = fp\<lparr>file_pos := file_pos fp + rem\<rparr>
         in map_option (\<lambda>(r, out, fp, st). (r, out, st\<lparr>file_info := (file_info st)[i := fp]\<rparr>))
              (ext2_read_loop nbytes rem (file_pos fp div bs) out fp st)))"

definition ext2fs_ls :: "nat \<Rightarrow> u8 list \<Rightarrow> ext2 \<Rightarrow> ext2 option" where
  "ext2fs_ls fuel pathname st = map_option snd (ext2fs_inode_lookup fuel EXT2_ROOT_INO pathname True no_info st)"

text \<open>\<open>ext2fs_init\<close> without \<open>LOAD_FROM_IDE\<close> mounts the first partition of every disk, the last one
  stays; it returns 0.\<close>

fun init_parts :: "ide_part list \<Rightarrow> ext2 \<Rightarrow> ext2 option" where
  "init_parts [] st = Some st"
| "init_parts (p # ps) st =
     (if \<not> present p \<or> part_id p \<noteq> 0 then init_parts ps st
      else Option.bind (ext2fs_mount (read_dma p) (st\<lparr>file_info := replicate MAX_FILES no_file\<rparr>)) (\<lambda>(_, st). init_parts ps st))"

definition ext2fs_init :: "ide_part list \<Rightarrow> ext2 \<Rightarrow> (int \<times> ext2) option" where
  "ext2fs_init ide_partitions st =
     map_option (Pair 0) (init_parts ide_partitions
       (st\<lparr>file_info := replicate MAX_FILES no_file, blockbuf := replicate EXT2_MAX_BLOCK_SIZE 0\<rparr>))"

section \<open>Blocks of a file\<close>

text \<open>A mounted file system with the block sizes the buffer has room for, and a device that never
  delivers more bytes than it is asked for.\<close>

definition fs_ok :: "ext2 \<Rightarrow> bool" where
  "fs_ok st \<longleftrightarrow> blocksize st \<in> {1024, 2048, 4096} \<and> nr_ind_blocks st = blocksize st div 4 \<and>
     nr_dind_blocks st = blocksize st div 4 * (blocksize st div 4) \<and> length (blockbuf st) = EXT2_MAX_BLOCK_SIZE \<and>
     (\<forall>s n. length (snd (part st s n)) \<le> unat n)"

text \<open>What stays the same while blocks are read.\<close>

definition fs_same :: "ext2 \<Rightarrow> ext2 \<Rightarrow> bool" where
  "fs_same st st' \<longleftrightarrow> part st' = part st \<and> blocksize st' = blocksize st \<and> nr_ind_blocks st' = nr_ind_blocks st \<and>
     nr_dind_blocks st' = nr_dind_blocks st \<and> file_info st' = file_info st \<and>
     (fs_ok st \<longrightarrow> length (blockbuf st') = length (blockbuf st))"

lemma fs_same_refl: "fs_same st st" by (simp add: fs_same_def)

lemma fs_same_ok: "fs_same st st' \<Longrightarrow> fs_ok st \<Longrightarrow> fs_ok st'"
  by (simp add: fs_same_def fs_ok_def)

lemma fs_same_trans: "fs_same st st' \<Longrightarrow> fs_same st' st'' \<Longrightarrow> fs_same st st''"
proof -
  assume a: "fs_same st st'" "fs_same st' st''"
  have "fs_ok st \<Longrightarrow> fs_ok st'" using a(1) by (rule fs_same_ok)
  then show ?thesis using a unfolding fs_same_def by (elim conjE, intro conjI) simp_all
qed

definition bs_of :: "ext2 \<Rightarrow> nat" where "bs_of st = unat (blocksize st)"

lemma fs_ok_sizes:
  assumes "fs_ok st"
  shows "blocksize st div IDE_SECTOR_SIZE * 512 = blocksize st" "\<not> bs_of st > EXT2_MAX_BLOCK_SIZE"
    "bs_of st \<in> {1024, 2048, 4096}" "unat (nr_ind_blocks st) = bs_of st div 4"
    "unat (nr_dind_blocks st) = (bs_of st div 4) * (bs_of st div 4)" "blocksize st \<noteq> 0"
  using assms by (auto simp: fs_ok_def IDE_SECTOR_SIZE_def EXT2_MAX_BLOCK_SIZE_def bs_of_def)

text \<open>A whole block of the device, and the pointer \<open>k\<close> in it.\<close>

definition dev_block :: "ext2 \<Rightarrow> u32 \<Rightarrow> u8 list option" where
  "dev_block st b = (let (ok, bs) = part st (block_to_sector st b) (blocksize st) in
     if ok \<and> length bs = bs_of st then Some bs else None)"

definition dev_ptr :: "ext2 \<Rightarrow> u32 \<Rightarrow> nat \<Rightarrow> u32 option" where
  "dev_ptr st b k = map_option (\<lambda>bs. le32_at bs (4 * k)) (dev_block st b)"

text \<open>The block number of block \<open>i\<close> of a file: direct, or through one, two or three pointers.\<close>

definition bmap :: "ext2 \<Rightarrow> u8 list \<Rightarrow> nat \<Rightarrow> u32 option" where
  "bmap st ip i =
     (let n = bs_of st div 4; j = i - 12; k = j - n; l = k - n * n in
      if i < 12 then Some (i_block ip i)
      else if j < n then dev_ptr st (i_block ip 12) j
      else if k < n * n then Option.bind (dev_ptr st (i_block ip 13) (k div n)) (\<lambda>b. dev_ptr st b (k mod n))
      else if l < n * n * n then
        Option.bind (dev_ptr st (i_block ip 14) (l div (n * n))) (\<lambda>b.
        Option.bind (dev_ptr st b (l mod (n * n) div n)) (\<lambda>b. dev_ptr st b (l mod (n * n) mod n)))
      else None)"

lemma ext2_read_block_same:
  assumes "fs_ok st" "ext2_read_block b st = Some (ok, st')"
  shows "fs_same st st'"
proof -
  obtain bs where r: "part st (block_to_sector st b) (blocksize st) = (ok, bs)" "st' = st\<lparr>blockbuf := bs @ drop (length bs) (blockbuf st)\<rparr>"
    using assms fs_ok_sizes [OF assms(1)] by (auto simp: ext2_read_block_def bs_of_def split: prod.splits)
  have "length (snd (part st (block_to_sector st b) (blocksize st))) \<le> unat (blocksize st)" using assms(1) unfolding fs_ok_def by blast
  then have "length bs \<le> bs_of st" using r(1) by (simp add: bs_of_def)
  then show ?thesis using r(2) assms(1) fs_ok_sizes [OF assms(1)] by (auto simp: fs_same_def fs_ok_def)
qed

lemma ext2_read_block_dev:
  assumes "fs_ok st" "dev_block st b = Some bs"
  shows "ext2_read_block b st = Some (True, st\<lparr>blockbuf := bs @ drop (bs_of st) (blockbuf st)\<rparr>)"
  using assms fs_ok_sizes [OF assms(1)] by (auto simp: ext2_read_block_def dev_block_def bs_of_def split: prod.splits if_splits)

lemma block_entry_ptr:
  assumes "fs_ok st" "dev_ptr st b (unat k) = Some w" "unat k < bs_of st div 4"
  shows "\<exists>st'. block_entry b k st = Some (Some w, st') \<and> fs_same st st'"
proof -
  obtain bs where bs: "dev_block st b = Some bs" "w = le32_at bs (4 * unat k)" using assms(2) by (auto simp: dev_ptr_def)
  note r = ext2_read_block_dev [OF assms(1) bs(1)]
  have l: "length bs = bs_of st" using bs(1) by (auto simp: dev_block_def split: prod.splits if_splits)
  have "4 * unat k + 4 \<le> bs_of st" using assms(3) by linarith
  then have "le32_at (bs @ drop (bs_of st) (blockbuf st)) (4 * unat k) = w"
    using l bs(2) by (simp add: le32_at_def nth_append)
  moreover have "4 * unat k + 4 \<le> EXT2_MAX_BLOCK_SIZE" using \<open>4 * unat k + 4 \<le> bs_of st\<close> fs_ok_sizes(2) [OF assms(1)] by linarith
  ultimately show ?thesis using r ext2_read_block_same [OF assms(1) r] by (simp add: block_entry_def block_word_def)
qed

lemma dev_same: "fs_same st st' \<Longrightarrow> dev_block st' = dev_block st" "fs_same st st' \<Longrightarrow> dev_ptr st' = dev_ptr st"
  "fs_same st st' \<Longrightarrow> bs_of st' = bs_of st"
proof -
  assume a: "fs_same st st'"
  then show b: "bs_of st' = bs_of st" by (simp add: fs_same_def bs_of_def)
  show d: "dev_block st' = dev_block st" using a b by (auto simp: fs_same_def dev_block_def block_to_sector_def fun_eq_iff)
  show "dev_ptr st' = dev_ptr st" using d by (simp add: dev_ptr_def fun_eq_iff)
qed

lemma bmap_same: "bmap st' = bmap st" if "fs_same st st'"
  by (intro ext) (simp only: bmap_def dev_same [OF that])

lemma unat_minus_of: "k \<le> i \<Longrightarrow> i < 2 ^ 32 \<Longrightarrow> unat (w :: u32) = k \<Longrightarrow> unat (of_nat i - w) = i - k"
proof -
  assume a: "k \<le> i" "i < 2 ^ 32" "unat w = k"
  have u: "unat (of_nat i :: u32) = i" using a(2) by (subst unat_of_nat) simp
  then have "w \<le> of_nat i" using a by (simp add: word_le_nat_alt)
  then show ?thesis using u a(3) by (simp add: unat_sub)
qed

lemma inode_block_bmap:
  assumes ok: "fs_ok st" and i: "i < 2 ^ 32" and b: "bmap st ip i = Some b"
  shows "\<exists>st'. ext2fs_inode_block ip (of_nat i) st = Some (Some b, st') \<and> fs_same st st'"
proof -
  define n where "n = bs_of st div 4"
  have n: "unat (nr_ind_blocks st) = n" "unat (nr_dind_blocks st) = n * n" "n \<in> {256, 512, 1024}"
    using fs_ok_sizes [OF ok] by (auto simp: n_def)
  have nz: "nr_ind_blocks st \<noteq> 0" "nr_dind_blocks st \<noteq> 0" using n by auto
  have ui: "unat (of_nat i :: u32) = i" using i by (subst unat_of_nat) simp
  have t: "unat EXT2_NR_DIR_BLOCKS = 12" by (simp add: EXT2_NR_DIR_BLOCKS_def)
  have lt: "x < y \<longleftrightarrow> unat x < unat y" for x y :: u32 by (rule word_less_nat_alt)
  show ?thesis
  proof (cases "i < 12")
    case True
    then show ?thesis using b ui t by (simp add: ext2fs_inode_block_def bmap_def lt fs_same_refl)
  next
    case False
    let ?j = "of_nat i - EXT2_NR_DIR_BLOCKS :: u32"
    have j: "unat ?j = i - 12" using False i t by (intro unat_minus_of) simp_all
    have nd: "\<not> (of_nat i :: u32) < EXT2_NR_DIR_BLOCKS" using False ui t by (simp add: lt)
    show ?thesis
    proof (cases "i - 12 < n")
      case True
      then have "dev_ptr st (i_block ip 12) (unat ?j) = Some b" using b False by (simp add: bmap_def Let_def n_def j)
      from block_entry_ptr [OF ok this] True show ?thesis
        using nd j n(1) by (simp add: ext2fs_inode_block_def lt EXT2_IND_BLOCK_def n_def Let_def)
    next
      case ind: False
      let ?k = "?j - nr_ind_blocks st"
      have k: "unat ?k = i - 12 - n" using ind j n(1) by (simp add: unat_sub word_le_nat_alt)
      have nj: "\<not> ?j < nr_ind_blocks st" using ind j n(1) by (simp add: lt)
      show ?thesis
      proof (cases "i - 12 - n < n * n")
        case True
        then obtain b1 where b1: "dev_ptr st (i_block ip 13) ((i - 12 - n) div n) = Some b1" "dev_ptr st b1 ((i - 12 - n) mod n) = Some b"
          using b False ind by (auto simp: bmap_def Let_def n_def [symmetric] bind_eq_Some_conv)
        have "(i - 12 - n) div n < n" using True by (simp add: less_mult_imp_div_less)
        then obtain s1 where s1: "block_entry (i_block ip 13) (?k div nr_ind_blocks st) st = Some (Some b1, s1)" "fs_same st s1"
          using block_entry_ptr [OF ok, of "i_block ip 13" "?k div nr_ind_blocks st" b1] b1(1) by (auto simp: unat_div k n(1) n_def [symmetric])
        have "(i - 12 - n) mod n < n" using n(3) by auto
        then obtain s2 where s2: "block_entry b1 (?k mod nr_ind_blocks st) s1 = Some (Some b, s2)" "fs_same s1 s2"
          using block_entry_ptr [OF fs_same_ok [OF s1(2) ok], of b1 "?k mod nr_ind_blocks st" b] b1(2)
          by (auto simp: unat_mod k n(1) n_def [symmetric] dev_same [OF s1(2)])
        show ?thesis using True nd nj nz k n(2) s1 s2 fs_same_trans [OF s1(2) s2(2)]
          by (simp add: ext2fs_inode_block_def lt [of ?k] EXT2_DIND_BLOCK_def EXT2_IND_BLOCK_def Let_def)
      next
        case dind: False
        let ?l = "?k - nr_dind_blocks st"
        define l where "l = i - 12 - n - n * n"
        have l: "unat ?l = l" using dind k n(2) by (simp add: unat_sub word_le_nat_alt l_def)
        have nk: "\<not> ?k < nr_dind_blocks st" using dind k n(2) by (simp add: lt)
        have lb: "l < n * n * n" using b False ind dind by (auto simp: bmap_def Let_def n_def [symmetric] l_def split: if_splits)
        have l': "i - (12 + n + n * n) = l" "i - 12 - n - n * n = l" by (simp_all add: l_def)
        obtain b1 b2 where b1: "dev_ptr st (i_block ip 14) (l div (n * n)) = Some b1"
            "dev_ptr st b1 (l mod (n * n) div n) = Some b2" "dev_ptr st b2 (l mod (n * n) mod n) = Some b"
          using b lb False ind dind by (auto simp: bmap_def Let_def n_def [symmetric] l' bind_eq_Some_conv)
        have nn: "0 < n" "0 < n * n" using n(3) by auto
        have "l div (n * n) < n" using lb by (simp add: less_mult_imp_div_less mult.commute mult.left_commute)
        then obtain s1 where s1: "block_entry (i_block ip 14) (?l div nr_dind_blocks st) st = Some (Some b1, s1)" "fs_same st s1"
          using block_entry_ptr [OF ok, of "i_block ip 14" "?l div nr_dind_blocks st" b1] b1(1) by (auto simp: unat_div l n(2) n_def [symmetric])
        have "l mod (n * n) div n < n" using nn mod_less_divisor [OF nn(2), of l] by (intro less_mult_imp_div_less) simp
        then obtain s2 where s2: "block_entry b1 (?l mod nr_dind_blocks st div nr_ind_blocks st) s1 = Some (Some b2, s2)" "fs_same s1 s2"
          using block_entry_ptr [OF fs_same_ok [OF s1(2) ok], of b1 "?l mod nr_dind_blocks st div nr_ind_blocks st" b2] b1(2)
          by (auto simp: unat_mod unat_div l n(1,2) n_def [symmetric] dev_same [OF s1(2)])
        have "l mod (n * n) mod n < n" using nn by simp
        then obtain s3 where s3: "block_entry b2 (?l mod nr_dind_blocks st mod nr_ind_blocks st) s2 = Some (Some b, s3)" "fs_same s2 s3"
          using block_entry_ptr [OF fs_same_ok [OF fs_same_trans [OF s1(2) s2(2)] ok], of b2 "?l mod nr_dind_blocks st mod nr_ind_blocks st" b] b1(3)
          by (auto simp: unat_mod unat_div l n(1,2) n_def [symmetric] dev_same [OF s1(2)] dev_same [OF s2(2)])
        show ?thesis using nd nj nk nz s1 s2 s3 fs_same_trans [OF fs_same_trans [OF s1(2) s2(2)] s3(2)]
          by (simp add: ext2fs_inode_block_def EXT2_TIND_BLOCK_def EXT2_DIND_BLOCK_def EXT2_IND_BLOCK_def Let_def)
      qed
    qed
  qed
qed


section \<open>The contents of a file\<close>

definition file_block :: "ext2 \<Rightarrow> u8 list \<Rightarrow> nat \<Rightarrow> u8 list option" where
  "file_block st ip i = Option.bind (bmap st ip i) (\<lambda>b. if b = 0 then Some (replicate (bs_of st) 0) else dev_block st b)"

text \<open>Byte \<open>j\<close> of a file of \<open>sz\<close> bytes lies in its block \<open>j div bs\<close>.\<close>

definition contents :: "ext2 \<Rightarrow> u8 list \<Rightarrow> nat \<Rightarrow> u8 list" where
  "contents st ip sz = map (\<lambda>j. the (file_block st ip (j div bs_of st)) ! (j mod bs_of st)) [0..<sz]"

definition readable :: "ext2 \<Rightarrow> u8 list \<Rightarrow> nat \<Rightarrow> bool" where
  "readable st ip sz \<longleftrightarrow> (\<forall>i. i * bs_of st < sz \<longrightarrow> file_block st ip i \<noteq> None)"

lemma file_block_same: "file_block st' = file_block st" if "fs_same st st'"
  by (intro ext) (simp only: file_block_def bmap_same [OF that] dev_same [OF that])

lemma contents_same: "contents st' = contents st" "readable st' = readable st" if "fs_same st st'"
  by (intro ext, simp only: contents_def readable_def file_block_same [OF that] dev_same [OF that])+

lemma file_block_length: "file_block st ip i = Some blk \<Longrightarrow> length blk = bs_of st"
  by (auto simp: file_block_def dev_block_def bind_eq_Some_conv split: if_splits prod.splits)

lemma fetch_block:
  assumes ok: "fs_ok st" and i: "i < 2 ^ 32" and b: "file_block st ip i = Some blk"
  shows "\<exists>nr s1 s2. ext2fs_inode_block ip (of_nat i) st = Some (Some nr, s1) \<and>
    (if nr \<noteq> 0 then ext2_read_block nr s1
     else if unat (blocksize s1) > EXT2_MAX_BLOCK_SIZE then None
     else Some (True, s1\<lparr>blockbuf := replicate (unat (blocksize s1)) 0 @ drop (unat (blocksize s1)) (blockbuf s1)\<rparr>)) = Some (True, s2) \<and>
    fs_same st s2 \<and> take (bs_of st) (blockbuf s2) = blk"
proof -
  obtain nr where nr: "bmap st ip i = Some nr" "(if nr = 0 then Some (replicate (bs_of st) 0) else dev_block st nr) = Some blk"
    using b by (auto simp: file_block_def bind_eq_Some_conv)
  obtain s1 where s1: "ext2fs_inode_block ip (of_nat i) st = Some (Some nr, s1)" "fs_same st s1"
    using inode_block_bmap [OF ok i nr(1)] by blast
  have ok1: "fs_ok s1" by (rule fs_same_ok [OF s1(2) ok])
  have bs: "bs_of s1 = bs_of st" by (rule dev_same(3) [OF s1(2)])
  show ?thesis
  proof (cases "nr = 0")
    case True
    let ?s2 = "s1\<lparr>blockbuf := replicate (bs_of s1) 0 @ drop (bs_of s1) (blockbuf s1)\<rparr>"
    have "length (blockbuf s1) = EXT2_MAX_BLOCK_SIZE" using ok1 by (simp add: fs_ok_def)
    then have "fs_same s1 ?s2" using fs_ok_sizes [OF ok1] by (simp add: fs_same_def)
    moreover have "blk = replicate (bs_of st) 0" using nr(2) True by simp
    ultimately show ?thesis using s1 True fs_ok_sizes(2) [OF ok1] fs_same_trans [OF s1(2), of ?s2] bs
      by (intro exI [of _ nr] exI [of _ s1] exI [of _ ?s2]) (simp add: bs_of_def)
  next
    case False
    then have d: "dev_block s1 nr = Some blk" using nr(2) dev_same(1) [OF s1(2)] by simp
    note r = ext2_read_block_dev [OF ok1 d]
    have "length blk = bs_of st" using file_block_length [OF b] .
    then show ?thesis using s1 False r bs fs_same_trans [OF s1(2) ext2_read_block_same [OF ok1 r]]
      by (intro exI [of _ nr] exI [of _ s1] exI [of _ "s1\<lparr>blockbuf := blk @ drop (bs_of s1) (blockbuf s1)\<rparr>"]) simp
  qed
qed

lemma contents_piece:
  assumes "0 < bs_of st" "p mod bs_of st + t \<le> bs_of st" "p + t \<le> sz"
    and "file_block st ip (p div bs_of st) = Some blk"
  shows "take t (drop (p mod bs_of st) blk) = take t (drop p (contents st ip sz))"
proof (rule nth_equalityI)
  have l: "length blk = bs_of st" using file_block_length assms(4) by blast
  show "length (take t (drop (p mod bs_of st) blk)) = length (take t (drop p (contents st ip sz)))"
    using assms(2,3) l by (simp add: contents_def)
  fix j
  assume "j < length (take t (drop (p mod bs_of st) blk))"
  then have j: "j < t" by simp
  have m: "p mod bs_of st + j < bs_of st" using assms(2) j by linarith
  have "(p + j) div bs_of st = p div bs_of st + (p mod bs_of st + j) div bs_of st"
    using div_mult_self3 [of "bs_of st" "p div bs_of st" "p mod bs_of st + j"] assms(1)
    by (simp add: add.assoc [symmetric] del: div_mult_self3)
  moreover have "(p + j) mod bs_of st = p mod bs_of st + j"
    using mod_less [OF m] by (metis mod_add_left_eq)
  ultimately have "(p + j) div bs_of st = p div bs_of st" "(p + j) mod bs_of st = p mod bs_of st + j"
    using m by simp_all
  then show "take t (drop (p mod bs_of st) blk) ! j = take t (drop p (contents st ip sz)) ! j"
    using j assms l by (simp add: contents_def)
qed

section \<open>Reading\<close>

text \<open>The open file \<open>fp\<close> of \<open>sz\<close> bytes stands at byte \<open>p\<close>; inside a block that block is in the buffer.\<close>

definition at_pos :: "file_t \<Rightarrow> nat \<Rightarrow> nat \<Rightarrow> ext2 \<Rightarrow> bool" where
  "at_pos fp sz p st \<longleftrightarrow> fs_ok st \<and> readable st (inode fp) sz \<and> unat (file_size fp) = sz \<and> unat (file_pos fp) = p \<and>
     p \<le> sz \<and> sz < 2 ^ 31 \<and>
     (p mod bs_of st \<noteq> 0 \<longrightarrow> file_block st (inode fp) (p div bs_of st) = Some (take (bs_of st) (blockbuf st)))"

lemma unat_add_nowrap: "unat (a :: u32) + unat b < 2 ^ 32 \<Longrightarrow> unat (a + b) = unat a + unat b"
  by (subst unat_add_lem [symmetric]) simp

lemma unat_sub_le: "unat (b :: u32) \<le> unat a \<Longrightarrow> unat (a - b) = unat a - unat b"
  by (simp add: unat_sub word_le_nat_alt)

lemma ext2_read_loop_content:
  assumes "at_pos fp sz (q + unat nread) st" "(q + unat nread) mod bs_of st = 0 \<and> unat bindex = (q + unat nread) div bs_of st \<or> nread = nbytes"
    and "q + unat nbytes \<le> sz" "nread \<le> nbytes"
  shows "\<exists>fp' st'. ext2_read_loop nbytes nread bindex out fp st =
      Some (sint nbytes, out @ take (unat nbytes - unat nread) (drop (q + unat nread) (contents st (inode fp) sz)), fp', st') \<and>
    at_pos fp' sz (q + unat nbytes) st' \<and> fs_same st st' \<and> fp' = fp\<lparr>file_pos := file_pos fp'\<rparr>"
  using assms
proof (induction nbytes nread bindex out fp st rule: ext2_read_loop.induct)
  case (1 nbytes nread bindex out fp st)
  have ok: "fs_ok st" using 1(2) by (simp add: at_pos_def)
  have bs: "0 < bs_of st" using fs_ok_sizes(3) [OF ok] by auto
  show ?case
  proof (cases "nread < nbytes")
    case False
    then have "nread = nbytes" using 1(5) by simp
    then show ?thesis using 1(2) False by (simp add: ext2_read_loop.simps fs_same_refl)
  next
    case True
    let ?p = "q + unat nread"
    have lt: "unat nread < unat nbytes" using True by (simp add: word_less_nat_alt)
    have pm: "?p mod bs_of st = 0" "unat bindex = ?p div bs_of st" using 1(3) True by auto
    have b: "?p div bs_of st * bs_of st = ?p" using pm(1) by (metis div_mult_mod_eq add.right_neutral)
    obtain blk where blk: "file_block st (inode fp) (?p div bs_of st) = Some blk"
      using 1(2) b lt 1(4) unfolding at_pos_def readable_def by (metis option.exhaust add_less_mono1 nat_add_left_cancel_less less_le_trans)
    have "?p < 2 ^ 32" using 1(2) lt 1(4) by (simp add: at_pos_def)
    then have i: "?p div bs_of st < 2 ^ 32" using div_le_dividend le_less_trans by blast
    have bi: "bindex = of_nat (?p div bs_of st)" unfolding pm(2) [symmetric] by simp
    obtain nr s1 s2 where f: "ext2fs_inode_block (inode fp) bindex st = Some (Some nr, s1)"
      "(if nr \<noteq> 0 then ext2_read_block nr s1
       else if unat (blocksize s1) > EXT2_MAX_BLOCK_SIZE then None
       else Some (True, s1\<lparr>blockbuf := replicate (unat (blocksize s1)) 0 @ drop (unat (blocksize s1)) (blockbuf s1)\<rparr>)) = Some (True, s2)"
      "fs_same st s2" "take (bs_of st) (blockbuf s2) = blk"
      using fetch_block [OF ok i blk] unfolding bi [symmetric] by blast
    note same = dev_same [OF f(3)] contents_same [OF f(3)] file_block_same [OF f(3)]
    have ok2: "fs_ok s2" by (rule fs_same_ok [OF f(3) ok])
    define t where "t = (if nbytes - nread > blocksize s2 then blocksize s2 else nbytes - nread)"
    have d: "unat (nbytes - nread) = unat nbytes - unat nread" using lt by (simp add: unat_sub_le)
    have bs2: "unat (blocksize s2) = bs_of st" using same(3) by (simp add: bs_of_def)
    have t: "unat t = min (bs_of st) (unat nbytes - unat nread)"
      using d bs2 by (simp add: t_def word_less_nat_alt min_def)
    have t': "0 < unat t" "unat t \<le> bs_of st" "unat nread + unat t \<le> unat nbytes" using t bs lt by auto
    have szs: "sz < 2 ^ 31" "?p \<le> sz" "unat (file_pos fp) = ?p" "unat (file_size fp) = sz" using 1(2) by (simp_all add: at_pos_def)
    have u1: "unat (nread + t) = unat nread + unat t" using t'(3) szs 1(4) by (intro unat_add_nowrap) simp
    have u2: "unat (file_pos fp + t) = ?p + unat t" using t'(3) szs 1(4) by (subst unat_add_nowrap) simp_all
    have q: "q + unat (nread + t) = ?p + unat t" using u1 by simp
    let ?fp = "fp\<lparr>file_pos := file_pos fp + t\<rparr>"
    have dv: "(?p + unat t) mod bs_of st \<noteq> 0 \<Longrightarrow> unat t < bs_of st \<and> (?p + unat t) div bs_of st = ?p div bs_of st"
    proof -
      assume a: "(?p + unat t) mod bs_of st \<noteq> 0"
      have "unat t \<noteq> bs_of st" using a pm(1) by auto
      then have "unat t < bs_of st" using t' by simp
      then show ?thesis using pm(1) by (simp add: div_add1_eq [of ?p])
    qed
    have at: "at_pos ?fp sz (q + unat (nread + t)) s2"
      unfolding at_pos_def q using ok2 1(2) u2 szs t'(3) 1(4) dv blk f(4) by (auto simp: at_pos_def same)
    have le: "nread + t \<le> nbytes" using u1 t'(3) by (simp add: word_le_nat_alt)
    have m: "(q + unat (nread + t)) mod bs_of s2 = 0 \<and> unat (bindex + 1) = (q + unat (nread + t)) div bs_of s2 \<or> nread + t = nbytes"
    proof (cases "unat t = bs_of st")
      case True
      have "?p div bs_of st < 2 ^ 31" using szs(1,2) div_le_dividend [of ?p "bs_of st"] by linarith
      then have "unat (bindex + 1) = unat bindex + 1" using pm(2) by (subst unat_add_nowrap) simp_all
      moreover have "(?p + bs_of st) div bs_of st = ?p div bs_of st + 1" using bs by (simp add: div_add_self2)
      ultimately show ?thesis using pm True unfolding q same by simp
    next
      case False
      then have "unat (nread + t) = unat nbytes" using t u1 lt by (auto simp: min_def split: if_splits)
      then show ?thesis by (simp add: word_unat_eq_iff)
    qed
    have piece: "take (unat t) (blockbuf s2) = take (unat t) (drop ?p (contents st (inode fp) sz))"
      using contents_piece [OF bs, of ?p "unat t" sz "inode fp" blk] pm(1) t' 1(4) blk f(4) by (auto simp: min_absorb1)
    have nz: "blocksize s2 \<noteq> 0" using bs bs2 by auto
    obtain fp' st' where r: "ext2_read_loop nbytes (nread + t) (bindex + 1) (out @ take (unat t) (blockbuf s2)) ?fp s2 =
        Some (sint nbytes, (out @ take (unat t) (blockbuf s2)) @
          take (unat nbytes - unat (nread + t)) (drop (q + unat (nread + t)) (contents s2 (inode ?fp) sz)), fp', st')"
      "at_pos fp' sz (q + unat nbytes) st'" "fs_same s2 st'" "fp' = ?fp\<lparr>file_pos := file_pos fp'\<rparr>"
      using 1(1) [OF _ f(1) refl refl f(2) refl _ nz t_def at m 1(4) le] True by auto
    have step: "ext2_read_loop nbytes nread bindex out fp st =
        ext2_read_loop nbytes (nread + t) (bindex + 1) (out @ take (unat t) (blockbuf s2)) ?fp s2"
      by (subst ext2_read_loop.simps) (simp add: True f(1) f(2) nz t_def Let_def)
    have "take (unat nbytes - unat nread) (drop ?p c) =
        take (unat t) (drop ?p c) @ take (unat nbytes - unat (nread + t)) (drop (q + unat (nread + t)) c)" for c :: "u8 list"
    proof -
      have "unat nbytes - unat nread = unat t + (unat nbytes - unat (nread + t))" using t'(3) u1 by simp
      then show ?thesis by (simp add: take_add q add.commute)
    qed
    then show ?thesis using r fs_same_trans [OF f(3) r(3)] unfolding step by (simp add: piece same)
  qed
qed

lemma file_info_same [simp]:
  "fs_ok (st\<lparr>file_info := x\<rparr>) = fs_ok st" "bs_of (st\<lparr>file_info := x\<rparr>) = bs_of st"
  "dev_block (st\<lparr>file_info := x\<rparr>) = dev_block st" "dev_ptr (st\<lparr>file_info := x\<rparr>) = dev_ptr st"
  "bmap (st\<lparr>file_info := x\<rparr>) = bmap st" "file_block (st\<lparr>file_info := x\<rparr>) = file_block st"
  "contents (st\<lparr>file_info := x\<rparr>) = contents st" "readable (st\<lparr>file_info := x\<rparr>) = readable st"
  "at_pos fp sz p (st\<lparr>file_info := x\<rparr>) = at_pos fp sz p st"
proof -
  show b: "fs_ok (st\<lparr>file_info := x\<rparr>) = fs_ok st" "bs_of (st\<lparr>file_info := x\<rparr>) = bs_of st"
    by (simp_all add: fs_ok_def bs_of_def)
  then show d: "dev_block (st\<lparr>file_info := x\<rparr>) = dev_block st"
    by (simp add: dev_block_def block_to_sector_def fun_eq_iff)
  then show p: "dev_ptr (st\<lparr>file_info := x\<rparr>) = dev_ptr st" by (simp add: dev_ptr_def fun_eq_iff)
  show m: "bmap (st\<lparr>file_info := x\<rparr>) = bmap st" by (intro ext) (simp only: bmap_def b p)
  show f: "file_block (st\<lparr>file_info := x\<rparr>) = file_block st" by (intro ext) (simp only: file_block_def m b d)
  show c: "contents (st\<lparr>file_info := x\<rparr>) = contents st" "readable (st\<lparr>file_info := x\<rparr>) = readable st"
    by (intro ext, simp only: contents_def readable_def f b)+
  show "at_pos fp sz p (st\<lparr>file_info := x\<rparr>) = at_pos fp sz p st" by (simp add: at_pos_def b f c)
qed

lemma ext2fs_read_content:
  assumes i: "i < length (file_info st)" and a: "at_pos (file_info st ! i) sz p st" and n: "p + unat nbytes < 2 ^ 32"
  shows "\<exists>st'. ext2fs_read i nbytes st = Some (int (min (unat nbytes) (sz - p)),
      take (unat nbytes) (drop p (contents st (inode (file_info st ! i)) sz)), st') \<and>
    at_pos (file_info st' ! i) sz (p + min (unat nbytes) (sz - p)) st' \<and> fs_same (st\<lparr>file_info := file_info st'\<rparr>) st' \<and>
    file_info st' = (file_info st)[i := (file_info st ! i)\<lparr>file_pos := file_pos (file_info st' ! i)\<rparr>]"
proof -
  define fp where "fp = file_info st ! i"
  have at: "at_pos fp sz p st" using a by (simp add: fp_def)
  have ok: "fs_ok st" using at by (simp add: at_pos_def)
  have bs: "0 < bs_of st" "bs_of st \<le> 4096" "blocksize st \<noteq> 0" using fs_ok_sizes [OF ok] by auto
  have z: "sz < 2 ^ 31" "p \<le> sz" "unat (file_pos fp) = p" "unat (file_size fp) = sz" using at by (simp_all add: at_pos_def)
  define nb where "nb = (if file_pos fp + nbytes > file_size fp then file_size fp - file_pos fp else nbytes)"
  have nb: "unat nb = min (unat nbytes) (sz - p)"
  proof -
    have "unat (file_pos fp + nbytes) = p + unat nbytes" using n z by (subst unat_add_nowrap) simp_all
    moreover have "unat (file_size fp - file_pos fp) = sz - p" using z by (simp add: unat_sub_le)
    ultimately show ?thesis using z by (auto simp: nb_def word_less_nat_alt)
  qed
  have nb': "p + unat nb \<le> sz" using nb z by simp
  define left where "left = blocksize st - file_pos fp mod blocksize st"
  have pm: "unat (file_pos fp mod blocksize st) = p mod bs_of st" using z by (simp add: unat_mod bs_of_def)
  have left: "unat left = bs_of st - p mod bs_of st"
  proof -
    have "p mod bs_of st \<le> unat (blocksize st)" using mod_less_divisor [OF bs(1), of p] by (simp add: bs_of_def)
    then show ?thesis by (simp add: left_def unat_sub_le pm) (simp add: bs_of_def)
  qed
  have full: "left = blocksize st \<longleftrightarrow> p mod bs_of st = 0"
    using left mod_less_divisor [OF bs(1), of p] bs(1) by (auto simp: word_unat_eq_iff bs_of_def [symmetric])
  have bl: "unat (blocksize st - left) = p mod bs_of st"
    using left mod_less_divisor [OF bs(1), of p] by (subst unat_sub_le) (simp_all add: bs_of_def)
  define rem where "rem = (if left \<noteq> blocksize st then if left > nb then nb else left else 0)"
  have rem: "unat rem = (if p mod bs_of st = 0 then 0 else min (unat nb) (bs_of st - p mod bs_of st))"
    using left full by (auto simp: rem_def word_less_nat_alt)
  have rn: "rem \<le> nb" using rem by (simp add: word_le_nat_alt)
  let ?fp = "fp\<lparr>file_pos := file_pos fp + rem\<rparr>"
  let ?c = "contents st (inode fp) sz"
  have fpos: "unat (file_pos fp + rem) = p + unat rem" using z nb' rn by (subst unat_add_nowrap) (simp_all add: word_le_nat_alt)
  have cases: "(p + unat rem) mod bs_of st = 0 \<or> rem = nb"
  proof (cases "unat rem = unat nb")
    case True
    then show ?thesis by (simp add: word_unat_eq_iff)
  next
    case False
    then have "p mod bs_of st = 0 \<and> unat rem = 0 \<or> unat rem = bs_of st - p mod bs_of st" using rem by (auto simp: min_def split: if_splits)
    moreover have "(p + (bs_of st - p mod bs_of st)) mod bs_of st = 0"
      using mod_less_divisor [OF bs(1), of p] by (metis add.commute le_add_diff_inverse2 less_imp_le mod_add_right_eq mod_self mod_add_left_eq)
    ultimately show ?thesis by auto
  qed
  have rb: "p mod bs_of st + unat rem \<le> bs_of st"
    using rem mod_less_divisor [OF bs(1), of p] by (auto simp: min_def)
  have dv: "(p + unat rem) div bs_of st = p div bs_of st" if "(p + unat rem) mod bs_of st \<noteq> 0"
  proof -
    have "p mod bs_of st + unat rem \<noteq> bs_of st"
      using that by (metis mod_add_left_eq mod_self)
    then show ?thesis using rb mod_less_divisor [OF bs(1), of p] rem by (simp add: div_add1_eq [of p] split: if_splits)
  qed
  have at': "at_pos ?fp sz (p + unat rem) st"
    using at fpos dv nb' rn rem unfolding at_pos_def by (auto simp: word_le_nat_alt split: if_splits)
  let ?out = "if left \<noteq> blocksize st then take (unat rem) (drop (unat (blocksize st - left)) (blockbuf st)) else []"
  have out: "?out = take (unat rem) (drop p ?c)"
  proof (cases "p mod bs_of st = 0")
    case True
    then show ?thesis using rem full by simp
  next
    case False
    then have blk: "file_block st (inode fp) (p div bs_of st) = Some (take (bs_of st) (blockbuf st))" using at by (simp add: at_pos_def)
    have "p + unat rem \<le> sz" using nb' rn by (simp add: word_le_nat_alt)
    from contents_piece [OF bs(1) rb this blk] show ?thesis using False full bl rb by (simp add: drop_take min_absorb1)
  qed
  have m: "(p + unat rem) mod bs_of st = 0 \<and> unat (file_pos ?fp div blocksize st) = (p + unat rem) div bs_of st \<or> rem = nb"
    using cases fpos by (auto simp: unat_div bs_of_def)
  obtain fp' st' where r: "ext2_read_loop nb rem (file_pos ?fp div blocksize st) ?out ?fp st =
      Some (sint nb, ?out @ take (unat nb - unat rem) (drop (p + unat rem) ?c), fp', st')"
    "at_pos fp' sz (p + unat nb) st'" "fs_same st st'" "fp' = fp\<lparr>file_pos := file_pos fp'\<rparr>"
    using ext2_read_loop_content [OF at' m nb' rn, of ?out] by auto
  have si: "sint nb = int (unat nb)"
    by (rule sint_small) (use nb' z in linarith)
  have e: "?out @ take (unat nb - unat rem) (drop (p + unat rem) ?c) = take (unat nbytes) (drop p ?c)"
  proof -
    have "take (unat rem) (drop p ?c) @ take (unat nb - unat rem) (drop (p + unat rem) ?c) = take (unat nb) (drop p ?c)"
      using rn by (simp add: take_add [symmetric] word_le_nat_alt add.commute [of p] drop_drop [symmetric] del: drop_drop)
    also have "\<dots> = take (unat nbytes) (drop p ?c)"
      using nb by (auto simp: min_def contents_def)
    finally show ?thesis using out by simp
  qed
  let ?st' = "st'\<lparr>file_info := (file_info st')[i := fp']\<rparr>"
  have "ext2fs_read i nbytes st = Some (int (unat nb), take (unat nbytes) (drop p ?c), ?st')"
    using r(1) bs(3) si e unfolding ext2fs_read_def fp_def [symmetric] nb_def [symmetric] Let_def left_def [symmetric] rem_def [symmetric]
    by simp
  moreover have "file_info st' = file_info st" using r(3) by (simp add: fs_same_def)
  moreover have "at_pos fp' sz (p + unat nb) ?st'" using r(2) by simp
  moreover have "fs_same (st\<lparr>file_info := file_info ?st'\<rparr>) ?st'" using r(3) by (simp add: fs_same_def)
  ultimately show ?thesis using r(4) i nb unfolding fp_def by (intro exI [of _ ?st']) simp
qed

text \<open>A sequence of reads from one file: the bytes they deliver, \<open>None\<close> when one of them fails.\<close>

fun ext2_reads :: "nat \<Rightarrow> u32 list \<Rightarrow> ext2 \<Rightarrow> (u8 list \<times> ext2) option" where
  "ext2_reads i [] st = Some ([], st)"
| "ext2_reads i (n # ns) st =
     Option.bind (ext2fs_read i n st) (\<lambda>(r, out, st).
       if r \<noteq> int (length out) then None
       else map_option (\<lambda>(out', st). (out @ out', st)) (ext2_reads i ns st))"

lemma ext2_reads_content:
  assumes "i < length (file_info st)" "at_pos (file_info st ! i) sz p st" "list_all (\<lambda>n. unat n \<le> 2 ^ 31) ns"
  shows "\<exists>st'. ext2_reads i ns st =
    Some (take (sum_list (map unat ns)) (drop p (contents st (inode (file_info st ! i)) sz)), st')"
  using assms
proof (induction ns arbitrary: p st)
  case Nil
  then show ?case by simp
next
  case (Cons n ns)
  let ?c = "contents st (inode (file_info st ! i)) sz"
  have z: "p \<le> sz" "sz < 2 ^ 31" using Cons(3) by (simp_all add: at_pos_def)
  then have "p + unat n < 2 ^ 32" using Cons(4) by simp
  from ext2fs_read_content [OF Cons(2,3) this] obtain st' where r:
    "ext2fs_read i n st = Some (int (min (unat n) (sz - p)), take (unat n) (drop p ?c), st')"
    "at_pos (file_info st' ! i) sz (p + min (unat n) (sz - p)) st'" "fs_same (st\<lparr>file_info := file_info st'\<rparr>) st'"
    "file_info st' = (file_info st)[i := (file_info st ! i)\<lparr>file_pos := file_pos (file_info st' ! i)\<rparr>]" by blast
  have l: "length ?c = sz" by (simp add: contents_def)
  have i': "i < length (file_info st')" using Cons(2) r(4) by (metis length_list_update)
  have ino: "inode (file_info st' ! i) = inode (file_info st ! i)" using Cons(2) by (subst r(4)) simp
  have c: "contents st' = contents st" using contents_same(1) [OF r(3)] by simp
  obtain st2 where "ext2_reads i ns st' = Some (take (sum_list (map unat ns)) (drop (p + min (unat n) (sz - p)) ?c), st2)"
    using Cons(1) [OF i' r(2)] Cons(4) by (auto simp: ino c)
  moreover have "take (unat n) (drop p ?c) @ take (sum_list (map unat ns)) (drop (p + min (unat n) (sz - p)) ?c)
      = take (unat n + sum_list (map unat ns)) (drop p ?c)"
    using l z by (cases "unat n \<le> sz - p") (simp_all add: take_add add.commute)
  moreover have "int (min (unat n) (sz - p)) = int (length (take (unat n) (drop p ?c)))" using l by simp
  ultimately show ?case using r(1) by simp
qed

lemma ext2fs_open_fresh:
  assumes "ext2fs_open fuel path st = Some (Some i, st1)" "length (file_info st) = MAX_FILES" "fs_ok st1"
    and "readable st1 (inode (file_info st1 ! i)) (unat (ext2fs_file_size i st1))" "unat (ext2fs_file_size i st1) < 2 ^ 31"
    and "i < length (file_info st1)"
  shows "at_pos (file_info st1 ! i) (unat (ext2fs_file_size i st1)) 0 st1"
proof -
  have "file_pos (file_info st1 ! i) = 0"
    using assms(1,6) unfolding ext2fs_open_def
    by (auto simp: Let_def bind_eq_Some_conv split: option.splits prod.splits if_splits)
  then show ?thesis using assms by (simp add: at_pos_def ext2fs_file_size_def)
qed

section \<open>Looking up a path does not touch the open files\<close>

lemma bind_SomeE: "Option.bind m f = Some r \<Longrightarrow> (\<And>a. m = Some a \<Longrightarrow> f a = Some r \<Longrightarrow> P) \<Longrightarrow> P"
  by (cases m) auto

lemma ext2_read_block_files: "ext2_read_block b st = Some (r, st') \<Longrightarrow> file_info st' = file_info st"
  by (auto simp: ext2_read_block_def Let_def split: if_splits prod.splits)

lemma block_entry_files: "block_entry b k st = Some (r, st') \<Longrightarrow> file_info st' = file_info st"
  by (auto simp: block_entry_def bind_eq_Some_conv split: if_splits dest: ext2_read_block_files)

lemma inode_block_files: "ext2fs_inode_block ip k st = Some (r, st') \<Longrightarrow> file_info st' = file_info st"
  by (auto simp: ext2fs_inode_block_def Let_def bind_eq_Some_conv split: if_splits option.splits dest!: block_entry_files)

lemma get_gdesc_files: "ext2fs_get_gdesc n st = (r, st') \<Longrightarrow> file_info st' = file_info st"
  by (auto simp: ext2fs_get_gdesc_def Let_def split: if_splits prod.splits)

lemma get_inode_files: "ext2fs_get_inode i st = Some (r, st') \<Longrightarrow> file_info st' = file_info st"
  by (auto simp: ext2fs_get_inode_def Let_def split: if_splits prod.splits option.splits dest!: get_gdesc_files)

lemma search_dir_block_files: "search_dir_block name l st = Some (r, st') \<Longrightarrow> file_info st' = file_info st"
  by (auto simp: search_dir_block_def)

lemmas block_files = ext2_read_block_files inode_block_files get_inode_files search_dir_block_files

lemma dir_lookup_loop_files:
  "dir_lookup_loop ip name l n i st = Some (r, st') \<Longrightarrow> file_info st' = file_info st"
proof (induction n arbitrary: i st)
  case 0
  then show ?case by simp
next
  case (Suc n)
  then show ?case
    by (auto elim!: bind_SomeE split: option.splits if_splits prod.splits dest!: block_files Suc.IH)
qed

lemma dir_lookup_files: "ext2fs_dir_lookup d name l st = Some (r, st') \<Longrightarrow> file_info st' = file_info st"
  by (auto simp: ext2fs_dir_lookup_def elim!: bind_SomeE split: option.splits if_splits prod.splits dest!: block_files dir_lookup_loop_files)

lemma read_symlink_files: "read_symlink s st = Some (r, st') \<Longrightarrow> file_info st' = file_info st"
  by (auto simp: read_symlink_def Let_def elim!: bind_SomeE split: option.splits if_splits prod.splits dest!: block_files)

text \<open>A transitive relation that holds across the parts of the loop holds across the loop.\<close>

lemma path_loop_rel:
  assumes refl: "\<And>s. R s s" and trans: "\<And>s s' s''. R s s' \<Longrightarrow> R s' s'' \<Longrightarrow> R s s''"
    and look: "\<And>d name l st r st'. ext2fs_dir_lookup d name l st = Some (r, st') \<Longrightarrow> R st st'"
    and link: "\<And>s st r st'. read_symlink s st = Some (r, st') \<Longrightarrow> R st st'"
    and follow: "\<And>d t i st r st'. follow d t i st = Some (r, st') \<Longrightarrow> R st st'"
    and "path_loop follow typ dir path info st = Some (r, st')"
  shows "R st st'"
  using assms(6)
proof (induction path arbitrary: dir info st rule: length_induct)
  case (1 path)
  obtain name delim rest where n: "next_component path = (name, delim, rest)" by (cases "next_component path") auto
  have l: "length rest < length path" if "rest \<noteq> []"
    using n that length_dropWhile_le [of "\<lambda>c. c \<noteq> 0x2f" path]
    by (cases "dropWhile (\<lambda>c. c \<noteq> 0x2f) path") (auto simp: next_component_def Let_def)
  have IH: "R s st'" if "rest \<noteq> []" "path_loop follow typ d rest i s = Some (r, st')" for d i s
    using 1(1) l [OF that(1)] that(2) by blast
  from 1(2) obtain x s1 where x: "ext2fs_dir_lookup dir name (typ \<and> \<not> delim) st = Some (x, s1)"
    and c: "(case x of None \<Rightarrow> Some ((False, info), s1)
        | Some (dino, ftype) \<Rightarrow>
            if ftype = EXT2_FTYPE_SYMLINK then
              Option.bind (read_symlink dino s1) (\<lambda>(t, st).
                case t of None \<Rightarrow> Some ((False, info), st)
                | Some t \<Rightarrow>
                    Option.bind (follow dir t info st) (\<lambda>((found, info), st).
                      if \<not> found then Some ((False, info), st)
                      else if rest = [] then Some ((True, info), st)
                      else if filetype info \<noteq> EXT2_FTYPE_DIR then Some ((False, info), st)
                      else path_loop follow typ (ino info) rest info st))
            else if ftype = EXT2_FTYPE_DIR then
              (if rest = [] then Some ((True, \<lparr>ino = dino, parent_ino = dir, filetype = ftype\<rparr>), s1)
               else path_loop follow typ dino rest info s1)
            else if ftype = EXT2_FTYPE_REG_FILE \<and> rest = [] then
              Some ((True, \<lparr>ino = dino, parent_ino = dir, filetype = ftype\<rparr>), s1)
            else Some ((False, info), s1)) = Some (r, st')"
    by (subst (asm) path_loop.simps) (auto simp: n elim!: bind_SomeE)
  have "R st s1" by (rule look [OF x])
  moreover have "R s1 st'"
    using c by (auto elim!: bind_SomeE split: option.splits if_splits dest!: IH [rotated] link follow
        simp: refl simp del: path_loop.simps) (blast intro: trans)+
  ultimately show ?case by (rule trans)
qed

lemma path_loop_files:
  assumes "\<And>d t i st r st'. follow d t i st = Some (r, st') \<Longrightarrow> file_info st' = file_info st"
    and "path_loop follow typ dir path info st = Some (r, st')"
  shows "file_info st' = file_info st"
  by (rule path_loop_rel [of "\<lambda>s s'. file_info s' = file_info s", OF _ _ dir_lookup_files read_symlink_files assms]) auto

lemma inode_lookup_files: "ext2fs_inode_lookup f d path ls i st = Some (r, st') \<Longrightarrow> file_info st' = file_info st"
proof (induction f arbitrary: d path ls i st r st')
  case 0
  then show ?case by simp
next
  case (Suc f)
  have IH: "file_info st' = file_info st"
    if "path_loop (\<lambda>d t. ext2fs_inode_lookup f d t False) ls d path i st = Some (r, st')" for d path i st
    using _ that by (rule path_loop_files) (rule Suc.IH)
  from Suc.prems show ?case by (auto split: if_splits dest!: IH simp del: path_loop.simps)
qed

lemma find_upt2: "List.find P [0..<MAX_FILES] = (if P 0 then Some 0 else if P 1 then Some 1 else None)"
  by (simp add: MAX_FILES_def upt_rec)

text \<open>What an open does to the table of open files: the handle it takes stays taken.\<close>

lemma ext2fs_open_files:
  assumes "ext2fs_open fuel path st = Some (r, st')"
  shows "case List.find (\<lambda>i. \<not> opened (file_info st ! i)) [0..<MAX_FILES] of
      None \<Rightarrow> r = None \<and> file_info st' = file_info st
    | Some i \<Rightarrow> (r = None \<or> r = Some i) \<and> length (file_info st') = length (file_info st) \<and>
        (\<forall>j. j \<noteq> i \<longrightarrow> file_info st' ! j = file_info st ! j) \<and> (i < length (file_info st) \<longrightarrow> opened (file_info st' ! i))"
  using assms unfolding ext2fs_open_def
  by (auto simp: Let_def bind_eq_Some_conv no_file_def split: option.splits if_splits dest!: inode_lookup_files get_inode_files)

lemma find_upt2_bound: "List.find P [0..<n] = Some i \<Longrightarrow> i < n"
  by (auto simp: find_Some_iff)

section \<open>Looking up a path keeps the mounted file system\<close>

definition fs_key :: "ext2 \<Rightarrow> device \<times> u32 \<times> u32 \<times> u32 \<times> nat" where
  "fs_key st = (part st, blocksize st, nr_ind_blocks st, nr_dind_blocks st, length (blockbuf st))"

lemma fs_key_ok: "fs_key st' = fs_key st \<Longrightarrow> fs_ok st' = fs_ok st"
  by (simp add: fs_key_def fs_ok_def)

lemma fs_key_upd [simp]: "fs_key (st\<lparr>ls_out := x\<rparr>) = fs_key st" "fs_key (st\<lparr>gdesc_cache := y\<rparr>) = fs_key st"
  "fs_key (st\<lparr>gdesc_first := z\<rparr>) = fs_key st" "fs_key (st\<lparr>file_info := w\<rparr>) = fs_key st"
  by (simp_all add: fs_key_def)

lemma ext2_read_block_key: "ext2_read_block b st = Some (r, st') \<Longrightarrow> fs_ok st \<Longrightarrow> fs_key st' = fs_key st \<and> fs_ok st'"
  using ext2_read_block_same [of st b r st'] fs_same_ok [of st st'] by (simp add: fs_same_def fs_key_def)

lemma hole_key: "fs_ok st \<Longrightarrow> fs_key (st\<lparr>blockbuf := replicate (unat (blocksize st)) 0 @ drop (unat (blocksize st)) (blockbuf st)\<rparr>) = fs_key st"
  by (auto simp: fs_key_def fs_ok_def EXT2_MAX_BLOCK_SIZE_def)

lemma hole_ok: "fs_ok st \<Longrightarrow> fs_ok (st\<lparr>blockbuf := replicate (unat (blocksize st)) 0 @ drop (unat (blocksize st)) (blockbuf st)\<rparr>)"
  using fs_key_ok [OF hole_key] by simp

lemma block_entry_key: "block_entry b k st = Some (r, st') \<Longrightarrow> fs_ok st \<Longrightarrow> fs_key st' = fs_key st \<and> fs_ok st'"
  by (auto simp: block_entry_def elim!: bind_SomeE split: if_splits dest!: ext2_read_block_key)

lemma inode_block_key: "ext2fs_inode_block ip k st = Some (r, st') \<Longrightarrow> fs_ok st \<Longrightarrow> fs_key st' = fs_key st \<and> fs_ok st'"
  by (auto simp: ext2fs_inode_block_def Let_def elim!: bind_SomeE split: if_splits option.splits dest!: block_entry_key)

lemma get_gdesc_key: "ext2fs_get_gdesc n st = (r, st') \<Longrightarrow> fs_key st' = fs_key st"
  by (auto simp: ext2fs_get_gdesc_def Let_def split: if_splits prod.splits)

lemma get_inode_key: "ext2fs_get_inode i st = Some (r, st') \<Longrightarrow> fs_ok st \<Longrightarrow> fs_key st' = fs_key st \<and> fs_ok st'"
  by (auto simp: ext2fs_get_inode_def Let_def split: if_splits prod.splits option.splits dest!: get_gdesc_key dest: fs_key_ok)

lemma search_dir_block_key: "search_dir_block name l st = Some (r, st') \<Longrightarrow> fs_ok st \<Longrightarrow> fs_key st' = fs_key st \<and> fs_ok st'"
  by (auto simp: search_dir_block_def fs_key_ok [OF fs_key_upd(1)])

lemmas block_key = ext2_read_block_key inode_block_key get_inode_key search_dir_block_key

lemma dir_lookup_loop_key:
  "dir_lookup_loop ip name l n i st = Some (r, st') \<Longrightarrow> fs_ok st \<Longrightarrow> fs_key st' = fs_key st \<and> fs_ok st'"
proof (induction n arbitrary: i st)
  case 0
  then show ?case by simp
next
  case (Suc n)
  from Suc.prems show ?case
    by (auto elim!: bind_SomeE simp: hole_key hole_ok split: option.splits if_splits prod.splits dest!: block_key Suc.IH)
qed

lemma dir_lookup_key: "ext2fs_dir_lookup d name l st = Some (r, st') \<Longrightarrow> fs_ok st \<Longrightarrow> fs_key st' = fs_key st \<and> fs_ok st'"
  by (auto simp: ext2fs_dir_lookup_def elim!: bind_SomeE split: option.splits if_splits prod.splits dest!: block_key dir_lookup_loop_key)

lemma read_symlink_key: "read_symlink s st = Some (r, st') \<Longrightarrow> fs_ok st \<Longrightarrow> fs_key st' = fs_key st \<and> fs_ok st'"
  by (auto simp: read_symlink_def Let_def elim!: bind_SomeE split: option.splits if_splits prod.splits dest!: block_key)

lemma path_loop_key:
  assumes "\<And>d t i st r st'. follow d t i st = Some (r, st') \<Longrightarrow> fs_ok st \<Longrightarrow> fs_key st' = fs_key st \<and> fs_ok st'"
    and "path_loop follow typ dir path info st = Some (r, st')" "fs_ok st"
  shows "fs_key st' = fs_key st \<and> fs_ok st'"
  using path_loop_rel [of "\<lambda>s s'. fs_ok s \<longrightarrow> fs_key s' = fs_key s \<and> fs_ok s'" follow "typ" dir path info st r st']
    dir_lookup_key read_symlink_key assms by auto

lemma inode_lookup_key: "ext2fs_inode_lookup f d path ls i st = Some (r, st') \<Longrightarrow> fs_ok st \<Longrightarrow> fs_key st' = fs_key st \<and> fs_ok st'"
proof (induction f arbitrary: d path ls i st r st')
  case 0
  then show ?case by simp
next
  case (Suc f)
  have IH: "fs_key st' = fs_key st \<and> fs_ok st'"
    if "path_loop (\<lambda>d t. ext2fs_inode_lookup f d t False) ls d path i st = Some (r, st')" "fs_ok st" for d path i st
    using _ that by (rule path_loop_key) (rule Suc.IH)
  from Suc.prems show ?case by (auto split: if_splits dest!: IH simp del: path_loop.simps)
qed

lemma fs_key_same: "fs_key st' = fs_key st \<Longrightarrow> fs_same (st\<lparr>file_info := file_info st'\<rparr>) st'"
  by (simp add: fs_key_def fs_same_def)

lemma ext2fs_open_key:
  assumes "ext2fs_open fuel path st = Some (r, st')" "fs_ok st"
  shows "fs_key st' = fs_key st"
proof -
  have k: "fs_key st' = fs_key s" if "fs_key st' = fs_key (s\<lparr>file_info := x\<rparr>)" for s :: ext2 and x
    using that by simp
  show ?thesis using assms unfolding ext2fs_open_def
    by (auto simp: Let_def elim!: bind_SomeE split: option.splits if_splits prod.splits dest!: inode_lookup_key get_inode_key)
qed

section \<open>Properties of the reader\<close>

text \<open>C15. After \<open>ext2fs_open\<close> has returned a handle, any sequence of \<open>ext2fs_read\<close> calls on it, whatever
  their sizes and wherever they stop inside a block, delivers the bytes of the file in order and ends at its
  end: together a prefix of the contents that the reference \<open>bmap\<close> gives through direct, indirect and
  hole blocks.  (The blocks can be read, the file is shorter than 2 GB, a call asks for at most 2 GB,
  and no other file is read in between.)\<close>

theorem ext2_open_then_read:
  assumes "fs_ok st" "length (file_info st) = MAX_FILES" "ext2fs_open fuel path st = Some (Some i, st1)"
    and "sz = unat (ext2fs_file_size i st1)" "sz < 2 ^ 31" "readable st (inode (file_info st1 ! i)) sz"
    and "list_all (\<lambda>n. unat n \<le> 2 ^ 31) ns"
  shows "\<exists>st2. ext2_reads i ns st1 =
    Some (take (sum_list (map unat ns)) (contents st (inode (file_info st1 ! i)) sz), st2)"
proof -
  have k: "fs_key st1 = fs_key st" by (rule ext2fs_open_key [OF assms(3,1)])
  have ok: "fs_ok st1" using assms(1) fs_key_ok [OF k] by simp
  have c: "contents st1 = contents st" "readable st1 = readable st" using contents_same [OF fs_key_same [OF k]] by simp_all
  have i: "i < length (file_info st1)"
    using ext2fs_open_files [OF assms(3)] assms(2) by (auto split: option.splits dest: find_upt2_bound)
  have "at_pos (file_info st1 ! i) sz 0 st1"
    using ext2fs_open_fresh [OF assms(3,2) ok _ _ i] assms(5,6) by (simp only: c assms(4))
  from ext2_reads_content [OF i this assms(7)] show ?thesis by (simp only: c drop_0)
qed

definition wit_itable :: "u8 list" where
  "wit_itable = replicate 132 0 @ [0, 4, 0, 0] @ replicate 32 0 @ [5, 0, 0, 0] @ replicate 84 0
     @ replicate 4 0 @ [0x34, 8, 0, 0] @ replicate 32 0 @ [6, 0, 0, 0, 0, 0, 0, 0, 7, 0, 0, 0] @ replicate 204 0"

definition wit_dir :: "u8 list" where
  "wit_dir = [3, 0, 0, 0, 12, 0, 1, 1, 0x61, 0, 0, 0] @ replicate 1012 0"

definition wit_part :: device where
  "wit_part s n = (True, take (unat n) (if s = 8 then wit_itable else if s = 10 then wit_dir else replicate 1024 (ucast s)))"

definition wit_fs :: ext2 where
  "wit_fs = \<lparr>blockbuf = replicate 4096 0, file_info = replicate MAX_FILES no_file, part = wit_part, blocksize = 1024, ngroups = 1,
     blocks_per_group = 8192, inodes_per_group = 32, gdesc_block = 2, gdesc_first = 0,
     gdesc_cache = replicate 8 0 @ [4, 0, 0, 0] @ replicate 500 0, nr_ind_blocks = 256, nr_dind_blocks = 65536,
     nr_tind_blocks = 16777216, ls_out = []\<rparr>"

lemma wit_part_bound: "length (snd (wit_part s n)) \<le> unat n"
  by (simp add: wit_part_def)

lemma wit_fs_ok: "fs_ok wit_fs"
  by (simp add: fs_ok_def wit_fs_def wit_part_bound EXT2_MAX_BLOCK_SIZE_def)

lemma wit_inode2: "ext2fs_get_inode 2 st = Some (Some (take 128 (drop 128 wit_itable)), st)"
  if "part st = wit_part" "blocksize st = 1024" "inodes_per_group st = 32" "gdesc_first st = 0" "gdesc_cache st = gdesc_cache wit_fs" for st
  using that
  by (simp add: ext2fs_get_inode_def ext2fs_get_gdesc_def Let_def EXT2_GDESC_CACHE_SIZE_def EXT2_GROUP_SIZE_def
      EXT2_INODE_SIZE_def IDE_SECTOR_SIZE_def block_to_sector_def wit_part_def wit_fs_def le32_at_def nth_append wit_itable_def)

lemma wit_inode3: "ext2fs_get_inode 3 st = Some (Some (take 128 (drop 256 wit_itable)), st)"
  if "part st = wit_part" "blocksize st = 1024" "inodes_per_group st = 32" "gdesc_first st = 0" "gdesc_cache st = gdesc_cache wit_fs" for st
  using that
  by (simp add: ext2fs_get_inode_def ext2fs_get_gdesc_def Let_def EXT2_GDESC_CACHE_SIZE_def EXT2_GROUP_SIZE_def
      EXT2_INODE_SIZE_def IDE_SECTOR_SIZE_def block_to_sector_def wit_part_def wit_fs_def le32_at_def nth_append wit_itable_def)

lemma wit_dir_search: "search_loop 1024 (wit_dir @ replicate 3072 0) [0x61] False 0 out = Some (Some (3, 1), out)"
  by (subst search_loop.simps) (simp add: dir_reclen_def dir_namelen_def dir_inode_def dir_filetype_def dir_name_def
      wit_dir_def le16_at_def le32_at_def EXT2_MAX_BLOCK_SIZE_def Let_def)

lemma wit_lookup: "ext2fs_dir_lookup 2 [0x61] False (wit_fs\<lparr>file_info := x\<rparr>) =
    Some (Some (3, 1), wit_fs\<lparr>file_info := x, blockbuf := wit_dir @ replicate 3072 0\<rparr>)"
proof -
  let ?ip = "take 128 (drop 128 wit_itable)"
  have f: "i_size ?ip = 1024" "i_block ?ip 0 = 5"
    by (simp_all add: wit_itable_def i_size_def i_block_def le32_at_def nth_append)
  have r: "ext2_read_block 5 (wit_fs\<lparr>file_info := x\<rparr>) = Some (True, wit_fs\<lparr>file_info := x, blockbuf := wit_dir @ replicate 3072 0\<rparr>)"
    by (simp add: ext2_read_block_def block_to_sector_def wit_fs_def wit_part_def wit_dir_def IDE_SECTOR_SIZE_def EXT2_MAX_BLOCK_SIZE_def)
  have g: "ext2fs_get_inode 2 (wit_fs\<lparr>file_info := x\<rparr>) = Some (Some ?ip, wit_fs\<lparr>file_info := x\<rparr>)"
    by (rule wit_inode2) (simp_all add: wit_fs_def)
  have b: "blocksize wit_fs = 1024" "ls_out wit_fs = []" by (simp_all add: wit_fs_def)
  show ?thesis
    using wit_dir_search [of "[]"]
    by (simp add: ext2fs_dir_lookup_def g f b r ext2fs_inode_block_def EXT2_NR_DIR_BLOCKS_def search_dir_block_def)
qed

definition wit_ip :: "u8 list" where "wit_ip = take 128 (drop 256 wit_itable)"

definition wit_opened :: ext2 where
  "wit_opened = wit_fs\<lparr>file_info := [\<lparr>opened = True, inode = wit_ip, inode_info = \<lparr>ino = 3, parent_ino = 2, filetype = 1\<rparr>,
     file_size = 0x834, file_pos = 0\<rparr>, no_file], blockbuf := wit_dir @ replicate 3072 0\<rparr>"

lemma wit_ip: "i_size wit_ip = 0x834" "i_block wit_ip 0 = 6" "i_block wit_ip 1 = 0" "i_block wit_ip 2 = 7"
  by (simp_all add: wit_ip_def wit_itable_def i_size_def i_block_def le32_at_def nth_append)

lemma wit_open: "ext2fs_open 1 [0x2f, 0x61] wit_fs = Some (Some 0, wit_opened)"
proof -
  let ?x = "[no_file\<lparr>opened := True\<rparr>, no_file]"
  have f: "file_info wit_fs = [no_file, no_file]" by (simp add: wit_fs_def MAX_FILES_def numeral_2_eq_2)
  have n: "next_component [0x61] = ([0x61], False, [])" by (simp add: next_component_def)
  have l: "ext2fs_inode_lookup 1 EXT2_ROOT_INO [0x2f, 0x61] False no_info (wit_fs\<lparr>file_info := ?x\<rparr>) =
      Some ((True, \<lparr>ino = 3, parent_ino = 2, filetype = 1\<rparr>), wit_fs\<lparr>file_info := ?x, blockbuf := wit_dir @ replicate 3072 0\<rparr>)"
    using wit_lookup [of ?x]
    by (simp add: n EXT2_ROOT_INO_def EXT2_FTYPE_SYMLINK_def EXT2_FTYPE_DIR_def EXT2_FTYPE_REG_FILE_def)
  have g: "ext2fs_get_inode 3 (wit_fs\<lparr>file_info := ?x, blockbuf := wit_dir @ replicate 3072 0\<rparr>) =
      Some (Some wit_ip, wit_fs\<lparr>file_info := ?x, blockbuf := wit_dir @ replicate 3072 0\<rparr>)"
    unfolding wit_ip_def by (rule wit_inode3) (simp_all add: wit_fs_def)
  show ?thesis
    using l g by (simp add: ext2fs_open_def find_upt2 f wit_opened_def wit_ip no_file_def)
qed

lemma wit_blocks: "file_block wit_fs wit_ip 0 = Some (replicate 1024 12)" "file_block wit_fs wit_ip 1 = Some (replicate 1024 0)"
  "file_block wit_fs wit_ip 2 = Some (replicate 1024 14)"
proof -
  have b: "bmap wit_fs wit_ip i = Some (i_block wit_ip i)" if "i < 12" for i using that by (simp add: bmap_def)
  show "file_block wit_fs wit_ip 0 = Some (replicate 1024 12)" "file_block wit_fs wit_ip 1 = Some (replicate 1024 0)"
    "file_block wit_fs wit_ip 2 = Some (replicate 1024 14)"
    unfolding file_block_def using b [of 0] b [of 1] b [of 2]
    by (simp_all add: wit_ip [unfolded One_nat_def] dev_block_def bs_of_def block_to_sector_def wit_fs_def wit_part_def IDE_SECTOR_SIZE_def)
qed

lemma wit_readable: "readable wit_fs wit_ip 2100"
proof -
  have "bs_of wit_fs = 1024" by (simp add: bs_of_def wit_fs_def)
  moreover have "i = 0 \<or> i = 1 \<or> i = 2" if "i * 1024 < 2100" for i :: nat using that by auto
  ultimately show ?thesis unfolding readable_def using wit_blocks by (metis option.distinct(1))
qed

theorem ext2_open_then_read_witness:
  "\<exists>st2. ext2fs_open 1 [0x2f, 0x61] wit_fs = Some (Some 0, wit_opened) \<and>
     ext2_reads 0 [1000, 500, 2000] wit_opened = Some (take 3500 (contents wit_fs wit_ip 2100), st2)"
proof -
  have o: "inode (file_info wit_opened ! 0) = wit_ip" "unat (ext2fs_file_size 0 wit_opened) = 2100"
    by (simp_all add: wit_opened_def ext2fs_file_size_def)
  show ?thesis
    using ext2_open_then_read [OF wit_fs_ok _ wit_open, of 2100 "[1000, 500, 2000]"] wit_open wit_readable
    by (simp add: o) (simp add: wit_fs_def)
qed

text \<open>C37. \<open>ext2fs_open\<close> marks its handle as opened before it looks at the path and does not take that
  back when the lookup fails: after two failed calls both handles are taken, and every later call, for any
  path, fails without reading the disk.\<close>

theorem ext2_failed_opens_exhaust:
  assumes "length (file_info st) = MAX_FILES" "ext2fs_open f1 p1 st = Some (None, st1)" "ext2fs_open f2 p2 st1 = Some (None, st2)"
  shows "ext2fs_open fuel path st2 = Some (None, st2)"
proof -
  have L: "length (file_info st) = 2" using assms(1) by (simp add: MAX_FILES_def)
  have "opened (file_info st2 ! 0) \<and> opened (file_info st2 ! 1)"
    using ext2fs_open_files [OF assms(2)] ext2fs_open_files [OF assms(3)] L
    by (auto simp: find_upt2 split: if_splits)
  then show ?thesis by (simp add: ext2fs_open_def find_upt2)
qed

theorem ext2_failed_opens_exhaust_witness:
  "\<exists>st1 st2. ext2fs_open 1 [] wit_fs = Some (None, st1) \<and> ext2fs_open 1 [] st1 = Some (None, st2) \<and>
     ext2fs_open 1 [0x2f, 0x61] st2 = Some (None, st2)"
proof -
  let ?s1 = "wit_fs\<lparr>file_info := [no_file\<lparr>opened := True\<rparr>, no_file]\<rparr>"
  let ?s2 = "wit_fs\<lparr>file_info := [no_file\<lparr>opened := True\<rparr>, no_file\<lparr>opened := True\<rparr>]\<rparr>"
  have f: "file_info wit_fs = [no_file, no_file]" by (simp add: wit_fs_def MAX_FILES_def numeral_2_eq_2)
  have o: "ext2fs_open 1 [] wit_fs = Some (None, ?s1)" "ext2fs_open 1 [] ?s1 = Some (None, ?s2)"
    by (simp_all add: ext2fs_open_def find_upt2 f no_file_def)
  have "length (file_info wit_fs) = MAX_FILES" by (simp add: f MAX_FILES_def)
  from ext2_failed_opens_exhaust [OF this o] o show ?thesis by blast
qed

text \<open>A mount that succeeds on a superblock with a block size of at most 4096 establishes the invariant.\<close>

lemma ext2fs_mount_ok:
  assumes "ext2fs_mount p st = Some (0, st')" "unat (le32_at (snd (p 2 1024)) 24) \<le> 2"
    and "\<And>s n. length (snd (p s n)) \<le> unat n" "length (blockbuf st) = EXT2_MAX_BLOCK_SIZE"
  shows "fs_ok st' \<and> file_info st' = file_info st"
proof -
  obtain ok sb where p: "p 2 1024 = (ok, sb)" by (cases "p 2 1024")
  let ?n = "unat (le32_at sb 24)"
  have n: "?n = 0 \<or> ?n = 1 \<or> ?n = 2" using assms(2) p by auto
  then have b: "push_bit ?n EXT2_MIN_BLOCK_SIZE \<in> {1024, 2048, 4096}"
    by (auto simp: EXT2_MIN_BLOCK_SIZE_def)
  have "blocksize st' = push_bit ?n EXT2_MIN_BLOCK_SIZE" "nr_ind_blocks st' = blocksize st' div 4"
    "nr_dind_blocks st' = blocksize st' div 4 * (blocksize st' div 4)" "part st' = p" "blockbuf st' = blockbuf st"
    "file_info st' = file_info st"
    using assms(1) p by (auto simp: ext2fs_mount_def Let_def split: if_splits prod.splits)
  then show ?thesis using b assms(3,4) by (simp add: fs_ok_def)
qed

end
