(* ===== verification/Cli.thy ===== *)
theory Cli
  imports Enet SysPrintf "HOL-Library.Sublist"
begin

text \<open>
  The terminal dialogue: \<open>src/src/ui/ui_lib.c\<close> (keys, confirmation, line input), the command line
  interpreter \<open>src/src/ui/ui_cli_main.c\<close> and its table \<open>ui_cli_tbl.c\<close>.

  The console input is the script \<open>keys\<close> of \<open>env\<close>; while no key is there the network is polled.  What is
  printed is the list \<open>ui_out\<close> of calls to the serial driver.  \<open>char\<close> is unsigned on the target, so
  counters of type \<open>char\<close> are bytes.  A pointer into the line buffer is an offset.  \<open>None\<close> marks an access
  outside a buffer, a string without its end, or a \<open>printf\<close> of a text with conversions it has no
  arguments for.  The commands behind the table are the parameter \<open>H\<close>.
\<close>

section \<open>State and constants\<close>

definition KEY_BS :: u8 where "KEY_BS = 0x08"
definition KEY_TAB :: u8 where "KEY_TAB = 0x09"
definition KEY_LF :: u8 where "KEY_LF = 0x0a"
definition KEY_CR :: u8 where "KEY_CR = 0x0d"
definition KEY_ESC :: u8 where "KEY_ESC = 0x1b"
definition KEY_SP :: u8 where "KEY_SP = 0x20"
definition ARROW_U :: u8 where "ARROW_U = 0xf0"
definition ARROW_D :: u8 where "ARROW_D = 0xf1"
definition ARROW_R :: u8 where "ARROW_R = 0xf2"
definition ARROW_L :: u8 where "ARROW_L = 0xf3"
definition KEY_CTRL_U :: u8 where "KEY_CTRL_U = 21"
definition KEY_CTRL_D :: u8 where "KEY_CTRL_D = 4"
definition KEY_CTRL_N :: u8 where "KEY_CTRL_N = 14"
definition CLI_MAX_HISTORY :: u8 where "CLI_MAX_HISTORY = 10"
definition CLI_MAX_CHARS :: u8 where "CLI_MAX_CHARS = 80"
definition CLI_NAME_SIZE :: nat where "CLI_NAME_SIZE = 16"
definition CLI_MAX_ARGUMENTS :: nat where "CLI_MAX_ARGUMENTS = 8"

definition ascii :: "string \<Rightarrow> u8 list" where "ascii s = map of_char s"

definition BOARD_CLI_PROMPT :: "u8 list" where "BOARD_CLI_PROMPT = ascii ''cs-boot>''"

datatype cli_handler = Arp_show_cache | Cli_show_sys_cfg | Cli_dump_cmd | Cli_exit | Cli_go_cmd | Cli_load_cmd | Cli_show_mem
  | Cli_ping_cmd | Cli_write_mem_cmd | Cli_stat_cmd | Cli_tftp_cmd | Timer_cli | AstelCodecIo | AstelI2cIo | AstelMiiRead
  | AstelMiiWrite | AstelCrc32 | GetEnvSizeAstel | GetEnvCrcAndFlashCrc | Ext2fs_ls_cmd | Cli_nand_cmd

datatype cli_cmd =
  Cli_cmd (cmd_name: "u8 list") (cmd_next: "cli_cmd list option") (cmd_handler: "cli_handler option") (cmd_help: "u8 list option")

definition cmd :: "string \<Rightarrow> cli_handler \<Rightarrow> string \<Rightarrow> cli_cmd" where
  "cmd name h help = Cli_cmd (ascii name) None (Some h) (Some (ascii help))"

definition cli_main_tbl :: "cli_cmd list" where
  "cli_main_tbl =
    [cmd ''arp'' Arp_show_cache ''Display ARP table'',
     cmd ''config'' Cli_show_sys_cfg ''Display System Configuration'',
     cmd ''dm'' Cli_dump_cmd ''Display (hex dump) a range of memory.'',
     cmd ''exit'' Cli_exit ''Exit.'',
     cmd ''go'' Cli_go_cmd ''Execute code at a location'',
     cmd ''load'' Cli_load_cmd ''Load code'',
     cmd ''mem'' Cli_show_mem ''Display memory information'',
     cmd ''ping'' Cli_ping_cmd ''Ping host by IP address.'',
     cmd ''quit'' Cli_exit ''Exit.'',
     cmd ''sm'' Cli_write_mem_cmd ''Write data to specified location.'',
     cmd ''stat'' Cli_stat_cmd ''Statistics.'',
     cmd ''tftp'' Cli_tftp_cmd ''Get remote file by TFTP.'',
     cmd ''timer'' Timer_cli ''timer.'',
     cmd ''io'' AstelCodecIo ''astel Codec io command'',
     cmd ''iic'' AstelI2cIo ''astel i2c command'',
     cmd ''miiread'' AstelMiiRead ''PHY Chip Read Command'',
     cmd ''miiwrite'' AstelMiiWrite ''PHY Chip Write command'',
     cmd ''crc32'' AstelCrc32 ''check crc32'',
     cmd ''getEnvSize'' GetEnvSizeAstel ''env(kernel, ramdisk) size'',
     cmd ''getEnvCrc'' GetEnvCrcAndFlashCrc ''env(kernel, ramdisk) crc'',
     cmd ''ls'' Ext2fs_ls_cmd ''List files'',
     cmd ''nand'' Cli_nand_cmd ''Nand flash function'']"

text \<open>\<open>cli_info\<close>, the local variable \<open>current_history\<close> of \<open>cli_main\<close>, the exit flag, the console output
  and the machine.\<close>

record ui =
  cli_total :: u8
  cli_cmd_p :: "cli_cmd list"
  cli_argc :: u8
  cli_argv :: "nat list"
  cli_buf :: "u8 list"
  hist_index :: u8
  hist_total :: u8
  hist_buf :: "u8 list list"
  current_history :: u8
  cli_exit_flag :: bool
  ui_out :: "put list"
  ui_mach :: net

section \<open>Keys\<close>

definition arrow_code :: "u8 \<Rightarrow> u8" where
  "arrow_code key = (if key = 0x41 then ARROW_U else if key = 0x42 then ARROW_D else if key = 0x43 then ARROW_R
     else if key = 0x44 then ARROW_L else KEY_ESC)"

fun after_bracket :: "env \<Rightarrow> nat \<Rightarrow> net \<Rightarrow> u8 \<times> net" where
  "after_bracket E 0 s = (KEY_ESC, s)"
| "after_bracket E (Suc cnt2) s =
     (let (key, s) = uart_scanc E s in case key of Some key \<Rightarrow> (arrow_code key, s) | None \<Rightarrow> after_bracket E cnt2 s)"

fun after_esc :: "env \<Rightarrow> nat \<Rightarrow> net \<Rightarrow> u8 \<times> net" where
  "after_esc E 0 s = (KEY_ESC, s)"
| "after_esc E (Suc cnt1) s =
     (let (key, s) = uart_scanc E s in if key = Some 0x5b then after_bracket E 200 s else after_esc E cnt1 s)"

partial_function (option) ui_getc :: "env \<Rightarrow> net \<Rightarrow> (u8 \<times> net) option" where
  "ui_getc E s =
     (let (key, s) = uart_scanc E s in
      case key of None \<Rightarrow> Option.bind (enet_poll E s) (ui_getc E)
      | Some key \<Rightarrow> Some (if key = KEY_ESC then after_esc E 200 s else (key, s)))"

text \<open>The characters sent to the console, with the machine.\<close>

partial_function (option) ui_get_confirm_key :: "env \<Rightarrow> net \<Rightarrow> (bool \<times> put list \<times> net) option" where
  "ui_get_confirm_key E s =
     Option.bind (ui_getc E s) (\<lambda>(key, s).
       if key \<notin> {0x59, 0x79, 0x4e, 0x6e} then ui_get_confirm_key E s
       else Some (key = 0x59 \<or> key = 0x79, [Putc key], s))"

section \<open>Printing\<close>

text \<open>\<open>printf\<close> of a text without arguments; its local buffer starts with arbitrary bytes.\<close>

definition print_text :: "u8 list \<Rightarrow> put list option" where
  "print_text s = map_option fst (sys_vprintf (replicate 64 0) 1 s [])"

fun prints :: "u8 list list \<Rightarrow> ui \<Rightarrow> ui option" where
  "prints [] st = Some st"
| "prints (s # ss) st = Option.bind (print_text s) (\<lambda>ps. prints ss (st\<lparr>ui_out := ui_out st @ ps\<rparr>))"

definition CLI_PROMPT :: "ui \<Rightarrow> ui option" where
  "CLI_PROMPT st = prints [[0x0a], BOARD_CLI_PROMPT] st"

definition uart_putc :: "u8 \<Rightarrow> ui \<Rightarrow> ui" where
  "uart_putc c st = st\<lparr>ui_out := ui_out st @ [Putc c]\<rparr>"

fun cli_cursor_left :: "nat \<Rightarrow> ui \<Rightarrow> ui" where
  "cli_cursor_left 0 st = st"
| "cli_cursor_left (Suc col) st = cli_cursor_left col (uart_putc 0x08 (uart_putc 0x20 (uart_putc 0x08 st)))"

text \<open>The dots go to a buffer of 31 bytes.\<close>

definition cli_show_help_line :: "cli_cmd \<Rightarrow> nat \<Rightarrow> ui \<Rightarrow> ui option" where
  "cli_show_help_line c max_size st =
     (case cmd_help c of None \<Rightarrow> Some st
      | Some help \<Rightarrow>
          (let n = max_size - length (cmd_name c) in
           if max_size < length (cmd_name c) \<or> n + 3 > 31 then None
           else prints [[0x0a, 0x20, 0x20], cmd_name c, [0x20] @ replicate n 0x2e @ [0x20], help] st))"

fun show_lines :: "nat \<Rightarrow> cli_cmd list \<Rightarrow> ui \<Rightarrow> ui option" where
  "show_lines n [] st = Some st"
| "show_lines n (c # cs) st = Option.bind (cli_show_help_line c n st) (show_lines n cs)"

definition name_width :: "cli_cmd list \<Rightarrow> nat" where
  "name_width cs = fold (\<lambda>c n. max (length (cmd_name c)) n) cs 0"

definition cli_show_all_commands :: "cli_cmd list \<Rightarrow> ui \<Rightarrow> ui option" where
  "cli_show_all_commands cs st =
     (if cs = [] then Some st
      else Option.bind (prints [[0x0a] @ ascii ''Commands:''] st) (show_lines (name_width cs + 5) cs))"

definition cli_show_more_cmds :: "cli_cmd list \<Rightarrow> ui \<Rightarrow> ui option" where
  "cli_show_more_cmds cs st =
     Option.bind (prints [[0x0a] @ ascii ''More commands:''] st) (\<lambda>st.
     Option.bind (show_lines (name_width cs) cs st) (prints [[0x0a]]))"

section \<open>Parsing the line\<close>

definition skip_spaces :: "u8 list \<Rightarrow> nat \<Rightarrow> nat option" where
  "skip_spaces b i =
     (let j = i + length (takeWhile (\<lambda>c. c = 0x20) (drop i b)) in if j < length b then Some j else None)"

text \<open>\<open>cli_get_name\<close>: the name in capitals and the offset behind it, or no offset at the end.\<close>

definition cli_get_name :: "u8 list \<Rightarrow> nat \<Rightarrow> (u8 list \<times> nat option) option" where
  "cli_get_name b i =
     (let w = take (CLI_NAME_SIZE - 1) (takeWhile (\<lambda>c. c \<noteq> 0 \<and> c \<noteq> 0x20) (drop i b)) in
      if i + length w \<ge> length b then None
      else map_option (\<lambda>j. (map sys_toupper w, if w \<noteq> [] then Some j else None)) (skip_spaces b (i + length w)))"

fun arg_scan :: "u8 list \<Rightarrow> bool \<Rightarrow> nat \<Rightarrow> nat option" where
  "arg_scan [] double_q found = None"
| "arg_scan (c # cs) double_q found =
     (if c = 0 \<or> c = 0x20 \<and> \<not> double_q then Some found
      else arg_scan cs (if c = 0x22 then \<not> double_q else double_q) (found + 1))"

definition cli_get_argument_ptr :: "u8 list \<Rightarrow> nat \<Rightarrow> (nat option \<times> u8 list) option" where
  "cli_get_argument_ptr b i =
     Option.bind (arg_scan (drop i b) False 0) (\<lambda>found.
       let j = i + found; (b, j) = (if b ! j = 0x20 then (b[j := 0], j + 1) else (b, j)) in
       map_option (\<lambda>k. (if found \<noteq> 0 then Some k else None, b)) (skip_spaces b j))"

partial_function (option) parse_args :: "nat \<Rightarrow> ui \<Rightarrow> ui option" where
  "parse_args d st =
     (if d \<ge> length (cli_buf st) then None
      else if cli_buf st ! d \<noteq> 0 \<and> unat (cli_argc st) \<ge> CLI_MAX_ARGUMENTS then None
      else
        (let st = (if cli_buf st ! d \<noteq> 0
             then st\<lparr>cli_argv := (cli_argv st)[unat (cli_argc st) := d], cli_argc := cli_argc st + 1\<rparr> else st) in
         Option.bind (cli_get_argument_ptr (cli_buf st) d) (\<lambda>(r, b).
           let st = st\<lparr>cli_buf := b\<rparr> in case r of None \<Rightarrow> Some st | Some d \<Rightarrow> parse_args d st)))"

definition cli_parse_argument :: "nat \<Rightarrow> ui \<Rightarrow> ui option" where
  "cli_parse_argument d st = parse_args d (st\<lparr>cli_argc := 0, cli_argv := (cli_argv st)[0 := d]\<rparr>)"

text \<open>The strings with their terminators; \<open>None\<close> when the comparison would leave one of them.\<close>

fun cli_bcmp :: "u8 list \<Rightarrow> u8 list \<Rightarrow> nat \<Rightarrow> bool option" where
  "cli_bcmp s t 0 = Some True"
| "cli_bcmp (d # s) (c # t) (Suc n) = (if sys_toupper d \<noteq> sys_toupper c then Some False else cli_bcmp s t n)"
| "cli_bcmp _ _ (Suc n) = None"

text \<open>At most 20 commands fit into \<open>matched_cmds\<close>.\<close>

fun matched :: "u8 list \<Rightarrow> cli_cmd list \<Rightarrow> cli_cmd list option" where
  "matched name [] = Some []"
| "matched name (c # cs) =
     Option.bind (cli_bcmp (name @ [0]) (cmd_name c @ [0]) (length name)) (\<lambda>m.
       map_option (\<lambda>ms. if m then c # ms else ms) (matched name cs))"

definition cli_get_matched_cmd :: "u8 list \<Rightarrow> cli_cmd list \<Rightarrow> cli_cmd list option" where
  "cli_get_matched_cmd name cs = Option.bind (matched name cs) (\<lambda>ms. if length ms > 20 then None else Some ms)"

text \<open>A call of a command; \<open>cli_exit\<close> is in this file.\<close>

definition call_handler :: "(cli_handler \<Rightarrow> ui \<Rightarrow> ui option) \<Rightarrow> cli_handler \<Rightarrow> ui \<Rightarrow> ui option" where
  "call_handler H h st = (if h = Cli_exit then Some (st\<lparr>cli_exit_flag := True\<rparr>) else H h st)"

definition run_cmd :: "(cli_handler \<Rightarrow> ui \<Rightarrow> ui option) \<Rightarrow> cli_handler \<Rightarrow> nat \<Rightarrow> ui \<Rightarrow> ui option" where
  "run_cmd H h prev_p st =
     Option.bind (cli_parse_argument prev_p st) (\<lambda>st. Option.bind (prints [[0x0a]] st) (call_handler H h))"

text \<open>The loop of \<open>cli_parse_enter\<close>: the current table, the command whose table it is (none at first), the
  offsets \<open>datap\<close> and \<open>prev_p\<close>.\<close>

partial_function (option) parse_loop ::
  "(cli_handler \<Rightarrow> ui \<Rightarrow> ui option) \<Rightarrow> cli_cmd list \<Rightarrow> cli_cmd option \<Rightarrow> nat \<Rightarrow> nat \<Rightarrow> ui \<Rightarrow> ui option" where
  "parse_loop H current_cmd old_cmd dp prev_p st =
     Option.bind (cli_get_name (cli_buf st) dp) (\<lambda>(name, r).
       case r of
         None \<Rightarrow>
           (case old_cmd of None \<Rightarrow> Some st
            | Some c \<Rightarrow>
                (case cmd_next c of None \<Rightarrow> prints [[0x0a] @ ascii ''  Illegal argument''] st
                 | Some t \<Rightarrow>
                     (case cmd_handler c of Some h \<Rightarrow> run_cmd H h prev_p st
                      | None \<Rightarrow> Option.bind (prints [[0x0a]] st) (cli_show_all_commands t))))
       | Some dp \<Rightarrow>
           Option.bind (cli_get_matched_cmd name current_cmd) (\<lambda>ms.
             if ms = [] then Option.bind (prints [[0x0a] @ ascii ''Illegal Command!''] st) (cli_show_all_commands current_cmd)
             else if length ms > 1 then cli_show_more_cmds ms st
             else
               (case cmd_next (hd ms) of
                  None \<Rightarrow> (case cmd_handler (hd ms) of None \<Rightarrow> Some st | Some h \<Rightarrow> run_cmd H h prev_p st)
                | Some t \<Rightarrow> parse_loop H t (Some (hd ms)) dp dp st)))"

definition cli_parse_enter :: "(cli_handler \<Rightarrow> ui \<Rightarrow> ui option) \<Rightarrow> ui \<Rightarrow> ui option" where
  "cli_parse_enter H st =
     Option.bind (skip_spaces (cli_buf st) 0) (\<lambda>i. parse_loop H (cli_cmd_p st) None i i st)"

section \<open>Editing the line\<close>

definition put_buf :: "u8 \<Rightarrow> u8 \<Rightarrow> ui \<Rightarrow> ui option" where
  "put_buf i c st = (if unat i < length (cli_buf st) then Some (st\<lparr>cli_buf := (cli_buf st)[unat i := c]\<rparr>) else None)"

text \<open>The string at the start of an array.\<close>

definition c_string :: "u8 list \<Rightarrow> u8 list option" where
  "c_string b = (if 0 \<in> set b then Some (takeWhile (\<lambda>c. c \<noteq> 0) b) else None)"

definition copy_string :: "u8 list \<Rightarrow> u8 list \<Rightarrow> u8 list option" where
  "copy_string dest s = (if length s < length dest then Some (s @ [0] @ drop (length s + 1) dest) else None)"

text \<open>A line of the history comes back.\<close>

definition recall :: "ui \<Rightarrow> ui option" where
  "recall st =
     (let st = (if cli_total st \<noteq> 0 then cli_cursor_left (unat (cli_total st)) st else st) in
      if unat (current_history st) \<ge> length (hist_buf st) then None
      else
        Option.bind (c_string (hist_buf st ! unat (current_history st))) (\<lambda>l.
        Option.bind (copy_string (cli_buf st) l) (\<lambda>b.
          prints [l] (st\<lparr>cli_buf := b, cli_total := of_nat (length l)\<rparr>))))"

definition enter_key :: "(cli_handler \<Rightarrow> ui \<Rightarrow> ui option) \<Rightarrow> ui \<Rightarrow> ui option" where
  "enter_key H st =
     Option.bind (put_buf (cli_total st) 0 st) (\<lambda>st.
     let st = st\<lparr>cli_total := cli_total st + 1\<rparr> in
     Option.bind (c_string (cli_buf st)) (\<lambda>l.
     Option.bind
       (if l = [] then Some st
        else if unat (hist_index st) \<ge> length (hist_buf st) then None
        else Option.bind (copy_string (hist_buf st ! unat (hist_index st)) l) (\<lambda>row.
          let st = st\<lparr>hist_buf := (hist_buf st)[unat (hist_index st) := row], hist_index := hist_index st + 1\<rparr>;
              st = (if hist_index st \<ge> CLI_MAX_HISTORY then st\<lparr>hist_index := 0\<rparr> else st);
              st = (if hist_total st < CLI_MAX_HISTORY then st\<lparr>hist_total := hist_total st + 1\<rparr> else st)
          in cli_parse_enter H st))
       (\<lambda>st. map_option (\<lambda>st. st\<lparr>current_history := hist_index st\<rparr>) (CLI_PROMPT (st\<lparr>cli_total := 0\<rparr>)))))"

definition cli_key :: "(cli_handler \<Rightarrow> ui \<Rightarrow> ui option) \<Rightarrow> u8 \<Rightarrow> ui \<Rightarrow> ui option" where
  "cli_key H data st =
     (if data = KEY_BS \<or> data = ARROW_L then
        (if cli_total st \<noteq> 0 then
           map_option (\<lambda>st. cli_cursor_left 1 (st\<lparr>cli_total := cli_total st - 1\<rparr>)) (put_buf (cli_total st) 0 st)
         else Some st)
      else if data = KEY_TAB \<or> data = KEY_SP then
        Option.bind (put_buf (cli_total st) 0x20 st) (\<lambda>st.
        Option.bind (put_buf (cli_total st + 1) 0 st) (\<lambda>st.
        map_option (\<lambda>st. st\<lparr>cli_total := cli_total st + 1\<rparr>) (prints [[0x20]] st)))
      else if data = KEY_CR \<or> data = KEY_LF then enter_key H st
      else if data = KEY_ESC then
        map_option (\<lambda>st. st\<lparr>current_history := hist_index st\<rparr>) (CLI_PROMPT (st\<lparr>cli_total := 0\<rparr>))
      else if data = KEY_CTRL_U \<or> data = ARROW_U then
        (if hist_total st \<noteq> 0 then
           recall (st\<lparr>current_history := (if current_history st = 0 then hist_total st - 1 else current_history st - 1)\<rparr>)
         else Some st)
      else if data = ARROW_D \<or> data = KEY_CTRL_D \<or> data = KEY_CTRL_N then
        (if hist_total st \<noteq> 0 then
           recall (st\<lparr>current_history := (if current_history st + 1 \<ge> hist_total st then 0 else current_history st + 1)\<rparr>)
         else Some st)
      else if data < 0x20 \<or> data > 0x7f then Some st
      else
        Option.bind (put_buf (cli_total st) data st) (\<lambda>st.
        Option.bind (put_buf (cli_total st + 1) 0 st) (\<lambda>st.
          let st = (uart_putc data st)\<lparr>cli_total := cli_total st + 1\<rparr> in
          if cli_total st \<ge> CLI_MAX_CHARS - 1
          then Option.bind (prints [[0x0a] @ ascii ''Command is too long!''] (st\<lparr>cli_total := 0\<rparr>)) CLI_PROMPT
          else Some st)))"

partial_function (option) cli_loop :: "env \<Rightarrow> (cli_handler \<Rightarrow> ui \<Rightarrow> ui option) \<Rightarrow> ui \<Rightarrow> ui option" where
  "cli_loop E H st =
     (if cli_exit_flag st then Some st
      else
        Option.bind (ui_getc E (ui_mach st)) (\<lambda>(data, s).
        Option.bind (cli_key H data (st\<lparr>ui_mach := s\<rparr>)) (cli_loop E H)))"

definition cli_main :: "env \<Rightarrow> (cli_handler \<Rightarrow> ui \<Rightarrow> ui option) \<Rightarrow> ui \<Rightarrow> ui option" where
  "cli_main E H st =
     Option.bind
       (CLI_PROMPT (st\<lparr>cli_total := 0, cli_cmd_p := cli_main_tbl, cli_argc := 0, cli_argv := replicate CLI_MAX_ARGUMENTS 0,
          cli_buf := replicate 81 0, hist_index := 0, hist_total := 0, hist_buf := replicate 10 (replicate 80 0),
          current_history := 0\<rparr>))
       (\<lambda>st. cli_loop E H (st\<lparr>cli_exit_flag := False\<rparr>))"

section \<open>Line input\<close>

text \<open>\<open>ui_gets\<close> on the caller's array \<open>b\<close>; \<open>dest\<close> is always \<open>buf + total\<close>.\<close>

definition erase_input :: "nat \<Rightarrow> u8 list \<Rightarrow> (u8 list \<times> put list) option" where
  "erase_input n b =
     (if n \<ge> length b then None
      else
        Option.bind (print_text (replicate n 0x08)) (\<lambda>bs.
        map_option (\<lambda>sp. (replicate n 0x08 @ [0] @ drop (n + 1) b, bs @ sp @ bs)) (print_text (replicate n 0x20))))"

partial_function (option) gets_loop ::
  "env \<Rightarrow> nat \<Rightarrow> bool \<Rightarrow> nat \<Rightarrow> u8 list \<Rightarrow> put list \<Rightarrow> net \<Rightarrow> (nat \<times> u8 list \<times> put list \<times> net) option" where
  "gets_loop E n first_key k b out s =
     Option.bind (ui_getc E s) (\<lambda>(key, s).
       if key = 0x0d \<or> key = 0x0a then
         (if k \<ge> length b then None else map_option (\<lambda>ps. (k, b[k := 0], out @ ps, s)) (print_text [0x0a]))
       else if key = 0x03 \<or> key = 0x1b then map_option (\<lambda>ps. (0, b, out @ ps, s)) (print_text [0x0a])
       else if key = 0x08 \<or> key = ARROW_L then
         (if k \<noteq> 0 then gets_loop E n False (k - 1) b (out @ [Putc 0x08, Putc 0x20, Putc 0x08]) s
          else gets_loop E n False k b out s)
       else if key \<ge> 0x20 \<and> key \<le> 0x7f then
         Option.bind (if first_key \<and> k \<noteq> 0 then map_option (\<lambda>(b, ps). (0, b, out @ ps)) (erase_input k b) else Some (k, b, out))
           (\<lambda>(k, b, out).
             if k < n then
               (if k \<ge> length b then None else gets_loop E n False (k + 1) (b[k := key]) (out @ [Putc key]) s)
             else gets_loop E n False k b out s)
       else gets_loop E n first_key k b out s)"

definition ui_gets :: "env \<Rightarrow> int \<Rightarrow> u8 list \<Rightarrow> net \<Rightarrow> (nat \<times> u8 list \<times> put list \<times> net) option" where
  "ui_gets E n b s =
     (if n \<le> 0 then Some (0, b, [], s)
      else
        Option.bind (c_string b) (\<lambda>l.
          if int (length l) \<ge> n then gets_loop E (nat n) True 0 b [] s
          else Option.bind (print_text l) (\<lambda>ps. gets_loop E (nat n) True (length l) b ps s)))"

section \<open>Printing plain text\<close>

definition plain :: "u8 list \<Rightarrow> bool" where
  "plain s \<longleftrightarrow> list_all (\<lambda>c. c \<noteq> 0 \<and> c \<noteq> 0x25) s \<and> length s \<le> 257"

definition echo :: "u8 list \<Rightarrow> put list" where
  "echo s = map Putc (concat (map crlf s))"

lemma vprintf_text:
  "list_all (\<lambda>c. c \<noteq> 0 \<and> c \<noteq> 0x25) s \<Longrightarrow> \<exists>n'. vprintf_loop (s @ [0]) [] n b = Some (echo s, n')"
proof (induction s)
  case Nil
  then show ?case by (simp add: vprintf_end echo_def)
next
  case (Cons c s)
  then obtain n' where "vprintf_loop (s @ [0]) [] n b = Some (echo s, n')" by auto
  then show ?case using Cons(2) by (simp add: vprintf_loop.simps(2) [of c] echo_def)
qed

lemma print_plain: "plain s \<Longrightarrow> print_text s = Some (echo s)"
proof -
  assume a: "plain s"
  then obtain n' where "vprintf_loop (s @ [0]) [] 0 (replicate 64 0) = Some (echo s, n')"
    using vprintf_text unfolding plain_def by blast
  moreover have "sys_check_string 1 s" using a by (auto simp: sys_check_string_def plain_def)
  ultimately show ?thesis by (simp add: print_text_def sys_vprintf_def)
qed

lemma prints_plain: "list_all plain ss \<Longrightarrow> prints ss st = Some (st\<lparr>ui_out := ui_out st @ concat (map echo ss)\<rparr>)"
proof (induction ss arbitrary: st)
  case (Cons s ss)
  then show ?case by (simp add: print_plain)
qed simp

lemma plain_consts: "plain [0x0a]" "plain [0x20]" "plain BOARD_CLI_PROMPT" "plain [0x0a, 0x20, 0x20]"
  "plain ([0x0a] @ ascii ''Commands:'')" "plain ([0x0a] @ ascii ''More commands:'')" "plain ([0x0a] @ ascii ''Illegal Command!'')"
  "plain ([0x0a] @ ascii ''Command is too long!'')" "plain ([0x0a] @ ascii ''  Illegal argument'')"
  by (simp_all add: plain_def BOARD_CLI_PROMPT_def ascii_def of_char_def)

lemma prompt: "CLI_PROMPT st = Some (st\<lparr>ui_out := ui_out st @ echo [0x0a] @ echo BOARD_CLI_PROMPT\<rparr>)"
  by (simp add: CLI_PROMPT_def prints_plain plain_consts del: prints.simps)

section \<open>The words of a line\<close>

text \<open>The arguments of a line: separated by spaces, but not inside double quotes; the quotes stay.\<close>

fun qsplit :: "bool \<Rightarrow> u8 list \<Rightarrow> u8 list \<times> u8 list" where
  "qsplit q [] = ([], [])"
| "qsplit q (c # s) =
     (if c = 0x20 \<and> \<not> q then ([], c # s)
      else let (t, r) = qsplit (if c = 0x22 then \<not> q else q) s in (c # t, r))"

lemma qsplit_append: "qsplit q s = (t, r) \<Longrightarrow> s = t @ r"
  by (induction q s arbitrary: t r rule: qsplit.induct) (auto split: if_splits prod.splits)

lemma qsplit_rest: "qsplit q s = (t, r) \<Longrightarrow> r = [] \<or> hd r = 0x20"
  by (induction q s arbitrary: t r rule: qsplit.induct) (auto split: if_splits prod.splits)

lemma qsplit_length: "length (snd (qsplit q s)) \<le> length s"
  by (induction q s rule: qsplit.induct) (auto split: prod.splits)

function args_of :: "u8 list \<Rightarrow> u8 list list" where
  "args_of [] = []"
| "args_of (c # s) =
     (if c = 0x20 then [] else let (t, r) = qsplit False (c # s) in t # args_of (dropWhile (\<lambda>c. c = 0x20) r))"
  by pat_completeness auto
termination
proof (relation "measure length", simp)
  fix c :: u8 and s x y z
  assume "c \<noteq> 0x20" "z = qsplit False (c # s)" "(x, y) = z"
  then have "length y \<le> length s" using qsplit_length [of "c = 0x22" s] by (cases "c = 0x22") (auto split: prod.splits)
  then show "(dropWhile (\<lambda>c. c = 0x20) y, c # s) \<in> measure length"
    using length_dropWhile_le [of "\<lambda>c. c = 0x20" y] by simp
qed

lemma arg_scan_qsplit:
  "0 \<notin> set s \<Longrightarrow> arg_scan (s @ 0 # rest) q n = Some (n + length (fst (qsplit q s)))"
  by (induction q s arbitrary: n rule: qsplit.induct) (auto split: prod.splits)

lemma skip_spaces_at: "length p = d \<Longrightarrow> 0 \<notin> set s \<Longrightarrow>
    skip_spaces (p @ s @ 0 # rest) d = Some (d + length (takeWhile (\<lambda>c. c = 0x20) s))"
proof -
  assume a: "length p = d" "0 \<notin> set s"
  have "takeWhile (\<lambda>c. c = 0x20) (s @ 0 # rest) = takeWhile (\<lambda>c. c = 0x20) s"
    by (induction s) auto
  moreover have "length (takeWhile (\<lambda>c. c = 0x20) s) \<le> length s" by (rule length_takeWhile_le)
  ultimately show ?thesis using a by (simp add: skip_spaces_def)
qed

definition arg_strings :: "nat \<Rightarrow> nat list \<Rightarrow> u8 list \<Rightarrow> u8 list list" where
  "arg_strings n v b = map (\<lambda>i. takeWhile (\<lambda>c. c \<noteq> 0) (drop i b)) (take n v)"

text \<open>The strings the command finds in \<open>argv\<close>.\<close>

definition argv_strings :: "ui \<Rightarrow> u8 list list" where
  "argv_strings st = arg_strings (unat (cli_argc st)) (cli_argv st) (cli_buf st)"

lemma drop_update: "k < length v \<Longrightarrow> drop k (v[k := d]) = d # drop (Suc k) v"
  by (metis Cons_nth_drop_Suc drop_update_cancel length_list_update lessI nth_list_update_eq)

lemma drop_eq_take: "take (k + 1) v = take (k + 1) (u[k := d]) \<Longrightarrow> k < length u \<Longrightarrow> length v = length u \<Longrightarrow> drop k v = d # drop (k + 1) v"
  by (metis Cons_nth_drop_Suc Suc_eq_plus1 lessI nth_list_update_eq nth_take)

lemma parse_args_end:
  assumes "cli_buf st = p @ 0 # rest" "length p = d"
  shows "parse_args d st = Some st"
  using assms skip_spaces_at [of p d "[]" rest]
  by (subst parse_args.simps) (simp add: nth_append cli_get_argument_ptr_def)

lemma get_argument_ptr_end:
  assumes "b = p @ s @ 0 # rest" "length p = d" "0 \<notin> set s" "qsplit False s = (t, [])" "s \<noteq> []"
  shows "cli_get_argument_ptr b d = Some (Some (d + length s), b)"
proof -
  have t: "t = s" using qsplit_append [OF assms(4)] by simp
  have "skip_spaces ((p @ s) @ [] @ 0 # rest) (d + length s) = Some (d + length s)"
    using skip_spaces_at [of "p @ s" "d + length s" "[]" rest] assms(2) by simp
  then show ?thesis
    using arg_scan_qsplit [OF assms(3), of rest False 0] assms t
    by (simp add: cli_get_argument_ptr_def nth_append)
qed

lemma get_argument_ptr_next:
  assumes "b = p @ s @ 0 # rest" "length p = d" "0 \<notin> set s" "qsplit False s = (t, 0x20 # r)" "t \<noteq> []"
  shows "cli_get_argument_ptr b d =
    Some (Some (d + length t + 1 + length (takeWhile (\<lambda>c. c = 0x20) r)), p @ t @ 0 # r @ 0 # rest)"
proof -
  have s: "s = t @ 0x20 # r" using qsplit_append [OF assms(4)] .
  have "skip_spaces ((p @ t @ [0]) @ r @ 0 # rest) (d + length t + 1) = Some (d + length t + 1 + length (takeWhile (\<lambda>c. c = 0x20) r))"
    using skip_spaces_at [of "p @ t @ [0]" "d + length t + 1" r rest] assms(2,3) s by simp
  moreover have "b ! (d + length t) = 0x20" "b[d + length t := 0] = p @ t @ 0 # r @ 0 # rest"
    using assms(1,2) s by (simp_all add: nth_append list_update_append)
  ultimately show ?thesis
    using arg_scan_qsplit [OF assms(3), of rest False 0] assms(1,2,4,5)
    by (simp add: cli_get_argument_ptr_def)
qed

lemma parse_args_spec:
  assumes "cli_buf st = p @ s @ 0 # rest" "length p = d" "0 \<notin> set s" "s = [] \<or> hd s \<noteq> 0x20"
    and "unat (cli_argc st) + length (args_of s) \<le> CLI_MAX_ARGUMENTS" "length (cli_argv st) = CLI_MAX_ARGUMENTS"
  shows "\<exists>v b. parse_args d st = Some (st\<lparr>cli_argc := cli_argc st + of_nat (length (args_of s)), cli_argv := v, cli_buf := b\<rparr>) \<and>
    take d b = p \<and> length b = length (cli_buf st) \<and> length v = CLI_MAX_ARGUMENTS \<and>
    take (unat (cli_argc st)) v = take (unat (cli_argc st)) (cli_argv st) \<and>
    arg_strings (length (args_of s)) (drop (unat (cli_argc st)) v) b = args_of s"
  using assms
proof (induction s arbitrary: p d st rest rule: args_of.induct)
  case 1
  have "parse_args d st = Some st" using parse_args_end [of st p rest d] 1(1,2) by simp
  then show ?case using 1
    by (intro exI [of _ "cli_argv st"] exI [of _ "cli_buf st"]) (simp add: arg_strings_def)
next
  case (2 c s)
  have c: "c \<noteq> 0x20" "c \<noteq> 0" using 2(5,4) by auto
  obtain t r where q: "qsplit False (c # s) = (t, r)" by (cases "qsplit False (c # s)")
  have tr: "c # s = t @ r" by (rule qsplit_append [OF q])
  have tn: "t \<noteq> []" using q c by (auto split: prod.splits)
  define r' where "r' = dropWhile (\<lambda>c. c = 0x20) r"
  have args: "args_of (c # s) = t # args_of r'" using q c by (simp add: r'_def)
  let ?k = "unat (cli_argc st)"
  have k: "?k < CLI_MAX_ARGUMENTS" using 2(6) args by simp
  let ?st = "st\<lparr>cli_argv := (cli_argv st)[?k := d], cli_argc := cli_argc st + 1\<rparr>"
  have k1: "unat (cli_argc st + 1) = ?k + 1"
    using k by (simp add: CLI_MAX_ARGUMENTS_def unat_word_ariths)
  have bd: "cli_buf st ! d = c" "d < length (cli_buf st)" using 2(2,3) by (simp_all add: nth_append)
  have step: "parse_args d st = Option.bind (cli_get_argument_ptr (cli_buf st) d) (\<lambda>(r, b).
      let st = ?st\<lparr>cli_buf := b\<rparr> in case r of None \<Rightarrow> Some st | Some d \<Rightarrow> parse_args d st)"
    by (subst parse_args.simps) (use bd c k in \<open>simp add: Let_def\<close>)
  show ?case
  proof (cases r)
    case Nil
    have g: "cli_get_argument_ptr (cli_buf st) d = Some (Some (d + length (c # s)), cli_buf st)"
      using get_argument_ptr_end [OF 2(2,3,4)] q Nil by simp
    have e: "parse_args (d + length (c # s)) (?st\<lparr>cli_buf := cli_buf st\<rparr>) = Some (?st\<lparr>cli_buf := cli_buf st\<rparr>)"
      by (rule parse_args_end [of _ "p @ c # s" rest]) (simp_all add: 2(2,3))
    have a: "args_of (c # s) = [c # s]" using args Nil tr by (simp add: r'_def)
    have "takeWhile (\<lambda>c. c \<noteq> 0) (drop d (cli_buf st)) = c # s" using 2(2,3,4) by (auto simp: takeWhile_append)
    then have "arg_strings 1 (drop ?k ((cli_argv st)[?k := d])) (cli_buf st) = [c # s]"
      using k 2(7) by (simp add: arg_strings_def drop_update)
    then show ?thesis unfolding a step g using e 2(2,3,7) k
      by (intro exI [of _ "(cli_argv st)[?k := d]"] exI [of _ "cli_buf st"]) (simp add: Let_def)
  next
    case (Cons x r1)
    have x: "x = 0x20" using qsplit_rest [OF q] Cons by simp
    let ?w = "takeWhile (\<lambda>c. c = 0x20) r1"
    have r': "r' = dropWhile (\<lambda>c. c = 0x20) r1" using Cons x by (simp add: r'_def)
    have r1: "r1 = ?w @ r'" by (simp add: r')
    let ?p = "p @ t @ 0 # ?w"
    let ?d = "d + length t + 1 + length ?w"
    let ?b = "p @ t @ 0 # r1 @ 0 # rest"
    have g: "cli_get_argument_ptr (cli_buf st) d = Some (Some ?d, ?b)"
      using get_argument_ptr_next [OF 2(2,3,4)] q Cons x tn by simp
    let ?s1 = "?st\<lparr>cli_buf := ?b\<rparr>"
    have n0: "0 \<notin> set t" "0 \<notin> set r'" using 2(4) tr Cons r1 by (metis UnCI set_append, metis UnCI set_append list.set_intros(2))
    have hd: "r' = [] \<or> hd r' \<noteq> 0x20" using hd_dropWhile [of "\<lambda>c. c = 0x20" r1] by (auto simp: r')
    have b1: "cli_buf ?s1 = ?p @ r' @ 0 # rest" by (simp add: r1 [symmetric])
    have s1: "unat (cli_argc ?s1) = ?k + 1" "cli_argv ?s1 = (cli_argv st)[?k := d]" "length (cli_buf ?s1) = length ?b"
      using k1 by simp_all
    have pr: "length ?p = ?d" "unat (cli_argc ?s1) + length (args_of r') \<le> CLI_MAX_ARGUMENTS" "length (cli_argv ?s1) = CLI_MAX_ARGUMENTS"
      using 2(3,6,7) args k1 by simp_all
    obtain v b where IH: "parse_args ?d ?s1 = Some (?s1\<lparr>cli_argc := cli_argc ?s1 + of_nat (length (args_of r')), cli_argv := v, cli_buf := b\<rparr>)"
      "take ?d b = ?p" "length b = length ?b" "length v = CLI_MAX_ARGUMENTS" "take (?k + 1) v = take (?k + 1) ((cli_argv st)[?k := d])"
      "arg_strings (length (args_of r')) (drop (?k + 1) v) b = args_of r'"
      using 2(1) [OF c(1) q [symmetric] refl, folded r'_def, OF b1 pr(1) n0(2) hd pr(2,3)] unfolding s1 by blast
    have dk: "drop ?k v = d # drop (?k + 1) v" using drop_eq_take [OF IH(5)] IH(4) 2(7) k by simp
    have "takeWhile (\<lambda>c. c \<noteq> 0) (drop d b) = t"
    proof -
      have "b = ?p @ drop ?d b" using IH(2) by (metis append_take_drop_id)
      then have "drop d b = t @ 0 # ?w @ drop ?d b" using 2(3) by (metis append.assoc append_Cons append_eq_conv_conj)
      then show ?thesis using n0(1) by (auto simp: takeWhile_append)
    qed
    then have "arg_strings (length (args_of (c # s))) (drop ?k v) b = args_of (c # s)"
      using IH(6) unfolding dk args by (simp add: arg_strings_def)
    moreover have "take d b = p"
    proof -
      have "take d (take ?d b) = p" unfolding IH(2) using 2(3) by simp
      then show ?thesis by (simp add: min_def)
    qed
    moreover have "take ?k v = take ?k (cli_argv st)"
    proof -
      have "take ?k (take (?k + 1) v) = take ?k (take (?k + 1) ((cli_argv st)[?k := d]))" by (simp only: IH(5))
      then show ?thesis by (simp add: min_def)
    qed
    moreover have "length b = length (cli_buf st)" using IH(3) 2(2) tr Cons by simp
    moreover have "parse_args d st = Some (st\<lparr>cli_argc := cli_argc st + of_nat (length (args_of (c # s))), cli_argv := v, cli_buf := b\<rparr>)"
      unfolding step g args using IH(1) by (simp add: Let_def add.assoc)
    ultimately show ?thesis using IH(4) by blast
  qed
qed

section \<open>Abbreviated commands\<close>

lemma sys_toupper_0: "sys_toupper c = 0 \<longleftrightarrow> c = 0"
proof -
  have "c - 0x20 \<noteq> 0" if "0x61 \<le> c" using that by auto
  then show ?thesis by (auto simp: sys_toupper_def)
qed

lemma sys_toupper_idem: "sys_toupper (sys_toupper c) = sys_toupper c"
proof -
  have "\<not> (0x61 \<le> c - 0x20 \<and> c - 0x20 \<le> 0x7a)" if "0x61 \<le> c" "c \<le> 0x7a"
  proof -
    have "unat (c - 0x20) = unat c - 32" using that by (simp add: unat_sub word_le_nat_alt)
    then show ?thesis using that by (simp add: word_le_nat_alt)
  qed
  then show ?thesis by (auto simp: sys_toupper_def)
qed

lemma cli_bcmp_prefix:
  "0 \<notin> set s \<Longrightarrow> 0 \<notin> set t \<Longrightarrow>
   cli_bcmp (s @ [0]) (t @ [0]) (length s) = Some (prefix (map sys_toupper s) (map sys_toupper t))"
proof (induction s arbitrary: t)
  case (Cons d s)
  show ?case
  proof (cases t)
    case Nil
    then show ?thesis using Cons(2) sys_toupper_0 [of d] sys_toupper_0 [of 0] by auto
  next
    case (Cons c t')
    then show ?thesis using Cons.IH [of t'] Cons.prems by auto
  qed
qed simp

text \<open>The commands of a table that a name, in capitals or not, abbreviates.\<close>

definition abbreviated :: "u8 list \<Rightarrow> cli_cmd list \<Rightarrow> cli_cmd list" where
  "abbreviated name cs = filter (\<lambda>c. prefix (map sys_toupper name) (map sys_toupper (cmd_name c))) cs"

lemma matched_abbrevs:
  "0 \<notin> set name \<Longrightarrow> list_all (\<lambda>c. 0 \<notin> set (cmd_name c)) cs \<Longrightarrow> matched name cs = Some (abbreviated name cs)"
  by (induction cs) (auto simp: cli_bcmp_prefix abbreviated_def)

lemma abbreviated_upper: "abbreviated (map sys_toupper name) = abbreviated name"
  by (simp add: abbreviated_def sys_toupper_idem fun_eq_iff comp_def)

lemma cli_get_name_spec:
  assumes "b = p @ s @ 0 # rest" "length p = d" "0 \<notin> set s" "length (takeWhile (\<lambda>c. c \<noteq> 0x20) s) < CLI_NAME_SIZE"
    and "s \<noteq> []" "hd s \<noteq> 0x20"
  shows "\<exists>k. cli_get_name b d = Some (map sys_toupper (takeWhile (\<lambda>c. c \<noteq> 0x20) s), Some k)"
proof -
  let ?w = "takeWhile (\<lambda>c. c \<noteq> 0x20) s"
  have w: "takeWhile (\<lambda>c. c \<noteq> 0 \<and> c \<noteq> 0x20) (drop d b) = ?w"
    using assms(3) unfolding assms(1) assms(2) [symmetric] by (induction s) (auto simp: takeWhile_append)
  obtain r where r: "s = ?w @ r" by (metis takeWhile_dropWhile_id)
  have "0 \<notin> set r" using assms(3) r by (metis UnCI set_append)
  then have k: "skip_spaces b (d + length ?w) = Some (d + length ?w + length (takeWhile (\<lambda>c. c = 0x20) r))"
    using skip_spaces_at [of "p @ ?w" "d + length ?w" r rest] assms(1,2) r by (metis append.assoc length_append)
  have "?w \<noteq> []" using assms(5,6) by (cases s) auto
  moreover have "take (CLI_NAME_SIZE - 1) ?w = ?w" using assms(4) by (simp add: CLI_NAME_SIZE_def)
  moreover have "d + length ?w < length b"
    using length_takeWhile_le [of "\<lambda>c. c \<noteq> 0x20" s] assms(1,2) by simp
  ultimately show ?thesis using k by (simp add: cli_get_name_def Let_def w)
qed

lemma cli_enter_runs:
  assumes "cli_buf st = s @ 0 # rest" "0 \<notin> set s" "s' = dropWhile (\<lambda>c. c = 0x20) s" "s' \<noteq> []"
    and "w = takeWhile (\<lambda>c. c \<noteq> 0x20) s'" "length w < CLI_NAME_SIZE"
    and "abbreviated w (cli_cmd_p st) = [c]" "list_all (\<lambda>c. 0 \<notin> set (cmd_name c)) (cli_cmd_p st)"
    and "cmd_next c = None" "cmd_handler c = Some h"
    and "length (args_of s') \<le> CLI_MAX_ARGUMENTS" "length (cli_argv st) = CLI_MAX_ARGUMENTS"
  shows "\<exists>v b. let st' = st\<lparr>cli_argc := of_nat (length (args_of s')), cli_argv := v, cli_buf := b, ui_out := ui_out st @ echo [0x0a]\<rparr>
    in cli_parse_enter H st = call_handler H h st' \<and> argv_strings st' = args_of s' \<and>
       length v = CLI_MAX_ARGUMENTS \<and> length b = length (cli_buf st)"
proof -
  let ?sp = "takeWhile (\<lambda>c. c = 0x20) s"
  let ?d = "length ?sp"
  have s: "s = ?sp @ s'" using assms(3) by simp
  have b: "cli_buf st = ?sp @ s' @ 0 # rest" using assms(1) s by (metis append.assoc)
  have n0: "0 \<notin> set s'" using assms(2,3) by (metis set_dropWhileD)
  have hd: "hd s' \<noteq> 0x20" using hd_dropWhile [of "\<lambda>c. c = 0x20" s] assms(3,4) by auto
  have sk: "skip_spaces (cli_buf st) 0 = Some ?d" using skip_spaces_at [of "[]" 0 s rest] assms(1,2) by simp
  obtain k where nm: "cli_get_name (cli_buf st) ?d = Some (map sys_toupper w, Some k)"
    using cli_get_name_spec [OF b refl n0 _ assms(4) hd] assms(5,6) by auto
  have w0: "0 \<notin> set (map sys_toupper w)"
    using n0 assms(5) by (auto simp: sys_toupper_0 dest: set_takeWhileD)
  have m: "cli_get_matched_cmd (map sys_toupper w) (cli_cmd_p st) = Some [c]"
    using matched_abbrevs [OF w0 assms(8)] assms(7) by (simp add: cli_get_matched_cmd_def abbreviated_upper)
  let ?st0 = "st\<lparr>cli_argc := 0, cli_argv := (cli_argv st)[0 := ?d]\<rparr>"
  obtain v b' where a: "parse_args ?d ?st0 = Some (?st0\<lparr>cli_argc := cli_argc ?st0 + of_nat (length (args_of s')), cli_argv := v, cli_buf := b'\<rparr>)"
    "length b' = length (cli_buf ?st0)" "length v = CLI_MAX_ARGUMENTS"
    "arg_strings (length (args_of s')) (drop (unat (cli_argc ?st0)) v) b' = args_of s'"
    using parse_args_spec [of ?st0 ?sp s' rest ?d] b n0 hd assms(11,12) by auto
  have u: "unat (of_nat (length (args_of s')) :: u8) = length (args_of s')"
    using assms(11) by (simp add: unat_of_nat CLI_MAX_ARGUMENTS_def)
  let ?st' = "st\<lparr>cli_argc := of_nat (length (args_of s')), cli_argv := v, cli_buf := b', ui_out := ui_out st @ echo [0x0a]\<rparr>"
  have "cli_parse_enter H st = run_cmd H h ?d st"
    by (simp add: cli_parse_enter_def sk) (subst parse_loop.simps, simp add: nm m assms(9,10))
  also have "\<dots> = call_handler H h ?st'"
    using a(1) by (simp add: run_cmd_def cli_parse_argument_def print_plain plain_consts)
  finally show ?thesis using a(2,3,4) u by (intro exI [of _ v] exI [of _ b']) (simp add: argv_strings_def)
qed

section \<open>Typing a line\<close>

fun cli_keys :: "(cli_handler \<Rightarrow> ui \<Rightarrow> ui option) \<Rightarrow> u8 list \<Rightarrow> ui \<Rightarrow> ui option" where
  "cli_keys H [] st = Some st"
| "cli_keys H (k # ks) st = Option.bind (cli_key H k st) (cli_keys H ks)"

lemma cli_keys_Nil: "cli_keys H [] = Some"
  by (simp add: fun_eq_iff)

lemma cli_keys_append: "cli_keys H (ks @ ls) st = Option.bind (cli_keys H ks st) (cli_keys H ls)"
  by (induction ks arbitrary: st) (auto simp: Option.bind_assoc split: bind_split)

lemmas key_defs = KEY_BS_def KEY_TAB_def KEY_LF_def KEY_CR_def KEY_ESC_def KEY_SP_def ARROW_U_def ARROW_D_def ARROW_L_def
  KEY_CTRL_U_def KEY_CTRL_D_def KEY_CTRL_N_def

definition printable :: "u8 \<Rightarrow> bool" where
  "printable c \<longleftrightarrow> 0x20 \<le> c \<and> c \<le> 0x7f"

lemma type_key:
  assumes "printable c" "unat (cli_total st) < 78" "length (cli_buf st) = 81"
  shows "cli_key H c st = Some (st\<lparr>cli_buf := (cli_buf st)[unat (cli_total st) := c, unat (cli_total st) + 1 := 0],
    cli_total := cli_total st + 1, ui_out := ui_out st @ [Putc c]\<rparr>)"
proof -
  have u: "unat (cli_total st + 1) = unat (cli_total st) + 1" using assms(2) by (simp add: unat_word_ariths)
  have b: "put_buf (cli_total st) x st = Some (st\<lparr>cli_buf := (cli_buf st)[unat (cli_total st) := x]\<rparr>)" for x
    using assms(2,3) by (simp add: put_buf_def)
  have lt: "\<not> CLI_MAX_CHARS - 1 \<le> cli_total st + 1" using assms(2) u by (simp add: CLI_MAX_CHARS_def word_le_nat_alt)
  show ?thesis
  proof (cases "c = 0x20")
    case True
    then show ?thesis using u assms(2,3) b [of "0x20"] print_plain [OF plain_consts(2)]
      by (simp add: cli_key_def key_defs put_buf_def echo_def crlf_def)
  next
    case False
    have "\<not> c < 0x20" "\<not> 0x7f < c" using assms(1) by (simp_all add: printable_def not_less)
    moreover have "c \<notin> {0x08, 0xf3, 0x09, 0x20, 0x0d, 0x0a, 0x1b, 21, 0xf0, 0xf1, 4, 14}"
      using assms(1) False by (auto simp: printable_def word_le_nat_alt)
    ultimately show ?thesis using u assms(2,3) b [of c] lt
      by (simp add: cli_key_def key_defs put_buf_def uart_putc_def Let_def)
  qed
qed

lemma type_keys:
  assumes "list_all printable cs" "unat (cli_total st) + length cs \<le> 78" "length (cli_buf st) = 81"
  shows "\<exists>b. cli_keys H cs st = Some (st\<lparr>cli_buf := b, cli_total := cli_total st + of_nat (length cs), ui_out := ui_out st @ map Putc cs\<rparr>) \<and>
    take (unat (cli_total st) + length cs) b = take (unat (cli_total st)) (cli_buf st) @ cs \<and> length b = 81"
  using assms
proof (induction cs arbitrary: st)
  case Nil
  then show ?case by (intro exI [of _ "cli_buf st"]) simp
next
  case (Cons c cs)
  let ?t = "unat (cli_total st)"
  let ?st = "st\<lparr>cli_buf := (cli_buf st)[?t := c, ?t + 1 := 0], cli_total := cli_total st + 1, ui_out := ui_out st @ [Putc c]\<rparr>"
  have u: "unat (cli_total st + 1) = ?t + 1" using Cons(3) by (simp add: unat_word_ariths)
  have k: "cli_key H c st = Some ?st" using Cons(2-4) by (intro type_key) simp_all
  have tk: "take (?t + 1) ((cli_buf st)[?t := c, ?t + 1 := 0]) = take ?t (cli_buf st) @ [c]"
    using Cons(3,4) by (simp add: take_Suc_conv_app_nth)
  obtain b where b: "cli_keys H cs ?st = Some (?st\<lparr>cli_buf := b, cli_total := cli_total ?st + of_nat (length cs),
      ui_out := ui_out ?st @ map Putc cs\<rparr>)" "take (unat (cli_total ?st) + length cs) b = take (unat (cli_total ?st)) (cli_buf ?st) @ cs"
    "length b = 81"
    using Cons(1) [of ?st] Cons(2-4) u by auto
  then show ?case using k u tk by (intro exI [of _ b]) (simp add: add.assoc)
qed

text \<open>The state of the interpreter at its prompt.\<close>

definition at_prompt :: "ui \<Rightarrow> bool" where
  "at_prompt st \<longleftrightarrow> cli_total st = 0 \<and> cli_cmd_p st = cli_main_tbl \<and> length (cli_buf st) = 81 \<and>
     length (cli_argv st) = CLI_MAX_ARGUMENTS \<and> hist_index st < 10 \<and> length (hist_buf st) = 10 \<and>
     list_all (\<lambda>r. length r = 80) (hist_buf st)"

lemma main_tbl_names: "list_all (\<lambda>c. 0 \<notin> set (cmd_name c) \<and> cmd_next c = None \<and> cmd_handler c \<noteq> None) cli_main_tbl"
  by (simp add: cli_main_tbl_def cmd_def ascii_def of_char_def)

lemma enter_line:
  assumes p: "at_prompt st" and cs: "list_all printable cs" "length cs \<le> 78" "cs \<noteq> []"
  shows "\<exists>st1 rest. cli_buf st1 = cs @ 0 # rest \<and> cli_cmd_p st1 = cli_main_tbl \<and> length (cli_argv st1) = CLI_MAX_ARGUMENTS \<and>
    ui_mach st1 = ui_mach st \<and>
    cli_keys H (cs @ [KEY_CR]) st = Option.bind (cli_parse_enter H st1) (\<lambda>st.
      map_option (\<lambda>st. st\<lparr>current_history := hist_index st\<rparr>) (CLI_PROMPT (st\<lparr>cli_total := 0\<rparr>)))"
proof -
  obtain b where b: "cli_keys H cs st = Some (st\<lparr>cli_buf := b, cli_total := of_nat (length cs), ui_out := ui_out st @ map Putc cs\<rparr>)"
    "take (length cs) b = cs" "length b = 81"
    using type_keys [of cs st H] p cs by (auto simp: at_prompt_def)
  have u: "unat (of_nat (length cs) :: u8) = length cs" using cs(2) by (simp add: unat_of_nat)
  have nz: "0 \<notin> set cs" using cs(1) by (auto simp: list_all_iff printable_def)
  have b0: "b[length cs := 0] = cs @ 0 # drop (length cs + 1) b"
    using b(2,3) cs(2) by (simp add: upd_conv_take_nth_drop)
  have cstr: "takeWhile (\<lambda>c. c \<noteq> 0) (cs @ 0 # rest) = cs" for rest using nz by (auto simp: takeWhile_append)
  let ?i = "unat (hist_index st)"
  have hi: "?i < 10" using p by (simp add: at_prompt_def word_less_nat_alt)
  then have row: "length (hist_buf st ! ?i) = 80" using p by (simp add: at_prompt_def list_all_length)
  let ?row = "cs @ [0] @ drop (length cs + 1) (hist_buf st ! ?i)"
  have cp: "copy_string (hist_buf st ! ?i) cs = Some ?row" using row cs(2) by (simp add: copy_string_def)
  let ?b = "cs @ 0 # drop (length cs + 1) b"
  let ?s0 = "st\<lparr>ui_out := ui_out st @ map Putc cs, cli_buf := ?b, cli_total := of_nat (length cs) + 1,
    hist_buf := (hist_buf st)[?i := ?row], hist_index := hist_index st + 1\<rparr>"
  let ?s1 = "if hist_index ?s0 \<ge> CLI_MAX_HISTORY then ?s0\<lparr>hist_index := 0\<rparr> else ?s0"
  let ?s2 = "if hist_total ?s1 < CLI_MAX_HISTORY then ?s1\<lparr>hist_total := hist_total ?s1 + 1\<rparr> else ?s1"
  have "cli_keys H (cs @ [KEY_CR]) st = enter_key H (st\<lparr>cli_buf := b, cli_total := of_nat (length cs), ui_out := ui_out st @ map Putc cs\<rparr>)"
    using b(1) by (simp add: cli_keys_append cli_key_def key_defs cli_keys_Nil)
  also have "\<dots> = Option.bind (cli_parse_enter H ?s2) (\<lambda>st.
      map_option (\<lambda>st. st\<lparr>current_history := hist_index st\<rparr>) (CLI_PROMPT (st\<lparr>cli_total := 0\<rparr>)))"
    using cs(2,3) b(3) hi p cp unfolding enter_key_def
    by (simp add: put_buf_def u b0 c_string_def cstr Let_def at_prompt_def)
  finally show ?thesis using p
    by (intro exI [of _ ?s2] exI [of _ "drop (length cs + 1) b"]) (simp add: at_prompt_def)
qed

section \<open>Properties\<close>

text \<open>C17. A line of at most 78 printable characters, typed at the prompt and closed with Enter, runs the
  one command of the main table that its first word abbreviates, in capitals or not.  The command finds in \<open>argv\<close>
  exactly the words of the line: separated by spaces, except inside double quotes, leading spaces ignored.
  (The first word has at most 15 characters; the line has at most 8 words.)  After it the interpreter is
  back at its prompt.\<close>

theorem cli_command_runs:
  assumes "at_prompt st" "list_all printable cs" "length cs \<le> 78"
    and "line = dropWhile (\<lambda>c. c = 0x20) cs" "line \<noteq> []" "word = takeWhile (\<lambda>c. c \<noteq> 0x20) line" "length word < CLI_NAME_SIZE"
    and "abbreviated word cli_main_tbl = [c]" "length (args_of line) \<le> CLI_MAX_ARGUMENTS"
  shows "\<exists>st'. argv_strings st' = args_of line \<and> ui_mach st' = ui_mach st \<and>
    cli_keys H (cs @ [KEY_CR]) st = map_option (\<lambda>s. s\<lparr>cli_total := 0,
      ui_out := ui_out s @ echo [0x0a] @ echo BOARD_CLI_PROMPT, current_history := hist_index s\<rparr>) (call_handler H (the (cmd_handler c)) st')"
proof -
  have ne: "cs \<noteq> []" using assms(4,5) by auto
  obtain st1 rest where e: "cli_buf st1 = cs @ 0 # rest" "cli_cmd_p st1 = cli_main_tbl" "length (cli_argv st1) = CLI_MAX_ARGUMENTS"
      "ui_mach st1 = ui_mach st"
      "cli_keys H (cs @ [KEY_CR]) st = Option.bind (cli_parse_enter H st1) (\<lambda>st.
        map_option (\<lambda>st. st\<lparr>current_history := hist_index st\<rparr>) (CLI_PROMPT (st\<lparr>cli_total := 0\<rparr>)))"
    using enter_line [OF assms(1-3) ne, of H] by blast
  have "c \<in> set cli_main_tbl" using assms(8) by (metis abbreviated_def filter_is_subset list.set_intros(1) subsetD)
  then obtain h where h: "cmd_next c = None" "cmd_handler c = Some h" using main_tbl_names by (auto simp: list_all_iff)
  have nz: "0 \<notin> set cs" "list_all (\<lambda>c. 0 \<notin> set (cmd_name c)) cli_main_tbl"
    using assms(2) main_tbl_names by (auto simp: list_all_iff printable_def)
  obtain st' where st': "cli_parse_enter H st1 = call_handler H h st'" "argv_strings st' = args_of line" "ui_mach st' = ui_mach st1"
    using cli_enter_runs [OF e(1) nz(1) assms(4-7) _ _ h assms(9) e(3), of H] nz(2) assms(8) e(2) by (auto simp: Let_def)
  show ?thesis
    by (intro exI [of _ st']) (simp add: st' e(4) e(5) h prompt map_conv_bind_option comp_def)
qed

definition wit_ui :: ui where
  "wit_ui = \<lparr>cli_total = 0, cli_cmd_p = cli_main_tbl, cli_argc = 0, cli_argv = replicate CLI_MAX_ARGUMENTS 0, cli_buf = replicate 81 0,
     hist_index = 0, hist_total = 0, hist_buf = replicate 10 (replicate 80 0), current_history = 0, cli_exit_flag = False,
     ui_out = [], ui_mach = demo_net []\<rparr>"

lemma wit_ui: "at_prompt wit_ui"
  by (simp add: at_prompt_def wit_ui_def CLI_MAX_ARGUMENTS_def list_all_iff)

theorem cli_command_runs_witness:
  "\<exists>st'. argv_strings st' = [ascii ''pi'', ascii ''\"a b\"'', ascii ''7''] \<and> ui_mach st' = ui_mach wit_ui \<and>
    cli_keys (\<lambda>_ st. Some st) (ascii '' pi \"a b\"  7'' @ [KEY_CR]) wit_ui =
      Some (st'\<lparr>cli_total := 0, ui_out := ui_out st' @ echo [0x0a] @ echo BOARD_CLI_PROMPT, current_history := hist_index st'\<rparr>)"
proof -
  let ?cs = "ascii '' pi \"a b\"  7''" and ?line = "ascii ''pi \"a b\"  7''"
  have a: "abbreviated (ascii ''pi'') cli_main_tbl = [cmd ''ping'' Cli_ping_cmd ''Ping host by IP address.'']"
    by (simp add: abbreviated_def cli_main_tbl_def cmd_def ascii_def of_char_def sys_toupper_def)
  have b: "args_of ?line = [ascii ''pi'', ascii ''\"a b\"'', ascii ''7'']"
    by (simp add: ascii_def of_char_def)
  show ?thesis
    using cli_command_runs [OF wit_ui, of ?cs ?line "ascii ''pi''" "cmd ''ping'' Cli_ping_cmd ''Ping host by IP address.''" "\<lambda>_ st. Some st"] a b
    by (simp add: call_handler_def cmd_def ascii_def of_char_def printable_def CLI_NAME_SIZE_def CLI_MAX_ARGUMENTS_def)
qed

definition edit_inv :: "ui \<Rightarrow> bool" where
  "edit_inv st \<longleftrightarrow> length (cli_buf st) = 81 \<and> cli_total st \<le> 80 \<and> length (hist_buf st) = 10 \<and> hist_index st < 10 \<and>
     hist_total st \<le> 10 \<and> current_history st \<le> 10 \<and>
     (\<forall>r\<in>set (hist_buf st). length r = 80 \<and> (\<exists>l. c_string r = Some l \<and> plain l))"

lemma cursor_left_eq: "\<exists>o'. cli_cursor_left n st = st\<lparr>ui_out := o'\<rparr>"
proof (induction n arbitrary: st)
  case 0
  show ?case by (intro exI [of _ "ui_out st"]) simp
next
  case (Suc n)
  obtain o' where "cli_cursor_left n (st\<lparr>ui_out := ui_out st @ [Putc 8, Putc 32, Putc 8]\<rparr>) = st\<lparr>ui_out := ui_out st @ [Putc 8, Putc 32, Putc 8]\<rparr>\<lparr>ui_out := o'\<rparr>"
    using Suc [of "st\<lparr>ui_out := ui_out st @ [Putc 8, Putc 32, Putc 8]\<rparr>"] by blast
  then show ?case by (auto simp: uart_putc_def)
qed

lemma c_string_shorter: "c_string r = Some l \<Longrightarrow> length l < length r"
proof -
  have "0 \<in> set r \<Longrightarrow> length (takeWhile (\<lambda>c. c \<noteq> 0) r) < length r" by (induction r) auto
  then show "c_string r = Some l \<Longrightarrow> length l < length r" by (auto simp: c_string_def split: if_splits)
qed

lemma edit_inv_out [simp]: "edit_inv (st\<lparr>ui_out := x\<rparr>) = edit_inv st"
  by (simp add: edit_inv_def)

lemma prompt_inv: "edit_inv st \<Longrightarrow> \<exists>st'. CLI_PROMPT (st\<lparr>cli_total := 0\<rparr>) = Some st' \<and> edit_inv st' \<and> hist_index st' = hist_index st"
  by (simp add: prompt edit_inv_def)

lemma recall_inv:
  assumes "edit_inv st" "current_history st < 10"
  shows "\<exists>st'. recall st = Some st' \<and> edit_inv st'"
proof -
  let ?i = "unat (current_history st)"
  have i: "?i < 10" using assms(2) by (simp add: word_less_nat_alt)
  have "hist_buf st ! ?i \<in> set (hist_buf st)" using i assms(1) by (simp add: edit_inv_def)
  then obtain l where l: "length (hist_buf st ! ?i) = 80" "c_string (hist_buf st ! ?i) = Some l" "plain l"
    using assms(1) by (auto simp: edit_inv_def)
  have "length l < 80" using c_string_shorter [OF l(2)] l(1) by simp
  then have cp: "copy_string (cli_buf st) l = Some (l @ [0] @ drop (length l + 1) (cli_buf st))"
      "length (l @ [0] @ drop (length l + 1) (cli_buf st)) = 81" and t: "(of_nat (length l) :: u8) \<le> 80"
    using assms(1) by (simp_all add: copy_string_def edit_inv_def word_le_nat_alt unat_of_nat)
  obtain o' where o': "(if cli_total st \<noteq> 0 then cli_cursor_left (unat (cli_total st)) st else st) = st\<lparr>ui_out := o'\<rparr>"
    using cursor_left_eq [of "unat (cli_total st)" st] by (cases "cli_total st = 0") (auto intro: exI [of _ "ui_out st"])
  have "hist_buf st \<noteq> []" "?i < length (hist_buf st)" using i assms(1) by (auto simp: edit_inv_def)
  then show ?thesis
    unfolding recall_def o' using l cp t assms(1) by (simp add: print_plain edit_inv_def)
qed

text \<open>C28. Apart from Enter no key takes the line editor out of its buffers, as long as fewer than 80 characters
  are in the line: cursor keys, history recall, deletion, characters and control keys all keep the line within its 81
  bytes and the history within its ten rows.  (The lines of the history contain no percent sign, which \<open>printf\<close>
  would read as a conversion.)\<close>

theorem cli_editor_safe:
  assumes "edit_inv st" "cli_total st < 80" "data \<noteq> KEY_CR" "data \<noteq> KEY_LF"
  shows "\<exists>st'. cli_key H data st = Some st' \<and> edit_inv st'"
proof -
  have t: "unat (cli_total st) < 80" using assms(2) by (simp add: word_less_nat_alt)
  have t1: "unat (cli_total st + 1) = unat (cli_total st) + 1" using t by (simp add: unat_word_ariths)
  have t2: "cli_total st + 1 \<le> 80" using t t1 by (simp add: word_le_nat_alt)
  have len: "length (cli_buf st) = 81" using assms(1) by (simp add: edit_inv_def)
  have put: "put_buf (cli_total st) x st = Some (st\<lparr>cli_buf := (cli_buf st)[unat (cli_total st) := x]\<rparr>)"
    "put_buf (cli_total st + 1) y (st\<lparr>cli_buf := (cli_buf st)[unat (cli_total st) := x]\<rparr>) =
      Some (st\<lparr>cli_buf := (cli_buf st)[unat (cli_total st) := x, unat (cli_total st) + 1 := y]\<rparr>)" for x y
    using t t1 len by (simp_all add: put_buf_def)
  consider (left) "data = KEY_BS \<or> data = ARROW_L" | (space) "data = KEY_TAB \<or> data = KEY_SP" | (esc) "data = KEY_ESC"
    | (up) "data = KEY_CTRL_U \<or> data = ARROW_U" | (down) "data = ARROW_D \<or> data = KEY_CTRL_D \<or> data = KEY_CTRL_N"
    | (none) "data < 0x20 \<or> data > 0x7f" "data \<notin> {KEY_BS, ARROW_L, KEY_TAB, KEY_SP, KEY_ESC, KEY_CTRL_U, ARROW_U, ARROW_D, KEY_CTRL_D, KEY_CTRL_N}"
    | (char) "\<not> (data < 0x20 \<or> data > 0x7f)" "data \<notin> {KEY_BS, ARROW_L, KEY_TAB, KEY_SP, KEY_ESC, KEY_CTRL_U, ARROW_U, ARROW_D, KEY_CTRL_D, KEY_CTRL_N}"
    by auto
  then show ?thesis
  proof cases
    case left
    have "cli_total st - 1 \<le> 80" if "cli_total st \<noteq> 0" using that t by (simp add: word_le_nat_alt unat_sub unat_gt_0 Suc_le_eq)
    then show ?thesis using left assms(1) put(1) [of 0] by (auto simp: cli_key_def uart_putc_def edit_inv_def)
  next
    case space
    then show ?thesis using put t2 assms(1) print_plain [OF plain_consts(2)]
      by (auto simp: cli_key_def key_defs edit_inv_def)
  next
    case esc
    then show ?thesis using assms(1) by (simp add: cli_key_def key_defs prompt edit_inv_def less_imp_le)
  next
    case up
    let ?c = "if current_history st = 0 then hist_total st - 1 else current_history st - 1"
    have "?c < 10" if "hist_total st \<noteq> 0"
    proof -
      have "unat (x - 1) < 10" if "x \<noteq> 0" "x \<le> 10" for x :: u8
        using that by (simp add: unat_sub unat_gt_0 word_le_nat_alt Suc_le_eq)
      then show ?thesis using assms(1) that by (simp add: word_less_nat_alt edit_inv_def)
    qed
    moreover have "edit_inv (st\<lparr>current_history := ?c\<rparr>)" if "hist_total st \<noteq> 0"
      using calculation [OF that] assms(1) by (auto simp: edit_inv_def)
    ultimately show ?thesis using up assms(1) recall_inv [of "st\<lparr>current_history := ?c\<rparr>"]
      by (cases "hist_total st = 0") (auto simp: cli_key_def key_defs)
  next
    case down
    let ?c = "if current_history st + 1 \<ge> hist_total st then 0 else current_history st + 1"
    have "?c < 10" using assms(1) by (auto simp: edit_inv_def)
    moreover have "edit_inv (st\<lparr>current_history := ?c\<rparr>)"
      using calculation assms(1) by (auto simp: edit_inv_def)
    ultimately show ?thesis using down assms(1) recall_inv [of "st\<lparr>current_history := ?c\<rparr>"]
      by (cases "hist_total st = 0") (auto simp: cli_key_def key_defs)
  next
    case none
    then show ?thesis using assms by (simp add: cli_key_def)
  next
    case char
    let ?st = "(uart_putc data (st\<lparr>cli_buf := (cli_buf st)[unat (cli_total st) := data, unat (cli_total st) + 1 := 0]\<rparr>))\<lparr>cli_total := cli_total st + 1\<rparr>"
    have "cli_key H data st = (if cli_total st + 1 \<ge> CLI_MAX_CHARS - 1
        then Option.bind (prints [[0x0a] @ ascii ''Command is too long!''] (?st\<lparr>cli_total := 0\<rparr>)) CLI_PROMPT else Some ?st)"
      using char put assms(3,4) by (simp add: cli_key_def Let_def uart_putc_def)
    moreover have "edit_inv ?st" "edit_inv (?st\<lparr>cli_total := 0\<rparr>)" using assms(1) t2 by (simp_all add: edit_inv_def uart_putc_def)
    ultimately show ?thesis using prompt print_plain [OF plain_consts(8)] by simp
  qed
qed

theorem cli_editor_safe_witness:
  "\<exists>st'. cli_key (\<lambda>_ st. Some st) 0x41 wit_ui = Some st' \<and> edit_inv st'"
proof -
  have "edit_inv wit_ui"
    by (simp add: edit_inv_def wit_ui_def c_string_def plain_def)
  from cli_editor_safe [OF this, of "0x41"] show ?thesis by (simp add: wit_ui_def key_defs)
qed

lemma space_key:
  assumes "length (cli_buf st) = 81" "unat (cli_total st) < 80"
  shows "\<exists>st'. cli_key H KEY_SP st = Some st' \<and> length (cli_buf st') = 81 \<and> unat (cli_total st') = unat (cli_total st) + 1"
  using assms print_plain [OF plain_consts(2)]
  by (simp add: cli_key_def key_defs put_buf_def unat_word_ariths)

lemma space_keys:
  "length (cli_buf st) = 81 \<Longrightarrow> unat (cli_total st) + n \<le> 80 \<Longrightarrow>
   \<exists>st'. cli_keys H (replicate n KEY_SP) st = Some st' \<and> length (cli_buf st') = 81 \<and> unat (cli_total st') = unat (cli_total st) + n"
proof (induction n arbitrary: st)
  case (Suc n)
  obtain s1 where s1: "cli_key H KEY_SP st = Some s1" "length (cli_buf s1) = 81" "unat (cli_total s1) = unat (cli_total st) + 1"
    using space_key [of st H] Suc.prems by auto
  from Suc.IH [of s1] s1 Suc.prems show ?case by auto
qed simp

text \<open>C38. The test for an overlong line guards only the printable characters: spaces and tabs are stored without a limit.
  From the prompt the line takes 80 of them; the next one is written behind the end of the line buffer.\<close>

theorem cli_spaces_overflow:
  assumes "at_prompt st"
  shows "cli_keys H (replicate 80 KEY_SP) st \<noteq> None \<and> cli_keys H (replicate 81 KEY_SP) st = None"
proof -
  obtain s1 where s1: "cli_keys H (replicate 80 KEY_SP) st = Some s1" "length (cli_buf s1) = 81" "unat (cli_total s1) = 80"
    using space_keys [of st 80 H] assms by (auto simp: at_prompt_def)
  have "cli_key H KEY_SP s1 = None"
    using s1(2,3) by (simp add: cli_key_def key_defs put_buf_def unat_word_ariths)
  moreover have "replicate 81 KEY_SP = replicate 80 KEY_SP @ [KEY_SP]"
    using replicate_add [of 80 1 KEY_SP] by simp
  ultimately show ?thesis
    using s1(1) by (simp add: cli_keys_append)
qed

theorem cli_spaces_overflow_witness:
  "cli_keys (\<lambda>_ st. Some st) (replicate 80 KEY_SP) wit_ui \<noteq> None \<and> cli_keys (\<lambda>_ st. Some st) (replicate 81 KEY_SP) wit_ui = None"
  by (rule cli_spaces_overflow [OF wit_ui])

end
