(* ===== verification/SysScanf.thy ===== *)
theory SysScanf
  imports SysPrintf
begin

text \<open>
  The scanner of \<open>src/src/sys/sys_printf.c\<close>: \<open>skip_atoi\<close>, the number parsers \<open>simple_strtoul\<close> and their
  variants, \<open>sys_vsscanf\<close> and \<open>sys_sscanf\<close>.

  Strings are lists of bytes without the terminator; \<open>char_at\<close> reads the terminator as 0.  The result of a scan is the
  list of values it stores, in the order of the arguments, and the number it returns.  \<open>None\<close> is the conversion
  \<open>%[\<close>, which compares a local variable before anything is stored in it.

  The macro \<open>isdigit\<close> of \<open>api.h\<close> has no outer parentheses: in \<open>isdigit(*cp) ? *cp-'0' : ...\<close> it takes over
  the question mark, and the value of every decimal digit is \<open>TRUE\<close>.
\<close>

section \<open>Numbers\<close>

definition char_at :: "u8 list \<Rightarrow> u8" where
  "char_at s = (case s of [] \<Rightarrow> 0 | c # _ \<Rightarrow> c)"

definition isxdigit :: "u8 \<Rightarrow> bool" where
  "isxdigit c \<longleftrightarrow> (0x30 \<le> c \<and> c \<le> 0x39) \<or> (0x61 \<le> c \<and> c \<le> 0x66) \<or> (0x41 \<le> c \<and> c \<le> 0x46)"

definition isspace :: "u8 \<Rightarrow> bool" where "isspace c \<longleftrightarrow> c = 0x20"

fun skip_atoi :: "int \<Rightarrow> u8 list \<Rightarrow> int \<times> u8 list" where
  "skip_atoi i [] = (i, [])"
| "skip_atoi i (c # s) = (if is_digit c then skip_atoi (i * 10 + (uint c - 0x30)) s else (i, c # s))"

text \<open>\<open>value = isdigit(*cp) ? *cp-'0' : toupper(*cp)-'A'+10\<close>, with the macro expanded.\<close>

definition digit_value :: "u8 \<Rightarrow> 'a::len word" where
  "digit_value c = (if is_digit c then 1 else ucast (sys_toupper c) - 0x41 + 10)"

fun strto_loop :: "'a::len word \<Rightarrow> 'a word \<Rightarrow> u8 list \<Rightarrow> 'a word \<times> u8 list" where
  "strto_loop base r [] = (r, [])"
| "strto_loop base r (c # cp) =
     (if isxdigit c \<and> digit_value c < base then strto_loop base (r * base + digit_value c) cp else (r, c # cp))"

text \<open>The prefix: with base 0 a leading 0 means octal, \<open>0x\<close> hexadecimal.\<close>

definition strto_base :: "'a::len word \<Rightarrow> u8 list \<Rightarrow> 'a word \<times> u8 list" where
  "strto_base base cp =
     (if base = 0 then
        (if char_at cp = 0x30 then
           (let cp = tl cp in
            if sys_toupper (char_at cp) = 0x58 \<and> isxdigit (char_at (tl cp)) then (16, tl cp) else (8, cp))
         else (10, cp))
      else if base = 16 \<and> char_at cp = 0x30 \<and> sys_toupper (char_at (tl cp)) = 0x58 then (base, drop 2 cp)
      else (base, cp))"

definition simple_strtoull :: "u8 list \<Rightarrow> u64 \<Rightarrow> u64 \<times> u8 list" where
  "simple_strtoull cp base = (let (base, cp) = strto_base base cp in strto_loop base 0 cp)"

definition simple_strtoll :: "u8 list \<Rightarrow> u64 \<Rightarrow> u64 \<times> u8 list" where
  "simple_strtoll cp base =
     (if char_at cp = 0x2d then (let (v, n) = simple_strtoull (tl cp) base in (- v, n)) else simple_strtoull cp base)"

definition simple_strtoul :: "u8 list \<Rightarrow> u32 \<Rightarrow> u32 \<times> u8 list" where
  "simple_strtoul cp base = (let (base, cp) = strto_base base cp in strto_loop base 0 cp)"

definition simple_strtol :: "u8 list \<Rightarrow> u32 \<Rightarrow> u32 \<times> u8 list" where
  "simple_strtol cp base =
     (if char_at cp = 0x2d then (let (v, n) = simple_strtoul (tl cp) base in (- v, n)) else simple_strtoul cp base)"

section \<open>The scanner\<close>

datatype scanned = ScanChars "u8 list" | ScanStr "u8 list" | ScanByte u8 | ScanHalf u16 | ScanWord u32 | ScanLong u64 | ScanPos nat

text \<open>The qualifier: \<open>H\<close> and \<open>L\<close> stand for a doubled letter, 0 for none.\<close>

definition scan_qualifier :: "u8 list \<Rightarrow> u8 \<times> u8 list" where
  "scan_qualifier fmt =
     (let q = char_at fmt in
      if q \<in> {0x68, 0x6c, 0x4c, 0x5a, 0x7a} then
        (let fmt = tl fmt in
         if q = char_at fmt then
           (if q = 0x68 then (0x48, tl fmt) else if q = 0x6c then (0x4c, tl fmt) else (q, fmt))
         else (q, fmt))
      else (0, fmt))"

text \<open>What an integer conversion stores, and the rest of the input.\<close>

definition scan_number :: "u8 \<Rightarrow> bool \<Rightarrow> u32 \<Rightarrow> u8 list \<Rightarrow> scanned \<times> u8 list" where
  "scan_number q is_sign base str =
     (if q = 0x4c then
        (let (v, n) = (if is_sign then simple_strtoll str (ucast base) else simple_strtoull str (ucast base)) in (ScanLong v, n))
      else
        (let (v, n) = (if q \<in> {0x5a, 0x7a} \<or> \<not> is_sign then simple_strtoul str base else simple_strtol str base) in
         (if q = 0x48 then ScanByte (ucast v) else if q = 0x68 then ScanHalf (ucast v) else ScanWord v, n)))"

text \<open>The conversion letter: the base and the sign of the integer conversions.\<close>

definition int_conv :: "u8 \<Rightarrow> (u32 \<times> bool) option" where
  "int_conv c =
     (if c = 0x6f then Some (8, False) else if c = 0x78 \<or> c = 0x58 then Some (16, False)
      else if c = 0x69 then Some (0, True) else if c = 0x64 then Some (10, True)
      else if c = 0x75 then Some (10, False) else None)"

definition bad_digit :: "u32 \<Rightarrow> u8 \<Rightarrow> bool" where
  "bad_digit base d \<longleftrightarrow> d = 0 \<or> base = 16 \<and> \<not> isxdigit d \<or> base = 10 \<and> \<not> is_digit d \<or>
     base = 8 \<and> (\<not> is_digit d \<or> d > 0x37) \<or> base = 0 \<and> \<not> is_digit d"

definition chars_taken :: "int \<Rightarrow> u8 list \<Rightarrow> u8 list" where
  "chars_taken w str = take (nat (max w 1)) str"

definition word_taken :: "int \<Rightarrow> u8 list \<Rightarrow> u8 list" where
  "word_taken w str = (let s = takeWhile (\<lambda>c. \<not> isspace c) str in if w = -1 then s else take (nat w) s)"

text \<open>One conversion; \<open>fmt\<close> stands behind the percent sign.  Inside, \<open>None\<close> ends the scan; otherwise the values stored, how
  much they count, the rest of the format and of the input.\<close>

definition conversion ::
  "nat \<Rightarrow> u8 list \<Rightarrow> u8 list \<Rightarrow> (scanned list \<times> int \<times> u8 list \<times> u8 list) option option" where
  "conversion n fmt str =
     (if char_at fmt = 0x2a then
        Some (Some ([], 0, dropWhile (\<lambda>c. \<not> isspace c) fmt, dropWhile (\<lambda>c. \<not> isspace c) str))
      else
        (let (w, fmt) = (if is_digit (char_at fmt) then skip_atoi 0 fmt else (-1, fmt)); (q, fmt) = scan_qualifier fmt in
         if fmt = [] \<or> str = [] then Some None
         else if hd fmt = 0x63 then
           (let cs = chars_taken w str in Some (Some ([ScanChars cs], 1, tl fmt, drop (length cs) str)))
         else if hd fmt = 0x73 then
           (let str = dropWhile isspace str; cs = word_taken w str in Some (Some ([ScanStr cs], 1, tl fmt, drop (length cs) str)))
         else if hd fmt = 0x5b then None
         else if hd fmt = 0x6e then Some (Some ([ScanPos (n - length str)], 0, tl fmt, str))
         else if hd fmt = 0x25 then Some (if char_at str \<noteq> 0x25 then None else Some ([], 0, tl fmt, tl str))
         else
           (case int_conv (hd fmt) of None \<Rightarrow> Some None
            | Some (base, is_sign) \<Rightarrow>
                (let str = dropWhile isspace str;
                     digit = (if is_sign \<and> char_at str = 0x2d then char_at (tl str) else char_at str) in
                 if bad_digit base digit then Some None
                 else (let (v, next) = scan_number q is_sign base str in Some (Some ([v], 1, tl fmt, next)))))))"

lemma skip_atoi_length: "length (snd (skip_atoi i s)) \<le> length s"
  by (induction i s rule: skip_atoi.induct) auto

lemma scan_qualifier_length: "length (snd (scan_qualifier fmt)) \<le> length fmt"
  by (auto simp: scan_qualifier_def Let_def)

lemma conversion_length:
  assumes "conversion n fmt str = Some (Some (vs, k, fmt', str'))"
  shows "length fmt' \<le> length fmt"
proof (cases "char_at fmt = 0x2a")
  case True
  then show ?thesis using assms by (auto simp: conversion_def length_dropWhile_le)
next
  case False
  obtain w f1 where w: "(if is_digit (char_at fmt) then skip_atoi 0 fmt else (-1, fmt)) = (w, f1)" by fastforce
  obtain q f2 where q: "scan_qualifier f1 = (q, f2)" by fastforce
  have "length f1 \<le> length fmt" using w skip_atoi_length [of 0 fmt] by (auto split: if_splits)
  moreover have "length f2 \<le> length f1" using q scan_qualifier_length [of f1] by simp
  moreover have "fmt' = tl f2"
    using assms False unfolding conversion_def w by (auto simp: Let_def q split: if_splits option.splits prod.splits)
  ultimately show ?thesis by simp
qed

text \<open>White space in the format matches any amount of it in the input.\<close>

definition skip_white :: "u8 list \<Rightarrow> u8 list \<Rightarrow> u8 list \<times> u8 list" where
  "skip_white fmt str = (if isspace (char_at fmt) then (dropWhile isspace fmt, dropWhile isspace str) else (fmt, str))"

lemma skip_white_length: "skip_white fmt str = (fmt', str') \<Longrightarrow> length fmt' \<le> length fmt"
  by (auto simp: skip_white_def length_dropWhile_le split: if_splits)

text \<open>The format and the input from here on; \<open>out\<close> and \<open>num\<close> are what has been stored and counted.\<close>

function vsscanf_loop :: "nat \<Rightarrow> u8 list \<Rightarrow> u8 list \<Rightarrow> scanned list \<Rightarrow> int \<Rightarrow> (scanned list \<times> int) option" where
  "vsscanf_loop n fmt str out num =
     (if fmt = [] \<or> str = [] then Some (out, num)
      else
        (case skip_white fmt str of (fmt, str) \<Rightarrow>
           if fmt = [] then Some (out, num)
           else if hd fmt \<noteq> 0x25 then
             (if hd fmt \<noteq> char_at str then Some (out, num) else vsscanf_loop n (tl fmt) (tl str) out num)
           else
             (case conversion n (tl fmt) str of None \<Rightarrow> None
              | Some None \<Rightarrow> Some (out, num)
              | Some (Some (vs, k, fmt', str')) \<Rightarrow> vsscanf_loop n fmt' str' (out @ vs) (num + k))))"
  by pat_completeness auto
termination
  by (relation "measure (\<lambda>(_, fmt, _). length fmt)")
    (auto simp: neq_Nil_conv dest!: conversion_length skip_white_length [OF sym])

declare vsscanf_loop.simps [simp del]

definition sys_vsscanf :: "u8 list \<Rightarrow> u8 list \<Rightarrow> (scanned list \<times> int) option" where
  "sys_vsscanf buf fmt = vsscanf_loop (length buf) fmt buf [] 0"

definition sys_sscanf :: "u8 list \<Rightarrow> u8 list \<Rightarrow> (scanned list \<times> int) option" where
  "sys_sscanf buf fmt = sys_vsscanf buf fmt"

section \<open>What the scanner reads\<close>

lemma digit_facts: "is_digit c \<Longrightarrow> isxdigit c \<and> \<not> isspace c \<and> c \<noteq> 0 \<and> c \<noteq> 0x2d"
  by (auto simp: is_digit_def isxdigit_def isspace_def)

text \<open>A decimal text: every digit counts as 1.\<close>

lemma strto_loop_digits:
  "list_all is_digit ds \<Longrightarrow> strto_loop (10 :: u32) r ds = (foldl (\<lambda>r _. r * 10 + 1) r ds, [])"
  by (induction ds arbitrary: r) (auto simp: digit_facts digit_value_def)

lemma ones_value: "foldl (\<lambda>r _. r * 10 + 1) (r :: u32) ds = r * 10 ^ length ds + of_nat (\<Sum>i<length ds. 10 ^ i)"
proof (induction ds arbitrary: r)
  case (Cons d ds)
  show ?case unfolding foldl.simps Cons.IH by (simp add: algebra_simps)
qed simp

lemma simple_strtoul_digits:
  assumes "list_all is_digit ds"
  shows "simple_strtoul ds 10 = (of_nat (\<Sum>i<length ds. 10 ^ i), [])"
  using strto_loop_digits [OF assms, of 0] ones_value [of 0 ds]
  by (simp add: simple_strtoul_def strto_base_def)

lemma not_space_head: "s \<noteq> [] \<Longrightarrow> \<not> isspace (hd s) \<Longrightarrow> dropWhile isspace s = s"
  by (cases s) auto

lemma sscanf_d:
  assumes "list_all is_digit ds" "ds \<noteq> []"
  shows "sys_sscanf ds [0x25, 0x64] = Some ([ScanWord (of_nat (\<Sum>i<length ds. 10 ^ i))], 1)"
proof -
  have h: "is_digit (hd ds)" using assms by (cases ds) auto
  then have c: "char_at ds = hd ds" "dropWhile isspace ds = ds" "hd ds \<noteq> 0x2d" "\<not> bad_digit 10 (hd ds)"
    using assms(2) not_space_head digit_facts by (auto simp: char_at_def bad_digit_def split: list.splits)
  have q: "scan_qualifier [0x64] = (0, [0x64])" by (simp add: scan_qualifier_def char_at_def)
  have n: "scan_number 0 True 10 ds = (ScanWord (of_nat (\<Sum>i<length ds. 10 ^ i)), [])"
    using simple_strtoul_digits [OF assms(1)] c by (simp add: scan_number_def simple_strtol_def)
  have "conversion k [0x64] ds = Some (Some ([ScanWord (of_nat (\<Sum>i<length ds. 10 ^ i))], 1, [], []))" for k
    using q n c assms(2) by (simp add: conversion_def char_at_def [of "[0x64]"] is_digit_def int_conv_def)
  then show ?thesis using assms(2)
    by (simp add: sys_sscanf_def sys_vsscanf_def vsscanf_loop.simps skip_white_def isspace_def char_at_def)
qed

text \<open>Words: \<open>"%s %s"\<close> takes two words apart.\<close>

lemma word_then: "list_all (\<lambda>c. \<not> isspace c) w \<Longrightarrow> r = [] \<or> isspace (hd r) \<Longrightarrow> takeWhile (\<lambda>c. \<not> isspace c) (w @ r) = w"
  by (induction w) (cases r; auto)+

lemma sscanf_s:
  assumes "list_all (\<lambda>c. \<not> isspace c) w" "w \<noteq> []" "r = [] \<or> isspace (hd r)"
  shows "conversion k (0x73 # fmt) (w @ r) = Some (Some ([ScanStr w], 1, fmt, r))"
proof -
  have q: "scan_qualifier (0x73 # fmt) = (0, 0x73 # fmt)" by (simp add: scan_qualifier_def char_at_def)
  have "dropWhile isspace (w @ r) = w @ r" using assms(1,2) by (intro not_space_head) (auto simp: list_all_iff)
  then show ?thesis
    using q word_then [OF assms(1,3)] assms(2) by (simp add: conversion_def char_at_def is_digit_def word_taken_def)
qed

lemma loop_conv: "str \<noteq> [] \<Longrightarrow> conversion n f str = Some (Some (vs, k, f', s')) \<Longrightarrow>
    vsscanf_loop n (0x25 # f) str out num = vsscanf_loop n f' s' (out @ vs) (num + k)"
  by (subst vsscanf_loop.simps) (simp add: skip_white_def isspace_def char_at_def)

lemma loop_space: "str \<noteq> [] \<Longrightarrow> dropWhile isspace str \<noteq> [] \<Longrightarrow>
    vsscanf_loop n (0x20 # 0x25 # f) str out num = vsscanf_loop n (0x25 # f) (dropWhile isspace str) out num"
  by (subst (1 2) vsscanf_loop.simps) (auto simp: skip_white_def isspace_def char_at_def)

lemma loop_end: "vsscanf_loop n [] s out num = Some (out, num)"
  by (subst vsscanf_loop.simps) simp

lemma sscanf_words:
  assumes "list_all (\<lambda>c. \<not> isspace c) w" "w \<noteq> []" "list_all (\<lambda>c. \<not> isspace c) v" "v \<noteq> []" "0 < n"
  shows "sys_sscanf (w @ replicate n 0x20 @ v) [0x25, 0x73, 0x20, 0x25, 0x73] = Some ([ScanStr w, ScanStr v], 2)"
proof -
  have sp: "isspace 0x20" by (simp add: isspace_def)
  have d: "dropWhile isspace (replicate n 0x20 @ v) = v"
    using assms(3,4) sp by (induction n) (auto simp: not_space_head list_all_iff)
  have 1: "conversion k (0x73 # fmt) (w @ replicate n 0x20 @ v) = Some (Some ([ScanStr w], 1, fmt, replicate n 0x20 @ v))" for k fmt
    using assms(5) sp by (intro sscanf_s [OF assms(1,2)]) (cases n; simp)
  have 2: "conversion k [0x73] v = Some (Some ([ScanStr v], 1, [], []))" for k
    using sscanf_s [OF assms(3,4), of "[]" k "[]"] by simp
  define s where "s = replicate n 0x20 @ v"
  define k where "k = length (w @ s)"
  have sn: "s \<noteq> []" "w @ s \<noteq> []" using assms(4) by (simp_all add: s_def)
  have "vsscanf_loop k (0x25 # [0x73, 0x20, 0x25, 0x73]) (w @ s) [] 0 = vsscanf_loop k [0x20, 0x25, 0x73] s ([] @ [ScanStr w]) (0 + 1)"
    unfolding s_def by (rule loop_conv [OF sn(2) [unfolded s_def] 1])
  moreover have "vsscanf_loop k (0x20 # 0x25 # [0x73]) s [ScanStr w] 1 = vsscanf_loop k (0x25 # [0x73]) v [ScanStr w] 1"
    using loop_space [OF sn(1), of k "[0x73]" "[ScanStr w]" 1] d assms(4) by (simp only: s_def simp_thms)
  moreover have "vsscanf_loop k (0x25 # [0x73]) v [ScanStr w] 1 = vsscanf_loop k [] [] ([ScanStr w] @ [ScanStr v]) (1 + 1)"
    by (rule loop_conv [OF assms(4) 2])
  ultimately show ?thesis by (simp add: sys_sscanf_def sys_vsscanf_def loop_end k_def s_def)
qed

text \<open>C40. The scanner does not read back what \<open>sprintf("%d")\<close> prints: because the macro \<open>isdigit\<close> swallows the
  conditional operator behind it, each decimal digit has the value 1, and the text of a number of \<open>k\<close> digits is
  scanned by \<open>"%d"\<close> as the number of \<open>k\<close> ones.\<close>

theorem sscanf_digits_count_one:
  "sys_sscanf (dec_text n) [0x25, 0x64] = Some ([ScanWord (of_nat (\<Sum>i<length (dec_text n). 10 ^ i))], 1)"
  by (rule sscanf_d) (use dec_text_digits dec_text_nonempty in \<open>auto simp: list_all_iff\<close>)

end
