(* ===== verification/Spec2Isabelle.thy ===== *)
theory Spec2Isabelle
  imports Crc16 SysString SysPrintf SysMalloc Enet Tftp Xmodem Vctl Ext2 Cli SysScanf
begin

text \<open>
  A verification library for the Cortina/StorLink boot loader (\<open>src/\<close>).

  \<^bold>\<open>The program.\<close>  The loader runs on an ARM core without an operating system.  It brings
  its own C library (\<open>src/src/sys\<close>: strings, formatted output, CRC, memory allocator, timer, and the
  configuration kept in flash), a network stack that is polled (\<open>src/src/net\<close>: buffers, Ethernet, ARP,
  IP, ICMP, UDP and a TFTP client over it), an Xmodem receiver on the serial line (\<open>src/src/Xmodem\<close>),
  a NAND flash driver (\<open>src/src/bsp/flash\<close>), a reader of ext2 partitions (\<open>src/src/ide\<close>) and a command
  line (\<open>src/src/ui\<close>).  Images arrive through TFTP, Xmodem or a disk and are written to flash.  The
  modelled configuration is \<open>src/board/lepus_linux/inc/board_config.h\<close>: little endian, NAND boot, RAID
  and IDE, no web server, no bootp.

  \<^bold>\<open>Values.\<close>  Memory is a total function from 32-bit addresses to bytes; words in it are
  read and written byte by byte in little endian order (\<open>Prelude\<close>).  C's unsigned types are words
  of their width, so sums wrap as in the code; \<open>int\<close> values that can be negative are \<open>int\<close> or are
  compared with the signed order of the word.  A loop that need not end is a
  \<open>partial_function (option)\<close>: \<open>None\<close> is a loop that does not return, or a write over the end of its
  buffer (a frame or a ping too long for a net buffer, a file name too long for the TFTP packet, a line
  too long for the command line).  Where
  the code returns, that is proved.

  \<^bold>\<open>Parts.\<close>
    \<^item> \<open>Prelude\<close>: types, memory accessors, byte order, lemmas on words and lists.
    \<^item> \<open>Crc16\<close> (\<open>sys_crc16.c\<close>, \<open>sl_crc16.c\<close>): table, loop, check and generator.  The table is the
      bitwise division, the generator passes the check, and damage to one byte is found.
    \<^item> \<open>SysString\<close> (\<open>sys_string.c\<close>): copies, comparisons, searches and number parsers.
    \<^item> \<open>SysPrintf\<close> (\<open>sys_printf.c\<close>): the formatted output; the parsers of \<open>SysString\<close> read it back.
      \<open>SysScanf\<close> (same file): the scanner and its number parsers, which do not.
    \<^item> \<open>SysMalloc\<close> (\<open>sys_malloc.c\<close>): the block list with split, reuse and garbage collection.
      It refines a list of blocks; blocks handed out are disjoint.
    \<^item> \<open>Chksum\<close> (\<open>chksum.h\<close>, part of \<open>ip.c\<close>), \<open>NetBuf\<close> (\<open>net_buf.c\<close>), \<open>NetState\<close>
      (state, \<open>enet_send\<close>), \<open>Arp\<close> (\<open>arp.c\<close>), \<open>Ip\<close> (\<open>ip.c\<close>, \<open>icmp.c\<close>), \<open>Udp\<close> (\<open>udp.c\<close>), \<open>Enet\<close>
      (\<open>enet.c\<close>, and the functions of the other layers that poll).  Every net buffer is at every
      moment in exactly one place; polls end and give every buffer back; calls that wait
      return when the tick counter runs on and find the answer that comes in time; the socket buffer
      is a byte queue; replies and checksums are right.
    \<^item> \<open>Tftp\<close> (\<open>tftp_client.c\<close>): both transfers.  The blocks stored are the ones sent, in order; every
      exit closes the socket.
    \<^item> \<open>Xmodem\<close> (\<open>Xmodem.c\<close>, \<open>Xmodem_crc16.c\<close>): the packet reader, its retries and its checks.
    \<^item> \<open>NandEcc\<close> and \<open>Nand\<close> (\<open>flash_nand.c\<close>, \<open>flash_nand_parts.h\<close>, \<open>flash_drv.c\<close>): the error correcting
      code repairs one and detects two wrong bits of a block of 256 bytes; pages, blocks, the search for
      good blocks.  The chip is the parameter \<open>nand_hw\<close>, and what a property needs of it is a named
      hypothesis.
    \<^item> \<open>Fis\<close> (\<open>sys_fis.c\<close>, \<open>sys_cfg.c\<close>): the directory of images in flash, its checksums, its default
      contents, the loading of images, and the addresses of the board.  The search returns the first
      valid entry; the addresses written are the ones read back.
    \<^item> \<open>Vctl\<close> (\<open>sys_vctl.c\<close>, \<open>sys_cfg.c\<close>): the version control area, a list of typed entries.  A save programs the
      encoding of the updated list, and what is saved is found again once it is loaded.
    \<^item> \<open>Ext2\<close> (\<open>ext2fs.c\<close>): mount, path lookup with symbolic links, reading.  Reads deliver the contents
      of the file; failed opens use up the handles.
    \<^item> \<open>Cli\<close> (\<open>ui_lib.c\<close>, \<open>ui_cli_main.c\<close>, \<open>ui_cli_tbl.c\<close>): keys, line editor with history, and the
      dispatch of commands, whose bodies are a parameter.

  \<^bold>\<open>How the parts meet.\<close>  \<open>NetState\<close> holds one record \<open>net\<close> with the memory, the buffers,
  the heap and the static variables of all network files; \<open>Fis\<close> has the record \<open>sys\<close> of the same kind
  for the files of the configuration.  The locale \<open>packet_handler\<close> of \<open>Enet\<close>
  is what the Ethernet layer needs of a protocol: the packet it is handed is freed or sent
  exactly once, and the state stays well formed.  ARP, ICMP, UDP, IP and the dispatcher are
  interpretations of it.  The locale \<open>byte_crc\<close> of \<open>Crc16\<close> is the contract of a byte-wise CRC, which
  the table driven loops of \<open>sys_crc16.c\<close> and \<open>Xmodem_crc16.c\<close> both satisfy.  The locale \<open>fifo\<close> of \<open>NetBuf\<close> is the
  contract of the free queue and the receive queue, \<open>digit_loop\<close> of \<open>SysString\<close> that of the number parsers.  \<open>Tftp\<close> and \<open>Udp\<close> call the allocator,
  \<open>Fis\<close> and \<open>Vctl\<close> the allocator, the strings, the formatted output and the NAND driver.

  \<^bold>\<open>Hardware and other parameters.\<close>  The record \<open>env\<close> gives what the code reads from
  outside: the frames delivered at the \<open>n\<close>-th call of the Ethernet driver, the value of the tick
  counter at its \<open>n\<close>-th reading, whether the \<open>n\<close>-th frame can be sent, the \<open>n\<close>-th character of the
  console, and the board's own addresses.  The counters of those calls are in the state, so the
  model is deterministic in the script.  Liveness properties assume \<open>ticking\<close>: the counter
  passes every value at some later reading; and \<open>frames_fit\<close>: no frame has the 2049 to 2080 bytes that
  pass the check of \<open>enet_input\<close> and overrun a buffer.  The NAND reader behind \<open>sys_memcpy\<close>, the disk
  behind a partition and the bodies of the commands are arguments.

  \<^bold>\<open>Bounds.\<close>  Loops are structural, have a measure, or are \<open>option\<close> valued with a proof of their
  result.  Fuel is used in one place: the path lookup of \<open>Ext2\<close> calls itself for a symbolic link without a bound, and the
  fuel is the depth of such calls plus one; its properties hold for every fuel.  Retry counts (ARP, ping,
  TFTP, Xmodem) are those of the code.

  \<^bold>\<open>Simplifications.\<close>  The headers of heap blocks and of net buffers are kept in maps of
  their own beside the byte memory.  The copies into net buffers and into the TFTP packet that the code
  does not bound have no result when they pass the end of the buffer; any other stray write of the program to these headers
  is not modelled.  \<open>sys_memcpy\<close> reads the NAND chip for sources in the flash window; the network layers
  copy between buffers in RAM and use the plain loop.  \<open>udp_sendto\<close> lacks a return statement
  on its success path; its result is modelled as that of the call before it.

  \<^bold>\<open>Not modelled.\<close>  The drivers of the network controllers, PHYs, PCI, UART, infrared, disks
  and NOR and serial flash chips, the register sequences of the NAND controller, the cache and
  interrupt code, the boot stage and the register headers: what they do is decided by hardware registers.  TCP and HTTP are
  not part of the modelled configuration.  The bodies of the console commands and the start-up
  sequence are dialogues around the modelled functions.  The RAID superblocks and the image tools,
  which run on a host over stdio, are left out.
\<close>

end
